(* ===== verification/Prelude.thy ===== *)
theory Prelude
  imports Complex_Main "HOL-Library.AList" "HOL-Library.Multiset" "HOL-Library.Sublist"
begin

named_theorems pydict \<open>lookup after insertion and deletion in a Python dict\<close>
named_theorems pystr \<open>string operations of the Python standard library\<close>

subsection \<open>Exceptions\<close>

datatype exn =
    ServiceException (exn_code: string) (exn_message: string) (exn_sender_fault: bool)
  | PyExn (exn_class: string) (exn_message: string)

abbreviation ValueError :: "string \<Rightarrow> exn" where
  "ValueError msg \<equiv> PyExn ''ValueError'' msg"

abbreviation KeyError :: "string \<Rightarrow> exn" where
  "KeyError k \<equiv> PyExn ''KeyError'' k"

abbreviation TypeError :: "string \<Rightarrow> exn" where
  "TypeError msg \<equiv> PyExn ''TypeError'' msg"

type_synonym 'a result = "exn + 'a"

type_synonym time = rat

fun exn_name :: "exn \<Rightarrow> string" where
  "exn_name (ServiceException c m s) = c"
| "exn_name (PyExn c m) = c"

fun bind_result :: "'a result \<Rightarrow> ('a \<Rightarrow> 'b result) \<Rightarrow> 'b result" where
  "bind_result (Inl e) f = Inl e"
| "bind_result (Inr x) f = f x"

lemma bind_result_Inr_iff: "bind_result r f = Inr y \<longleftrightarrow> (\<exists>x. r = Inr x \<and> f x = Inr y)"
  by (cases r) auto

lemma bind_result_cong [fundef_cong]:
  "r = r' \<Longrightarrow> (\<And>x. r' = Inr x \<Longrightarrow> f x = g x) \<Longrightarrow> bind_result r f = bind_result r' g"
  by (cases r') auto

subsection \<open>Python dicts\<close>

type_synonym ('k, 'v) dict = "('k \<times> 'v) list"

abbreviation dict_get :: "('k, 'v) dict \<Rightarrow> 'k \<Rightarrow> 'v option" where
  "dict_get d k \<equiv> map_of d k"

abbreviation dict_set :: "'k \<Rightarrow> 'v \<Rightarrow> ('k, 'v) dict \<Rightarrow> ('k, 'v) dict" where
  "dict_set k v d \<equiv> AList.update k v d"

abbreviation dict_del :: "'k \<Rightarrow> ('k, 'v) dict \<Rightarrow> ('k, 'v) dict" where
  "dict_del k d \<equiv> AList.delete k d"

abbreviation dict_has :: "('k, 'v) dict \<Rightarrow> 'k \<Rightarrow> bool" where
  "dict_has d k \<equiv> k \<in> set (map fst d)"

abbreviation dict_wf :: "('k, 'v) dict \<Rightarrow> bool" where
  "dict_wf d \<equiv> distinct (map fst d)"

definition dict_update :: "('k, 'v) dict \<Rightarrow> ('k, 'v) dict \<Rightarrow> ('k, 'v) dict" where
  "dict_update d e = fold (\<lambda>(k, v) acc. dict_set k v acc) e d"

definition dict_setdefault :: "'k \<Rightarrow> 'v \<Rightarrow> ('k, 'v) dict \<Rightarrow> ('k, 'v) dict" where
  "dict_setdefault k v d = (if dict_has d k then d else d @ [(k, v)])"

lemma dict_get_set [pydict, simp]: "dict_get (dict_set k v d) k' = (if k' = k then Some v else dict_get d k')"
  by (simp add: update_conv)

lemma dict_get_del [pydict, simp]: "dict_get (dict_del k d) k' = (if k' = k then None else dict_get d k')"
  by (simp add: delete_conv')

lemma dict_has_get [pydict]: "dict_has d k \<longleftrightarrow> (\<exists>v. dict_get d k = Some v)"
  by (metis domD domI dom_map_of_conv_image_fst set_map)

lemma dict_get_None [pydict]: "dict_get d k = None \<longleftrightarrow> \<not> dict_has d k"
  by (simp add: map_of_eq_None_iff)

lemma dict_wf_set [simp]: "dict_wf d \<Longrightarrow> dict_wf (dict_set k v d)"
  by (simp add: distinct_update)

lemma dict_wf_del [simp]: "dict_wf d \<Longrightarrow> dict_wf (dict_del k d)"
  by (simp add: distinct_delete)

lemma dict_update_Nil [simp]: "dict_update d [] = d"
  by (simp add: dict_update_def)

lemma dict_update_Cons: "dict_update d ((k, v) # e) = dict_update (dict_set k v d) e"
  by (simp add: dict_update_def)

lemma dict_wf_update: "dict_wf d \<Longrightarrow> dict_wf (dict_update d e)"
  by (induction e arbitrary: d) (auto simp: dict_update_Cons)

lemma dict_get_update: "dict_get (dict_update d e) k = (case dict_get (rev e) k of Some v \<Rightarrow> Some v | None \<Rightarrow> dict_get d k)"
proof (induction e arbitrary: d)
  case (Cons p e)
  then show ?case by (cases p) (auto simp: dict_update_Cons map_add_def split: option.splits)
qed simp

lemma map_of_rev: "dict_wf e \<Longrightarrow> map_of (rev e) = map_of e"
  by (rule map_of_inject_set [THEN iffD2]) (simp_all add: rev_map [symmetric])

lemma dict_get_update_wf:
  "dict_wf e \<Longrightarrow> dict_get (dict_update d e) k = (case dict_get e k of Some v \<Rightarrow> Some v | None \<Rightarrow> dict_get d k)"
  by (simp add: dict_get_update map_of_rev)

end
