(* ===== verification/PyStr.thy ===== *)
theory PyStr
  imports Prelude
begin

subsection \<open>Splitting, joining, prefixes\<close>

fun py_split :: "char \<Rightarrow> string \<Rightarrow> string list" where
  "py_split sep [] = [[]]"
| "py_split sep (c # cs) =
     (if c = sep then [] # py_split sep cs
      else case py_split sep cs of [] \<Rightarrow> [[c]] | w # ws \<Rightarrow> (c # w) # ws)"

fun py_join :: "string \<Rightarrow> string list \<Rightarrow> string" where
  "py_join sep [] = []"
| "py_join sep [w] = w"
| "py_join sep (w # ws) = w @ sep @ py_join sep ws"

abbreviation py_startswith :: "string \<Rightarrow> string \<Rightarrow> bool" where
  "py_startswith s p \<equiv> prefix p s"

abbreviation py_endswith :: "string \<Rightarrow> string \<Rightarrow> bool" where
  "py_endswith s p \<equiv> suffix p s"

definition py_rstrip :: "char \<Rightarrow> string \<Rightarrow> string" where
  "py_rstrip c s = rev (dropWhile (\<lambda>x. x = c) (rev s))"

definition py_lstrip :: "char \<Rightarrow> string \<Rightarrow> string" where
  "py_lstrip c s = dropWhile (\<lambda>x. x = c) s"

fun py_contains :: "string \<Rightarrow> string \<Rightarrow> bool" where
  "py_contains [] p = (p = [])"
| "py_contains (c # cs) p = (prefix p (c # cs) \<or> py_contains cs p)"

text \<open>\<open>s.split(sub)[0]\<close> for a non-empty separator: everything before its first occurrence.\<close>

fun py_split_head :: "string \<Rightarrow> string \<Rightarrow> string" where
  "py_split_head p [] = []"
| "py_split_head p (c # cs) = (if prefix p (c # cs) then [] else c # py_split_head p cs)"

lemma py_split_nonempty [simp]: "py_split sep s \<noteq> []"
  by (induction s) (auto split: list.splits)

lemma py_split_no_sep [pystr]: "sep \<notin> set s \<Longrightarrow> py_split sep s = [s]"
  by (induction s) auto

lemma py_split_append [pystr]:
  "sep \<notin> set w \<Longrightarrow> py_split sep (w @ sep # s) = w # py_split sep s"
  by (induction w) auto

lemma py_split_join [pystr]:
  "ws \<noteq> [] \<Longrightarrow> \<forall>w \<in> set ws. sep \<notin> set w \<Longrightarrow> py_split sep (py_join [sep] ws) = ws"
  by (induction "[sep]" ws rule: py_join.induct) (auto simp: py_split_no_sep py_split_append)

lemma py_join_split [pystr]: "py_join [sep] (py_split sep s) = s"
proof (induction s)
  case (Cons c s)
  obtain w ws where w: "py_split sep s = w # ws" by (cases "py_split sep s") auto
  then show ?case using Cons by (cases ws) auto
qed simp

lemma set_py_split: "w \<in> set (py_split sep s) \<Longrightarrow> sep \<notin> set w \<and> set w \<subseteq> set s"
proof (induction s arbitrary: w)
  case (Cons c s)
  obtain v vs where "py_split sep s = v # vs" by (cases "py_split sep s") auto
  with Cons show ?case by (fastforce split: if_splits)
qed simp

lemma py_rstrip_id [pystr]: "s \<noteq> [] \<Longrightarrow> last s \<noteq> c \<Longrightarrow> py_rstrip c s = s"
  by (cases s rule: rev_cases) (auto simp: py_rstrip_def)

lemma py_rstrip_append [pystr]: "py_rstrip c (s @ t) = (if py_rstrip c t = [] then py_rstrip c s else s @ py_rstrip c t)"
proof (cases "\<forall>x \<in> set t. x = c")
  case True
  then show ?thesis by (auto simp: py_rstrip_def dropWhile_append dropWhile_eq_Nil_conv)
next
  case False
  then have "\<exists>x \<in> set (rev t). x \<noteq> c" by auto
  then have "dropWhile (\<lambda>x. x = c) (rev t) \<noteq> []" by (auto simp: dropWhile_eq_Nil_conv)
  then show ?thesis by (auto simp: py_rstrip_def dropWhile_append)
qed

lemma py_lstrip_id [pystr]: "s = [] \<or> hd s \<noteq> c \<Longrightarrow> py_lstrip c s = s"
  by (cases s) (auto simp: py_lstrip_def)

subsection \<open>Characters\<close>

abbreviation ord_char :: "char \<Rightarrow> nat" where
  "ord_char c \<equiv> of_char c"

definition in_range :: "char \<Rightarrow> char \<Rightarrow> char \<Rightarrow> bool" where
  "in_range lo hi c \<longleftrightarrow> ord_char lo \<le> ord_char c \<and> ord_char c \<le> ord_char hi"

lemma in_range_code [code]: "in_range lo hi c \<longleftrightarrow> (of_char lo :: int) \<le> of_char c \<and> (of_char c :: int) \<le> of_char hi"
  by (simp add: in_range_def flip: of_nat_of_char [where 'a = int])

definition is_digit_char :: "char \<Rightarrow> bool" where
  "is_digit_char c = in_range CHR ''0'' CHR ''9'' c"

definition is_lower_char :: "char \<Rightarrow> bool" where
  "is_lower_char c = in_range CHR ''a'' CHR ''z'' c"

definition is_upper_char :: "char \<Rightarrow> bool" where
  "is_upper_char c = in_range CHR ''A'' CHR ''Z'' c"

definition is_alnum_char :: "char \<Rightarrow> bool" where
  "is_alnum_char c = (is_digit_char c \<or> is_lower_char c \<or> is_upper_char c)"

definition lower_char :: "char \<Rightarrow> char" where
  "lower_char c = (if is_upper_char c then char_of (ord_char c + 32) else c)"

definition py_lower :: "string \<Rightarrow> string" where
  "py_lower s = map lower_char s"

abbreviation newline :: char where
  "newline \<equiv> CHR 0x0A"

text \<open>
  \<open>re.match("^[class]{lo,hi}$", s)\<close>: a prefix of \<open>s\<close> of admissible length over the class, after
  which \<open>$\<close> matches, that is at the end of \<open>s\<close> or before a newline that ends \<open>s\<close>.
\<close>

definition re_class_match :: "(char \<Rightarrow> bool) \<Rightarrow> nat \<Rightarrow> nat \<Rightarrow> string \<Rightarrow> bool" where
  "re_class_match P lo hi s \<longleftrightarrow>
     (list_all P s \<and> lo \<le> length s \<and> length s \<le> hi) \<or>
     (s \<noteq> [] \<and> last s = newline \<and> list_all P (butlast s) \<and>
      lo \<le> length (butlast s) \<and> length (butlast s) \<le> hi)"

subsection \<open>Decimal numerals\<close>

definition digit_char :: "nat \<Rightarrow> char" where
  "digit_char n = char_of (48 + n)"

definition digit_val :: "char \<Rightarrow> nat" where
  "digit_val c = ord_char c - 48"

fun str_of_nat :: "nat \<Rightarrow> string" where
  "str_of_nat n = (if n < 10 then [digit_char n] else str_of_nat (n div 10) @ [digit_char (n mod 10)])"

declare str_of_nat.simps [simp del]

definition str_of_int :: "int \<Rightarrow> string" where
  "str_of_int i = (if i < 0 then CHR ''-'' # str_of_nat (nat (- i)) else str_of_nat (nat i))"

text \<open>
  The digits part of \<open>int(s)\<close>: decimal digits, single underscores between two digits; the flag
  says whether the character before was a digit.
\<close>

fun parse_digits :: "bool \<Rightarrow> nat \<Rightarrow> string \<Rightarrow> nat option" where
  "parse_digits prev acc [] = (if prev then Some acc else None)"
| "parse_digits prev acc (c # cs) =
     (if is_digit_char c then parse_digits True (10 * acc + digit_val c) cs
      else if c = CHR ''_'' \<and> prev then parse_digits False acc cs
      else None)"

definition is_space_char :: "char \<Rightarrow> bool" where
  "is_space_char c \<longleftrightarrow> c = CHR '' '' \<or> in_range CHR 0x09 CHR 0x0D c \<or> in_range CHR 0x1C CHR 0x1F c"

definition py_strip :: "string \<Rightarrow> string" where
  "py_strip s = rev (dropWhile is_space_char (rev (dropWhile is_space_char s)))"

definition py_int :: "string \<Rightarrow> int option" where
  "py_int s =
     (case py_strip s of
        [] \<Rightarrow> None
      | c # cs \<Rightarrow>
          (if c = CHR ''-'' then map_option (\<lambda>n. - int n) (parse_digits False 0 cs)
           else if c = CHR ''+'' then map_option int (parse_digits False 0 cs)
           else map_option int (parse_digits False 0 (c # cs))))"

lemma ord_digit_char: "n < 10 \<Longrightarrow> ord_char (digit_char n) = 48 + n"
  by (simp add: digit_char_def of_char_of)

lemma is_digit_digit_char [simp]: "n < 10 \<Longrightarrow> is_digit_char (digit_char n)"
  by (simp add: is_digit_char_def in_range_def ord_digit_char)

lemma digit_val_digit_char [simp]: "n < 10 \<Longrightarrow> digit_val (digit_char n) = n"
  by (simp add: digit_val_def ord_digit_char)

lemma str_of_nat_nonempty [simp]: "str_of_nat n \<noteq> []"
  by (subst str_of_nat.simps) simp

lemma set_str_of_nat: "c \<in> set (str_of_nat n) \<Longrightarrow> is_digit_char c"
proof (induction n rule: str_of_nat.induct)
  case (1 n)
  then show ?case by (subst (asm) (2) str_of_nat.simps) (auto split: if_splits)
qed

lemma parse_digits_all:
  "list_all is_digit_char xs \<Longrightarrow> b \<or> xs \<noteq> [] \<Longrightarrow>
   parse_digits b acc xs = Some (fold (\<lambda>c a. 10 * a + digit_val c) xs acc)"
  by (induction xs arbitrary: b acc) auto

lemma fold_str_of_nat: "fold (\<lambda>c a. 10 * a + digit_val c) (str_of_nat n) 0 = n"
proof (induction n rule: str_of_nat.induct)
  case (1 n)
  then show ?case by (subst str_of_nat.simps) auto
qed

lemma parse_digits_str_of_nat [simp]: "parse_digits b 0 (str_of_nat n) = Some n"
  using set_str_of_nat by (subst parse_digits_all) (auto simp: fold_str_of_nat list_all_iff)

lemma digit_not_space: "is_digit_char c \<Longrightarrow> \<not> is_space_char c"
  by (auto simp: is_digit_char_def is_space_char_def in_range_def)

lemma py_strip_id: "s \<noteq> [] \<Longrightarrow> \<not> is_space_char (hd s) \<Longrightarrow> \<not> is_space_char (last s) \<Longrightarrow> py_strip s = s"
  by (simp add: py_strip_def dropWhile_eq_self_iff [THEN iffD2] hd_rev)

lemma digit_not_sign: "is_digit_char c \<Longrightarrow> c \<noteq> CHR ''-'' \<and> c \<noteq> CHR ''+''"
  by (auto simp: is_digit_char_def in_range_def)

lemma last_str_of_nat: "is_digit_char (last (str_of_nat n))"
  using set_str_of_nat last_in_set str_of_nat_nonempty by blast

lemma hd_str_of_nat: "is_digit_char (hd (str_of_nat n))"
  using set_str_of_nat hd_in_set str_of_nat_nonempty by blast

lemma py_int_str_of_int [simp]: "py_int (str_of_int i) = Some i"
proof -
  have strip: "py_strip (str_of_nat n) = str_of_nat n" for n
    by (rule py_strip_id) (simp_all add: digit_not_space hd_str_of_nat last_str_of_nat)
  have strip': "py_strip (CHR ''-'' # str_of_nat n) = CHR ''-'' # str_of_nat n" for n
    by (rule py_strip_id)
      (simp_all add: digit_not_space last_str_of_nat, simp add: is_space_char_def in_range_def)
  have pos: "py_int (str_of_nat n) = Some (int n)" for n
  proof (cases "str_of_nat n")
    case (Cons c cs)
    then have "is_digit_char c" using hd_str_of_nat [of n] by simp
    then show ?thesis using strip [of n] Cons digit_not_sign [of c] parse_digits_str_of_nat [of False n]
      by (simp add: py_int_def del: parse_digits_str_of_nat)
  qed simp
  show ?thesis
  proof (cases "i < 0")
    case True
    then show ?thesis by (simp add: str_of_int_def py_int_def strip')
  next
    case False
    then show ?thesis by (simp add: str_of_int_def pos)
  qed
qed

text \<open>Evaluation over binary integers rather than unary natural numbers.\<close>

function int_digits :: "int \<Rightarrow> string" where
  "int_digits i = (if i < 10 then [digit_char (nat i)] else int_digits (i div 10) @ [digit_char (nat (i mod 10))])"
  by pat_completeness auto
termination
  by (relation "measure nat") auto

declare int_digits.simps [simp del]

lemma int_digits_nat: "int_digits (int n) = str_of_nat n"
proof (induction n rule: str_of_nat.induct)
  case (1 n)
  then show ?case
    by (subst int_digits.simps, subst str_of_nat.simps) (simp add: zdiv_int zmod_int nat_mod_distrib)
qed

lemma str_of_int_code [code]: "str_of_int i = (if i < 0 then CHR ''-'' # int_digits (- i) else int_digits i)"
  using int_digits_nat [of "nat i"] int_digits_nat [of "nat (- i)"] by (auto simp: str_of_int_def)

fun parse_digits_int :: "bool \<Rightarrow> int \<Rightarrow> string \<Rightarrow> int option" where
  "parse_digits_int prev acc [] = (if prev then Some acc else None)"
| "parse_digits_int prev acc (c # cs) =
     (if is_digit_char c then parse_digits_int True (10 * acc + int (digit_val c)) cs
      else if c = CHR ''_'' \<and> prev then parse_digits_int False acc cs
      else None)"

lemma parse_digits_int: "parse_digits_int prev (int acc) s = map_option int (parse_digits prev acc s)"
proof (induction prev acc s rule: parse_digits.induct)
  case (2 prev acc c cs)
  then show ?case using 2(1) by (simp add: algebra_simps)
qed simp

lemma py_int_code [code]:
  "py_int s =
     (case py_strip s of
        [] \<Rightarrow> None
      | c # cs \<Rightarrow>
          (if c = CHR ''-'' then map_option uminus (parse_digits_int False 0 cs)
           else if c = CHR ''+'' then parse_digits_int False 0 cs
           else parse_digits_int False 0 (c # cs)))"
  using parse_digits_int [of False 0] parse_digits_int [of True]
  by (simp add: py_int_def option.map_comp comp_def split: list.split)

subsection \<open>UTF-8\<close>

text \<open>
  A Python \<open>str\<close> is modelled by its UTF-8 encoding, so a character of a string is one byte,
  \<open>str.encode("utf-8")\<close> is the identity and \<open>bytes.decode("utf-8")\<close> is a validity check.
  \<open>utf8_decode\<close> gives the code points of a byte sequence, \<open>None\<close> when it is not valid UTF-8
  (overlong forms, surrogates and values above \<open>0x10FFFF\<close> are not).
\<close>

definition is_cont :: "char \<Rightarrow> bool" where
  "is_cont c \<longleftrightarrow> 128 \<le> ord_char c \<and> ord_char c < 192"

definition cont_val :: "char \<Rightarrow> nat" where
  "cont_val c = ord_char c - 128"

fun utf8_decode :: "string \<Rightarrow> nat list option" where
  "utf8_decode [] = Some []"
| "utf8_decode (a # xs) =
     (let x = ord_char a in
      if x < 128 then map_option (Cons x) (utf8_decode xs)
      else if 194 \<le> x \<and> x < 224 then
        (case xs of
           b # ys \<Rightarrow> if is_cont b then map_option (Cons ((x - 192) * 64 + cont_val b)) (utf8_decode ys)
                     else None
         | _ \<Rightarrow> None)
      else if 224 \<le> x \<and> x < 240 then
        (case xs of
           b # c # ys \<Rightarrow>
             (let v = (x - 224) * 4096 + cont_val b * 64 + cont_val c
              in if is_cont b \<and> is_cont c \<and> 2048 \<le> v \<and> \<not> (55296 \<le> v \<and> v < 57344)
                 then map_option (Cons v) (utf8_decode ys) else None)
         | _ \<Rightarrow> None)
      else if 240 \<le> x \<and> x < 245 then
        (case xs of
           b # c # d # ys \<Rightarrow>
             (let v = (x - 240) * 262144 + cont_val b * 4096 + cont_val c * 64 + cont_val d
              in if is_cont b \<and> is_cont c \<and> is_cont d \<and> 65536 \<le> v \<and> v < 1114112
                 then map_option (Cons v) (utf8_decode ys) else None)
         | _ \<Rightarrow> None)
      else None)"

definition utf8_valid :: "string \<Rightarrow> bool" where
  "utf8_valid s \<longleftrightarrow> utf8_decode s \<noteq> None"

definition is_ascii :: "string \<Rightarrow> bool" where
  "is_ascii s = list_all (\<lambda>c. ord_char c < 128) s"

text \<open>\<open>len(s)\<close> of a Python string counts code points.\<close>

definition py_len :: "string \<Rightarrow> nat" where
  "py_len s = length (filter (\<lambda>c. \<not> is_cont c) s)"

lemma utf8_decode_ascii: "is_ascii s \<Longrightarrow> utf8_decode s = Some (map of_char s)"
  by (induction s) (auto simp: is_ascii_def)

lemma utf8_valid_ascii [simp]: "is_ascii s \<Longrightarrow> utf8_valid s"
  by (simp add: utf8_valid_def utf8_decode_ascii)

lemma utf8_decode_length: "utf8_decode s = Some xs \<Longrightarrow> length xs = py_len s"
proof (induction s arbitrary: xs rule: utf8_decode.induct)
  case (2 a s)
  then show ?case
    by (auto simp: py_len_def is_cont_def Let_def split: if_splits list.splits)
qed (simp add: py_len_def)

end
