(* ===== verification/Arns.thy ===== *)
theory Arns
  imports PyStr
begin

text \<open>
  \<open>utils/aws/arns.py\<close>: partitions and ARNs. The ARN parser is botocore's \<open>ArnParser\<close>, which is not
  part of the repository: it is a parameter \<open>parse_arn\<close> of every definition that calls it, and
  \<open>arn_parser_ok\<close> is the documented behaviour the program relies on.
\<close>

definition DEFAULT_PARTITION :: string where
  "DEFAULT_PARTITION = ''aws''"

definition REGION_PREFIX_TO_PARTITION :: "(string, string) dict" where
  "REGION_PREFIX_TO_PARTITION =
     [(''cn-'', ''aws-cn''), (''us-gov-'', ''aws-us-gov''), (''us-iso-'', ''aws-iso''),
      (''us-isob-'', ''aws-iso-b''), (''eusc-'', ''aws-eusc'')]"

definition PARTITION_NAMES :: "string list" where
  "PARTITION_NAMES = map snd REGION_PREFIX_TO_PARTITION @ [DEFAULT_PARTITION]"

definition get_partition :: "string option \<Rightarrow> string" where
  "get_partition region =
     (case region of
        None \<Rightarrow> DEFAULT_PARTITION
      | Some r \<Rightarrow>
          (if r = '''' then DEFAULT_PARTITION
           else if r \<in> set PARTITION_NAMES then r
           else case find (\<lambda>(p, part). py_startswith r p) REGION_PREFIX_TO_PARTITION of
             Some (p, part) \<Rightarrow> part
           | None \<Rightarrow> DEFAULT_PARTITION))"

record arn_data =
  arn_partition :: string
  arn_service :: string
  arn_region :: string
  arn_account :: string
  arn_resource :: string

type_synonym arn_parser = "string \<Rightarrow> arn_data result"

definition make_arn :: "string \<Rightarrow> string \<Rightarrow> string \<Rightarrow> string \<Rightarrow> string \<Rightarrow> string" where
  "make_arn part service region account resource =
     ''arn:'' @ part @ '':'' @ service @ '':'' @ region @ '':'' @ account @ '':'' @ resource"

definition arn_parser_ok :: "arn_parser \<Rightarrow> bool" where
  "arn_parser_ok parse \<longleftrightarrow>
     (\<forall>part service region account resource.
        CHR '':'' \<notin> set part \<and> CHR '':'' \<notin> set service \<and> CHR '':'' \<notin> set region \<and> CHR '':'' \<notin> set account \<longrightarrow>
        parse (make_arn part service region account resource) =
          Inr \<lparr>arn_partition = part, arn_service = service, arn_region = region,
               arn_account = account, arn_resource = resource\<rparr>)"

definition extract_account_id_from_arn :: "arn_parser \<Rightarrow> string \<Rightarrow> string option" where
  "extract_account_id_from_arn parse arn = (case parse arn of Inr d \<Rightarrow> Some (arn_account d) | Inl _ \<Rightarrow> None)"

definition extract_region_from_arn :: "arn_parser \<Rightarrow> string \<Rightarrow> string option" where
  "extract_region_from_arn parse arn = (case parse arn of Inr d \<Rightarrow> Some (arn_region d) | Inl _ \<Rightarrow> None)"

definition extract_service_from_arn :: "arn_parser \<Rightarrow> string \<Rightarrow> string option" where
  "extract_service_from_arn parse arn = (case parse arn of Inr d \<Rightarrow> Some (arn_service d) | Inl _ \<Rightarrow> None)"

definition extract_resource_from_arn :: "arn_parser \<Rightarrow> string \<Rightarrow> string option" where
  "extract_resource_from_arn parse arn = (case parse arn of Inr d \<Rightarrow> Some (arn_resource d) | Inl _ \<Rightarrow> None)"

lemma partition_names: "get_partition r \<in> set PARTITION_NAMES"
  by (auto simp: get_partition_def PARTITION_NAMES_def DEFAULT_PARTITION_def REGION_PREFIX_TO_PARTITION_def
      split: option.splits)

lemma partition_no_colon: "CHR '':'' \<notin> set (get_partition r)"
  using partition_names [of r]
  by (auto simp: PARTITION_NAMES_def DEFAULT_PARTITION_def REGION_PREFIX_TO_PARTITION_def)

lemma partition_no_space: "CHR '' '' \<notin> set (get_partition r)"
  using partition_names [of r]
  by (auto simp: PARTITION_NAMES_def DEFAULT_PARTITION_def REGION_PREFIX_TO_PARTITION_def)

lemma partition_ascii: "is_ascii (get_partition r)"
  using partition_names [of r]
  by (auto simp: PARTITION_NAMES_def DEFAULT_PARTITION_def REGION_PREFIX_TO_PARTITION_def is_ascii_def)

text \<open>A parser of the documented behaviour exists: split at the first five colons.\<close>

definition split_arn :: arn_parser where
  "split_arn s =
     (case py_split CHR '':'' s of
        (a # p # sv # r # ac # rest) \<Rightarrow>
          if rest = [] then Inl (ValueError ''InvalidArnException'')
          else Inr \<lparr>arn_partition = p, arn_service = sv, arn_region = r, arn_account = ac,
                    arn_resource = py_join '':'' rest\<rparr>
      | _ \<Rightarrow> Inl (ValueError ''InvalidArnException''))"

lemma split_arn_ok: "arn_parser_ok split_arn"
  unfolding arn_parser_ok_def
proof (intro allI impI)
  fix p s r a res :: string
  assume "CHR '':'' \<notin> set p \<and> CHR '':'' \<notin> set s \<and> CHR '':'' \<notin> set r \<and> CHR '':'' \<notin> set a"
  then have "py_split CHR '':'' (make_arn p s r a res) = ''arn'' # p # s # r # a # py_split CHR '':'' res"
    using py_split_append [of "CHR '':''" "''arn''"] by (simp add: make_arn_def py_split_append)
  then show "split_arn (make_arn p s r a res) =
      Inr \<lparr>arn_partition = p, arn_service = s, arn_region = r, arn_account = a, arn_resource = res\<rparr>"
    by (simp add: split_arn_def py_join_split)
qed

end
