(* ===== verification/PyUrl.thy ===== *)
theory PyUrl
  imports PyStr
begin

text \<open>
  What \<open>urllib.parse.urlparse\<close> computes of a URL as far as the program reads it: the network
  location and the path. Leading control characters and blanks and any tab or line break are
  removed first, a scheme is a letter followed by scheme characters and a colon, the network
  location follows \<open>//\<close> up to the next of \<open>/?#\<close>, fragment and query are cut off, and the
  parameters after a semicolon in the last path segment are split off for the schemes that have
  them.
\<close>

record url_parts =
  url_scheme :: string
  url_netloc :: string
  url_path :: string

definition is_scheme_char :: "char \<Rightarrow> bool" where
  "is_scheme_char c \<longleftrightarrow> is_alnum_char c \<or> c = CHR ''+'' \<or> c = CHR ''-'' \<or> c = CHR ''.''"

definition url_clean :: "string \<Rightarrow> string" where
  "url_clean s =
     filter (\<lambda>c. c \<noteq> CHR 0x09 \<and> c \<noteq> newline \<and> c \<noteq> CHR 0x0D) (dropWhile (\<lambda>c. ord_char c \<le> 32) s)"

definition split_scheme :: "string \<Rightarrow> string \<times> string" where
  "split_scheme s =
     (let before = takeWhile (\<lambda>c. c \<noteq> CHR '':'') s; rest = dropWhile (\<lambda>c. c \<noteq> CHR '':'') s
      in if rest \<noteq> [] \<and> before \<noteq> [] \<and> (is_lower_char (hd s) \<or> is_upper_char (hd s)) \<and>
            list_all is_scheme_char before
         then (py_lower before, tl rest) else ([], s))"

abbreviation url_delim :: "char \<Rightarrow> bool" where
  "url_delim c \<equiv> c = CHR ''/'' \<or> c = CHR ''?'' \<or> c = CHR ''#''"

definition split_netloc :: "string \<Rightarrow> string \<times> string" where
  "split_netloc s =
     (if prefix ''//'' s
      then (takeWhile (\<lambda>c. \<not> url_delim c) (drop 2 s), dropWhile (\<lambda>c. \<not> url_delim c) (drop 2 s))
      else ([], s))"

definition uses_params :: "string list" where
  "uses_params = ['''', ''ftp'', ''hdl'', ''prospero'', ''http'', ''imap'', ''https'', ''shttp'', ''rtsp'', ''rtsps'',
     ''rtspu'', ''sip'', ''sips'', ''mms'', ''sftp'', ''tel'']"

text \<open>\<open>_splitparams\<close>: the first semicolon after the last slash starts the parameters.\<close>

definition drop_params :: "string \<Rightarrow> string" where
  "drop_params p =
     (let seg = rev (takeWhile (\<lambda>c. c \<noteq> CHR ''/'') (rev p)); dir = take (length p - length seg) p
      in dir @ takeWhile (\<lambda>c. c \<noteq> CHR '';'') seg)"

definition urlparse :: "string \<Rightarrow> url_parts" where
  "urlparse url =
     (let (scheme, rest) = split_scheme (url_clean url);
          (netloc, rest2) = split_netloc rest;
          path = takeWhile (\<lambda>c. c \<noteq> CHR ''?'' \<and> c \<noteq> CHR ''#'') rest2
      in \<lparr>url_scheme = scheme, url_netloc = netloc,
          url_path = (if scheme \<in> set uses_params then drop_params path else path)\<rparr>)"

text \<open>Characters that no step of the parser interprets.\<close>

definition url_plain :: "string \<Rightarrow> bool" where
  "url_plain s = list_all (\<lambda>c. 32 < ord_char c \<and> \<not> url_delim c \<and> c \<noteq> CHR '';'') s"

definition url_path_plain :: "string \<Rightarrow> bool" where
  "url_path_plain s = list_all (\<lambda>c. 32 < ord_char c \<and> c \<noteq> CHR ''?'' \<and> c \<noteq> CHR ''#'' \<and> c \<noteq> CHR '';'') s"

lemma url_clean_id: "list_all (\<lambda>c. 32 < ord_char c) s \<Longrightarrow> url_clean s = s"
  by (induction s) (auto simp: url_clean_def filter_id_conv list_all_iff)

lemma takeWhile_id: "list_all P s \<Longrightarrow> takeWhile P s = s"
  by (simp add: takeWhile_eq_all_conv list_all_iff)

lemma drop_params_id: "url_path_plain p \<Longrightarrow> drop_params p = p"
proof -
  assume p: "url_path_plain p"
  let ?seg = "rev (takeWhile (\<lambda>c. c \<noteq> CHR ''/'') (rev p))"
  have split: "p = rev (dropWhile (\<lambda>c. c \<noteq> CHR ''/'') (rev p)) @ ?seg"
    by (metis rev_append rev_rev_ident takeWhile_dropWhile_id)
  have "set ?seg \<subseteq> set p" using set_takeWhileD by fastforce
  then have "takeWhile (\<lambda>c. c \<noteq> CHR '';'') ?seg = ?seg"
    using p by (auto simp: url_path_plain_def list_all_iff takeWhile_eq_all_conv dest: set_takeWhileD)
  moreover have "take (length p - length ?seg) p @ ?seg = p"
    by (metis append_eq_conv_conj add_diff_cancel_right' length_append split)
  ultimately show ?thesis unfolding drop_params_def Let_def by (simp only:)
qed

text \<open>A URL of the shape the program prints: \<open>scheme://host/path\<close>.\<close>

lemma urlparse_plain:
  assumes scheme: "scheme \<noteq> []" "list_all is_lower_char scheme"
    and host: "url_plain host" and path: "url_path_plain path"
  shows "urlparse (scheme @ ''://'' @ host @ ''/'' @ path) =
    \<lparr>url_scheme = scheme, url_netloc = host, url_path = ''/'' @ path\<rparr>"
proof -
  let ?u = "scheme @ ''://'' @ host @ ''/'' @ path"
  have big: "c \<in> set scheme \<Longrightarrow> 97 \<le> ord_char c \<and> ord_char c \<le> 122" for c
    using scheme(2) by (auto simp: list_all_iff is_lower_char_def in_range_def)
  have "list_all (\<lambda>c. 32 < ord_char c) ?u"
    using host path big by (fastforce simp: list_all_iff url_plain_def url_path_plain_def)
  then have clean: "url_clean ?u = ?u" by (rule url_clean_id)
  have nocolon: "\<forall>c \<in> set scheme. c \<noteq> CHR '':''" using big by fastforce
  have tk: "takeWhile (\<lambda>c. c \<noteq> CHR '':'') ?u = scheme" "dropWhile (\<lambda>c. c \<noteq> CHR '':'') ?u = ''://'' @ host @ ''/'' @ path"
    using nocolon by (auto simp: takeWhile_append dropWhile_append)
  have low: "py_lower scheme = scheme"
    using big unfolding py_lower_def by (intro map_idI) (fastforce simp: lower_char_def is_upper_char_def in_range_def)
  have "list_all is_scheme_char scheme"
    using scheme(2) by (auto simp: list_all_iff is_scheme_char_def is_alnum_char_def)
  moreover have "is_lower_char (hd ?u)" using scheme by (cases scheme) auto
  ultimately have sch: "split_scheme ?u = (scheme, ''//'' @ host @ ''/'' @ path)"
    using scheme(1) unfolding split_scheme_def Let_def tk low by simp
  have hd: "takeWhile (\<lambda>c. \<not> url_delim c) (host @ ''/'' @ path) = host"
    "dropWhile (\<lambda>c. \<not> url_delim c) (host @ ''/'' @ path) = ''/'' @ path"
    using host by (auto simp: takeWhile_append dropWhile_append url_plain_def list_all_iff)
  have net: "split_netloc (''//'' @ host @ ''/'' @ path) = (host, ''/'' @ path)"
    unfolding split_netloc_def using hd by simp
  have pp: "url_path_plain (''/'' @ path)" using path by (simp add: url_path_plain_def)
  have "takeWhile (\<lambda>c. c \<noteq> CHR ''?'' \<and> c \<noteq> CHR ''#'') (''/'' @ path) = ''/'' @ path"
    using path by (intro takeWhile_id) (auto simp: url_path_plain_def list_all_iff)
  then show ?thesis
    unfolding urlparse_def clean sch Let_def prod.case net drop_params_id [OF pp] by (simp only: drop_params_id [OF pp] if_cancel)
qed

end
