(* ===== verification/PyBase64.thy ===== *)
theory PyBase64
  imports PyStr
begin

subsection \<open>Encoding\<close>

text \<open>The alphabet \<open>A-Z\<close>, \<open>a-z\<close>, \<open>0-9\<close>, \<open>+\<close>, \<open>/\<close> in the order of the 64 values.\<close>

definition b64_char :: "nat \<Rightarrow> char" where
  "b64_char n =
     (if n < 26 then char_of (65 + n)
      else if n < 52 then char_of (71 + n)
      else if n < 62 then char_of (n - 4)
      else if n = 62 then CHR ''+''
      else CHR ''/'')"

definition b64_val :: "char \<Rightarrow> nat option" where
  "b64_val c =
     (if is_upper_char c then Some (ord_char c - 65)
      else if is_lower_char c then Some (ord_char c - 71)
      else if is_digit_char c then Some (ord_char c + 4)
      else if c = CHR ''+'' then Some 62
      else if c = CHR ''/'' then Some 63
      else None)"

fun b64encode :: "string \<Rightarrow> string" where
  "b64encode (a # b # c # xs) =
     b64_char (ord_char a div 4) # b64_char (ord_char a mod 4 * 16 + ord_char b div 16) #
     b64_char (ord_char b mod 16 * 4 + ord_char c div 64) # b64_char (ord_char c mod 64) #
     b64encode xs"
| "b64encode [a, b] =
     [b64_char (ord_char a div 4), b64_char (ord_char a mod 4 * 16 + ord_char b div 16),
      b64_char (ord_char b mod 16 * 4), CHR ''='']"
| "b64encode [a] = [b64_char (ord_char a div 4), b64_char (ord_char a mod 4 * 16), CHR ''='', CHR ''='']"
| "b64encode [] = []"

text \<open>
  \<open>binascii.a2b_base64\<close> in its default (non-strict) mode, which \<open>base64.b64decode\<close> calls: a
  scanner with the position in the current quad, the bits left over from the character before and
  the number of padding characters seen. Characters outside the alphabet are skipped, a complete
  padding ends the input, and input that ends inside a quad is a \<open>binascii.Error\<close>, a subclass of
  \<open>ValueError\<close>.
\<close>

fun a2b :: "nat \<Rightarrow> nat \<Rightarrow> nat \<Rightarrow> string \<Rightarrow> string option" where
  "a2b quad left pads [] = (if quad = 0 then Some [] else None)"
| "a2b quad left pads (c # cs) =
     (if c = CHR ''='' then
        (if 2 \<le> quad then
           (if 4 \<le> quad + Suc pads then Some [] else a2b quad left (Suc pads) cs)
         else a2b quad left pads cs)
      else case b64_val c of
        None \<Rightarrow> a2b quad left pads cs
      | Some v \<Rightarrow>
          (if quad = 0 then a2b 1 v 0 cs
           else if quad = 1 then map_option (Cons (char_of (left * 4 + v div 16))) (a2b 2 (v mod 16) 0 cs)
           else if quad = 2 then map_option (Cons (char_of (left * 16 + v div 4))) (a2b 3 (v mod 4) 0 cs)
           else map_option (Cons (char_of (left * 64 + v))) (a2b 0 0 0 cs)))"

definition b64decode :: "string \<Rightarrow> string result" where
  "b64decode s = (case a2b 0 0 0 s of None \<Rightarrow> Inl (ValueError ''binascii.Error'') | Some bs \<Rightarrow> Inr bs)"

subsection \<open>Round trip\<close>

lemma b64_val_char [simp]: "n < 64 \<Longrightarrow> b64_val (b64_char n) = Some n"
  by (auto simp: b64_char_def b64_val_def is_upper_char_def is_lower_char_def is_digit_char_def
      in_range_def of_char_of split: if_splits)

lemma b64_char_not_pad [simp]: "n < 64 \<Longrightarrow> b64_char n \<noteq> CHR ''=''"
proof
  assume "n < 64" "b64_char n = CHR ''=''"
  then have "b64_val CHR ''='' = Some n" by (metis b64_val_char)
  then show False
    by (simp add: b64_val_def is_upper_char_def is_lower_char_def is_digit_char_def in_range_def)
qed

lemma b64_char_distinct: "m < 64 \<Longrightarrow> n < 64 \<Longrightarrow> b64_char m = b64_char n \<longleftrightarrow> m = n"
  by (metis b64_val_char option.inject)

lemma ord_less_256: "ord_char c < 256"
  by (metis of_char_mod_256 mod_less_divisor zero_less_numeral)

lemma a2b_quad0: "v < 64 \<Longrightarrow> a2b 0 l p (b64_char v # cs) = a2b (Suc 0) v 0 cs"
  by simp

lemma a2b_quad1: "v < 64 \<Longrightarrow> a2b (Suc 0) l p (b64_char v # cs) =
    map_option (Cons (char_of (l * 4 + v div 16))) (a2b 2 (v mod 16) 0 cs)"
  by simp

lemma a2b_quad2: "v < 64 \<Longrightarrow> a2b 2 l p (b64_char v # cs) =
    map_option (Cons (char_of (l * 16 + v div 4))) (a2b 3 (v mod 4) 0 cs)"
  by simp

lemma a2b_quad3: "v < 64 \<Longrightarrow> a2b 3 l p (b64_char v # cs) =
    map_option (Cons (char_of (l * 64 + v))) (a2b 0 0 0 cs)"
  by simp

lemmas a2b_quads = a2b_quad0 a2b_quad1 a2b_quad2 a2b_quad3

lemma sextet_bounds:
  fixes a b c :: nat
  assumes "a < 256" "b < 256" "c < 256"
  shows "a div 4 < 64" "a mod 4 * 16 + b div 16 < 64" "b mod 16 * 4 + c div 64 < 64" "c mod 64 < 64"
    "a mod 4 * 16 < 64" "b mod 16 * 4 < 64"
proof -
  have "b div 16 < 16" "c div 64 < 4" "a mod 4 < 4" "b mod 16 < 16" using assms by auto
  then show "a mod 4 * 16 + b div 16 < 64" "b mod 16 * 4 + c div 64 < 64"
    "a mod 4 * 16 < 64" "b mod 16 * 4 < 64" by linarith+
qed (use assms in auto)

lemma div_mod_split:
  fixes x y :: nat
  shows "y < 16 \<Longrightarrow> (x * 16 + y) div 16 = x" "y < 16 \<Longrightarrow> (x * 16 + y) mod 16 = y"
    "y < 4 \<Longrightarrow> (x * 4 + y) div 4 = x" "y < 4 \<Longrightarrow> (x * 4 + y) mod 4 = y"
  by auto

lemma sextet_bits:
  fixes a b c :: nat
  assumes "a < 256" "b < 256" "c < 256"
  shows "a div 4 * 4 + (a mod 4 * 16 + b div 16) div 16 = a"
    "(a mod 4 * 16 + b div 16) mod 16 * 16 + (b mod 16 * 4 + c div 64) div 4 = b"
    "(b mod 16 * 4 + c div 64) mod 4 * 64 + c mod 64 = c"
    "a div 4 * 4 + (a mod 4 * 16) div 16 = a"
    "(a mod 4 * 16 + b div 16) mod 16 * 16 + (b mod 16 * 4) div 4 = b"
proof -
  have "b div 16 < 16" "c div 64 < 4" using assms by auto
  then show "a div 4 * 4 + (a mod 4 * 16 + b div 16) div 16 = a"
    "(a mod 4 * 16 + b div 16) mod 16 * 16 + (b mod 16 * 4 + c div 64) div 4 = b"
    "(b mod 16 * 4 + c div 64) mod 4 * 64 + c mod 64 = c"
    "(a mod 4 * 16 + b div 16) mod 16 * 16 + (b mod 16 * 4) div 4 = b"
    by (simp_all only: div_mod_split div_mult_mod_eq nonzero_mult_div_cancel_right zero_neq_numeral [symmetric])
      simp_all
  show "a div 4 * 4 + (a mod 4 * 16) div 16 = a" by simp
qed

lemma a2b_b64encode: "a2b 0 l p (b64encode s) = Some s"
proof (induction s arbitrary: l p rule: b64encode.induct)
  case (1 a b c xs)
  note bounds = sextet_bounds [OF ord_less_256 [of a] ord_less_256 [of b] ord_less_256 [of c]]
  note bits = sextet_bits [OF ord_less_256 [of a] ord_less_256 [of b] ord_less_256 [of c]]
  show ?case by (simp only: b64encode.simps a2b_quads bounds bits 1) simp
next
  case (2 a b)
  note bounds = sextet_bounds [OF ord_less_256 [of a] ord_less_256 [of b] ord_less_256 [of b]]
  note bits = sextet_bits [OF ord_less_256 [of a] ord_less_256 [of b] ord_less_256 [of b]]
  show ?case by (simp only: b64encode.simps a2b_quads bounds bits) simp
next
  case (3 a)
  note bounds = sextet_bounds [OF ord_less_256 [of a] ord_less_256 [of a] ord_less_256 [of a]]
  note bits = sextet_bits [OF ord_less_256 [of a] ord_less_256 [of a] ord_less_256 [of a]]
  show ?case by (simp only: b64encode.simps a2b_quads bounds bits) simp
qed simp

theorem b64decode_encode [simp]: "b64decode (b64encode s) = Inr s"
  by (simp add: b64decode_def a2b_b64encode)

lemma b64encode_inject [simp]: "b64encode s = b64encode t \<longleftrightarrow> s = t"
  by (metis b64decode_encode sum.inject(2))

subsection \<open>Evaluation over \<open>int\<close>\<close>

definition b64_char_int :: "int \<Rightarrow> char" where
  "b64_char_int n =
     (if n < 26 then char_of (65 + n)
      else if n < 52 then char_of (71 + n)
      else if n < 62 then char_of (n - 4)
      else if n = 62 then CHR ''+''
      else CHR ''/'')"

lemma b64_char_int: "b64_char n = b64_char_int (int n)"
  proof -
  have "char_of (65 + n) = char_of (65 + int n)" "char_of (71 + n) = char_of (71 + int n)"
    "\<not> n < 52 \<Longrightarrow> char_of (n - 4) = char_of (int n - 4)"
    using char_of_nat [of "65 + n", where 'a = int] char_of_nat [of "71 + n", where 'a = int] char_of_nat [of "n - 4", where 'a = int]
    by (simp_all add: of_nat_diff)
  then show ?thesis by (simp add: b64_char_def b64_char_int_def)
qed

lemma b64encode_code [code]:
  "b64encode (a # b # c # xs) =
     (let x = of_char a :: int; y = of_char b :: int; z = of_char c :: int in
      b64_char_int (x div 4) # b64_char_int (x mod 4 * 16 + y div 16) #
      b64_char_int (y mod 16 * 4 + z div 64) # b64_char_int (z mod 64) # b64encode xs)"
  "b64encode [a, b] =
     (let x = of_char a :: int; y = of_char b :: int in
      [b64_char_int (x div 4), b64_char_int (x mod 4 * 16 + y div 16), b64_char_int (y mod 16 * 4), CHR ''=''])"
  "b64encode [a] =
     (let x = of_char a :: int in [b64_char_int (x div 4), b64_char_int (x mod 4 * 16), CHR ''='', CHR ''=''])"
  "b64encode [] = []"
  by (simp_all add: b64_char_int Let_def zdiv_int zmod_int flip: of_nat_of_char [where 'a = int])
end
