(* ===== verification/PyJson.thy ===== *)
theory PyJson
  imports PyStr
begin

datatype json =
    JNull
  | JBool bool
  | JInt int
  | JFloat rat
  | JStr string
  | JArr "json list"
  | JObj "(string \<times> json) list"

subsection \<open>Scanning\<close>

definition is_json_ws :: "char \<Rightarrow> bool" where
  "is_json_ws c \<longleftrightarrow> c = CHR '' '' \<or> c = CHR 0x09 \<or> c = newline \<or> c = CHR 0x0D"

abbreviation skip_ws :: "string \<Rightarrow> string" where
  "skip_ws s \<equiv> dropWhile is_json_ws s"

definition hex_val :: "char \<Rightarrow> nat option" where
  "hex_val c =
     (if is_digit_char c then Some (ord_char c - 48)
      else if in_range CHR ''a'' CHR ''f'' c then Some (ord_char c - 87)
      else if in_range CHR ''A'' CHR ''F'' c then Some (ord_char c - 55)
      else None)"

fun hex4 :: "string \<Rightarrow> (nat \<times> string) option" where
  "hex4 (a # b # c # d # rest) =
     (case (hex_val a, hex_val b, hex_val c, hex_val d) of
        (Some w, Some x, Some y, Some z) \<Rightarrow> Some (w * 4096 + x * 256 + y * 16 + z, rest)
      | _ \<Rightarrow> None)"
| "hex4 _ = None"

definition utf8_encode_char :: "nat \<Rightarrow> string" where
  "utf8_encode_char v =
     (if v < 128 then [char_of v]
      else if v < 2048 then [char_of (192 + v div 64), char_of (128 + v mod 64)]
      else if v < 65536 then
        [char_of (224 + v div 4096), char_of (128 + v div 64 mod 64), char_of (128 + v mod 64)]
      else [char_of (240 + v div 262144), char_of (128 + v div 4096 mod 64),
            char_of (128 + v div 64 mod 64), char_of (128 + v mod 64)])"

text \<open>
  The escape after a backslash: its bytes and the rest of the input. A high surrogate followed by
  an escaped low surrogate is one code point, as in \<open>json.decoder.py_scanstring\<close>.
\<close>

fun json_escape :: "string \<Rightarrow> (string \<times> string) option" where
  "json_escape [] = None"
| "json_escape (c # cs) =
     (if c = CHR 0x22 then Some ([CHR 0x22], cs)
      else if c = CHR 0x5C then Some ([CHR 0x5C], cs)
      else if c = CHR ''/'' then Some (''/'', cs)
      else if c = CHR ''b'' then Some ([CHR 0x08], cs)
      else if c = CHR ''f'' then Some ([CHR 0x0C], cs)
      else if c = CHR ''n'' then Some ([newline], cs)
      else if c = CHR ''r'' then Some ([CHR 0x0D], cs)
      else if c = CHR ''t'' then Some ([CHR 0x09], cs)
      else if c = CHR ''u'' then
        (case hex4 cs of
           None \<Rightarrow> None
         | Some (v, rest) \<Rightarrow>
             (if 55296 \<le> v \<and> v \<le> 56319 \<and> prefix [CHR 0x5C, CHR ''u''] rest then
                (case hex4 (drop 2 rest) of
                   Some (w, rest') \<Rightarrow>
                     (if 56320 \<le> w \<and> w \<le> 57343
                      then Some (utf8_encode_char (65536 + (v - 55296) * 1024 + (w - 56320)), rest')
                      else Some (utf8_encode_char v, rest))
                 | None \<Rightarrow> None)
              else Some (utf8_encode_char v, rest)))
      else None)"

text \<open>The characters of a string literal up to its closing quote; control characters are errors.\<close>

fun json_string :: "nat \<Rightarrow> string \<Rightarrow> (string \<times> string) option" where
  "json_string 0 _ = None"
| "json_string (Suc n) [] = None"
| "json_string (Suc n) (c # cs) =
     (if c = CHR 0x22 then Some ([], cs)
      else if c = CHR 0x5C then
        (case json_escape cs of
           None \<Rightarrow> None
         | Some (bs, rest) \<Rightarrow> map_option (\<lambda>(s, rest'). (bs @ s, rest')) (json_string n rest))
      else if ord_char c < 32 then None
      else map_option (\<lambda>(s, rest). (c # s, rest)) (json_string n cs))"

definition span_digits :: "string \<Rightarrow> string \<times> string" where
  "span_digits s = (takeWhile is_digit_char s, dropWhile is_digit_char s)"

abbreviation digits_val :: "string \<Rightarrow> nat" where
  "digits_val s \<equiv> fold (\<lambda>c a. 10 * a + digit_val c) s 0"

text \<open>\<open>(-?(?:0|[1-9]\d*))(\.\d+)?([eE][-+]?\d+)?\<close>, an int without fraction and exponent.\<close>

definition json_int_part :: "string \<Rightarrow> (string \<times> string) option" where
  "json_int_part s =
     (case s of
        [] \<Rightarrow> None
      | c # cs \<Rightarrow>
          (if c = CHR ''0'' then Some (''0'', cs)
           else if is_digit_char c then Some (span_digits s)
           else None))"

definition json_frac :: "string \<Rightarrow> (string \<times> string) option" where
  "json_frac s =
     (case s of
        c # d # cs \<Rightarrow> if c = CHR ''.'' \<and> is_digit_char d then Some (span_digits (d # cs)) else None
      | _ \<Rightarrow> None)"

definition json_exp :: "string \<Rightarrow> (int \<times> string) option" where
  "json_exp s =
     (case s of
        [] \<Rightarrow> None
      | c # cs \<Rightarrow>
          (if c = CHR ''e'' \<or> c = CHR ''E'' then
             (case cs of
                [] \<Rightarrow> None
              | d # ds \<Rightarrow>
                  (let body = (if d = CHR ''-'' \<or> d = CHR ''+'' then ds else cs);
                       (e, rest) = span_digits body
                   in if e = [] then None
                      else Some (if d = CHR ''-'' then - int (digits_val e) else int (digits_val e), rest)))
           else None))"

definition pow10 :: "int \<Rightarrow> rat" where
  "pow10 e = (if 0 \<le> e then 10 ^ nat e else 1 / 10 ^ nat (- e))"

definition json_number :: "string \<Rightarrow> (json \<times> string) option" where
  "json_number s =
     (let neg = prefix ''-'' s; body = (if neg then tl s else s); sgn = (if neg then - 1 else 1) in
      case json_int_part body of
        None \<Rightarrow> None
      | Some (ip, rest) \<Rightarrow>
          (case (json_frac rest, json_exp (case json_frac rest of Some (f, r) \<Rightarrow> r | None \<Rightarrow> rest)) of
             (None, None) \<Rightarrow> Some (JInt (sgn * int (digits_val ip)), rest)
           | (fr, ex) \<Rightarrow>
               (let (f, r1) = (case fr of Some p \<Rightarrow> p | None \<Rightarrow> ([], rest));
                    (e, r2) = (case ex of Some p \<Rightarrow> p | None \<Rightarrow> (0, r1));
                    m = of_nat (digits_val ip) + of_nat (digits_val f) / 10 ^ length f
                in Some (JFloat (of_int sgn * m * pow10 e), r2))))"

subsection \<open>json.loads\<close>

fun json_value :: "nat \<Rightarrow> string \<Rightarrow> (json \<times> string) option"
  and json_elems :: "nat \<Rightarrow> string \<Rightarrow> (json list \<times> string) option"
  and json_members :: "nat \<Rightarrow> (string \<times> json) list \<Rightarrow> string \<Rightarrow> ((string \<times> json) list \<times> string) option"
where
  "json_value 0 s = None"
| "json_value (Suc n) s =
     (case s of
        [] \<Rightarrow> None
      | c # cs \<Rightarrow>
          (if c = CHR 0x22 then map_option (\<lambda>(x, r). (JStr x, r)) (json_string (Suc (length cs)) cs)
           else if c = CHR ''['' then
             (if prefix '']'' (skip_ws cs) then Some (JArr [], tl (skip_ws cs))
              else map_option (\<lambda>(x, r). (JArr x, r)) (json_elems n (skip_ws cs)))
           else if c = CHR ''{'' then
             (if prefix ''}'' (skip_ws cs) then Some (JObj [], tl (skip_ws cs))
              else map_option (\<lambda>(x, r). (JObj x, r)) (json_members n [] (skip_ws cs)))
           else if prefix ''null'' s then Some (JNull, drop 4 s)
           else if prefix ''true'' s then Some (JBool True, drop 4 s)
           else if prefix ''false'' s then Some (JBool False, drop 5 s)
           else json_number s))"
| "json_elems 0 s = None"
| "json_elems (Suc n) s =
     (case json_value n s of
        None \<Rightarrow> None
      | Some (v, r) \<Rightarrow>
          (case skip_ws r of
             [] \<Rightarrow> None
           | c # cs \<Rightarrow>
               (if c = CHR '']'' then Some ([v], cs)
                else if c = CHR '','' then map_option (\<lambda>(vs, r'). (v # vs, r')) (json_elems n (skip_ws cs))
                else None)))"
| "json_members 0 acc s = None"
| "json_members (Suc n) acc s =
     (case s of
        [] \<Rightarrow> None
      | q # qs \<Rightarrow>
          (if q \<noteq> CHR 0x22 then None
           else case json_string (Suc (length qs)) qs of
             None \<Rightarrow> None
           | Some (k, r) \<Rightarrow>
               (case skip_ws r of
                  [] \<Rightarrow> None
                | c # cs \<Rightarrow>
                    (if c \<noteq> CHR '':'' then None
                     else case json_value n (skip_ws cs) of
                       None \<Rightarrow> None
                     | Some (v, r2) \<Rightarrow>
                         (case skip_ws r2 of
                            [] \<Rightarrow> None
                          | d # ds \<Rightarrow>
                              (if d = CHR ''}'' then Some (dict_set k v acc, ds)
                               else if d = CHR '','' then json_members n (dict_set k v acc) (skip_ws ds)
                               else None))))))"

definition json_loads :: "string \<Rightarrow> json result" where
  "json_loads s =
     (case json_value (Suc (length s)) (skip_ws s) of
        Some (v, r) \<Rightarrow> if skip_ws r = [] then Inr v else Inl (ValueError ''JSONDecodeError'')
      | None \<Rightarrow> Inl (ValueError ''JSONDecodeError''))"

subsection \<open>json.dumps\<close>

definition hex_char :: "nat \<Rightarrow> char" where
  "hex_char n = (if n < 10 then char_of (48 + n) else char_of (87 + n))"

definition json_u_escape :: "nat \<Rightarrow> string" where
  "json_u_escape v =
     [CHR 0x5C, CHR ''u'', hex_char (v div 4096 mod 16), hex_char (v div 256 mod 16), hex_char (v div 16 mod 16),
      hex_char (v mod 16)]"

definition json_esc_code :: "nat \<Rightarrow> string" where
  "json_esc_code v =
     (if v = 34 then [CHR 0x5C, CHR 0x22]
      else if v = 92 then [CHR 0x5C, CHR 0x5C]
      else if v = 10 then [CHR 0x5C, CHR ''n'']
      else if v = 13 then [CHR 0x5C, CHR ''r'']
      else if v = 9 then [CHR 0x5C, CHR ''t'']
      else if v = 12 then [CHR 0x5C, CHR ''f'']
      else if v = 8 then [CHR 0x5C, CHR ''b'']
      else if 32 \<le> v \<and> v < 127 then [char_of v]
      else if v < 65536 then json_u_escape v
      else json_u_escape (55296 + (v - 65536) div 1024) @ json_u_escape (56320 + (v - 65536) mod 1024))"

definition json_quote :: "string \<Rightarrow> string" where
  "json_quote s = [CHR 0x22] @ concat (map json_esc_code (case utf8_decode s of Some vs \<Rightarrow> vs | None \<Rightarrow> [])) @ [CHR 0x22]"

fun json_dumps :: "(rat \<Rightarrow> string) \<Rightarrow> json \<Rightarrow> string" where
  "json_dumps fl JNull = ''null''"
| "json_dumps fl (JBool b) = (if b then ''true'' else ''false'')"
| "json_dumps fl (JInt i) = str_of_int i"
| "json_dumps fl (JFloat q) = fl q"
| "json_dumps fl (JStr s) = json_quote s"
| "json_dumps fl (JArr xs) = ''['' @ py_join '', '' (map (json_dumps fl) xs) @ '']''"
| "json_dumps fl (JObj kvs) =
     ''{'' @ py_join '', '' (map (\<lambda>(k, v). json_quote k @ '': '' @ json_dumps fl v) kvs) @ ''}''"

end
