(* ===== verification/SqsUtils.thy ===== *)
theory SqsUtils
  imports Arns PyUrl PyBase64 PyJson "HOL-Library.List_Lexorder" "HOL-Library.Char_ord"
begin

text \<open>
  \<open>services/sqs/utils.py\<close>, \<open>exceptions.py\<close> and the data the API passes around: messages, message
  attributes, receipt handles, move-task handles and queue URLs.
\<close>

subsection \<open>Exceptions\<close>

abbreviation InvalidParameterValueException :: "string \<Rightarrow> exn" where
  "InvalidParameterValueException msg \<equiv> ServiceException ''InvalidParameterValueException'' msg True"

abbreviation InvalidAttributeValue :: "string \<Rightarrow> exn" where
  "InvalidAttributeValue msg \<equiv> ServiceException ''InvalidAttributeValue'' msg True"

abbreviation MissingRequiredParameterException :: "string \<Rightarrow> exn" where
  "MissingRequiredParameterException msg \<equiv> ServiceException ''MissingRequiredParameterException'' msg True"

abbreviation ReceiptHandleIsInvalid :: "string \<Rightarrow> exn" where
  "ReceiptHandleIsInvalid msg \<equiv> ServiceException ''ReceiptHandleIsInvalid'' msg False"

abbreviation InvalidAttributeName :: "string \<Rightarrow> exn" where
  "InvalidAttributeName msg \<equiv> ServiceException ''InvalidAttributeName'' msg False"

subsection \<open>Messages of the API\<close>

record attr_value =
  DataType :: "string option"
  StringValue :: "string option"
  BinaryValue :: "string option"

type_synonym attr_map = "(string, attr_value) dict"

record api_message =
  MessageId :: string
  MD5OfBody :: string
  Body :: string
  Attributes :: "(string, string) dict option"
  MD5OfMessageAttributes :: "string option"
  MessageAttributes :: "attr_map option"
  ReceiptHandle :: "string option"

text \<open>Truth value of an optional Python string: \<open>None\<close> and the empty string are false.\<close>

definition truthy :: "'a list option \<Rightarrow> bool" where
  "truthy x = (case x of None \<Rightarrow> False | Some s \<Rightarrow> s \<noteq> [])"

subsection \<open>Queue URLs\<close>

datatype endpoint_strategy = Standard | Domain | PathStrategy | LegacyStrategy | Dynamic

definition guess_endpoint_strategy_and_host :: "string \<Rightarrow> endpoint_strategy \<times> string" where
  "guess_endpoint_strategy_and_host host =
     (let components = py_split CHR ''.'' host in
      if py_startswith host ''sqs.'' then (Standard, py_join ''.'' (drop 2 components))
      else if py_startswith host ''queue.'' then (Domain, py_join ''.'' (drop 1 components))
      else if 2 < length components \<and> components ! 1 = ''queue'' then (Domain, py_join ''.'' (drop 2 components))
      else (PathStrategy, host))"

definition parse_queue_url :: "string \<Rightarrow> (string \<times> string option \<times> string) result" where
  "parse_queue_url queue_url =
     (let url = urlparse (py_rstrip CHR ''/'' queue_url);
          path_parts = py_split CHR ''/'' (py_lstrip CHR ''/'' (url_path url));
          domain_parts = py_split CHR ''.'' (url_netloc url);
          err = Inl (ValueError (''Not a valid queue URL: '' @ queue_url));
          n = length path_parts
      in if n \<noteq> 2 \<and> n \<noteq> 4 then err
         else let account_id = path_parts ! (n - 2); queue_name = path_parts ! (n - 1) in
           if n = 4 then
             (if path_parts ! 0 \<noteq> ''queue'' then err
              else Inr (account_id, Some (path_parts ! 1), queue_name))
           else if py_startswith (url_netloc url) ''sqs.'' then
             Inr (account_id, Some (domain_parts ! 1), queue_name)
           else if py_contains (url_netloc url) ''.queue.'' then
             (if domain_parts ! 1 \<noteq> ''queue'' then err
              else Inr (account_id, Some (domain_parts ! 0), queue_name))
           else if py_startswith (url_netloc url) ''queue'' then
             Inr (account_id, Some ''us-east-1'', queue_name)
           else Inr (account_id, None, queue_name))"

subsection \<open>Receipt handles\<close>

record receipt_handle_information =
  rh_identifier :: string
  rh_queue_arn :: string
  rh_message_id :: string
  rh_last_received :: string

definition receipt_handle_error :: "string \<Rightarrow> exn" where
  "receipt_handle_error receipt_handle =
     ReceiptHandleIsInvalid (''The input receipt handle '' @ [CHR 0x22] @ receipt_handle @ [CHR 0x22] @
       '' is not a valid receipt handle.'')"

text \<open>
  \<open>b64decode\<close> of a \<open>str\<close> with non-ASCII characters, the UTF-8 decoding and the ARN parser all raise
  subclasses of \<open>ValueError\<close>, which the handler turns into \<open>ReceiptHandleIsInvalid\<close>.
\<close>

definition extract_receipt_handle_info :: "arn_parser \<Rightarrow> string \<Rightarrow> receipt_handle_information result" where
  "extract_receipt_handle_info parse_arn receipt_handle =
     (let err = Inl (receipt_handle_error receipt_handle) in
      if \<not> is_ascii receipt_handle then err
      else case b64decode receipt_handle of
        Inl _ \<Rightarrow> err
      | Inr handle \<Rightarrow>
          (if \<not> utf8_valid handle then err
           else case py_split CHR '' '' handle of
             [ident, arn, mid, recv] \<Rightarrow>
               (case parse_arn arn of
                  Inl _ \<Rightarrow> err
                | Inr _ \<Rightarrow> Inr \<lparr>rh_identifier = ident, rh_queue_arn = arn, rh_message_id = mid, rh_last_received = recv\<rparr>)
           | _ \<Rightarrow> err))"

text \<open>
  The handle holds a fresh UUID, the queue ARN, the message id and the printed time of reception;
  the first and the last come from outside (\<open>long_uid()\<close>, \<open>str(float)\<close>).
\<close>

definition encode_receipt_handle :: "string \<Rightarrow> string \<Rightarrow> string \<Rightarrow> string \<Rightarrow> string" where
  "encode_receipt_handle uid queue_arn message_id last_received =
     b64encode (uid @ '' '' @ queue_arn @ '' '' @ message_id @ '' '' @ last_received)"

subsection \<open>Move task handles\<close>

definition dq :: string where
  "dq = [CHR 0x22]"

definition encode_move_task_handle :: "string \<Rightarrow> string \<Rightarrow> string" where
  "encode_move_task_handle task_id source_arn =
     b64encode (''{'' @ dq @ ''taskId'' @ dq @ '':'' @ dq @ task_id @ dq @ '','' @
       dq @ ''sourceArn'' @ dq @ '':'' @ dq @ source_arn @ dq @ ''}'')"

text \<open>\<open>utils/strings.py\<close>: base64 with the padding completed and the URL-safe alphabet accepted.\<close>

definition base64_decode :: "string \<Rightarrow> string result" where
  "base64_decode data =
     (let m = length data mod 4;
          padded = (if m \<noteq> 0 then data @ replicate (4 - m) CHR ''='' else data)
      in if CHR ''-'' \<in> set padded \<or> CHR ''_'' \<in> set padded
         then b64decode (map (\<lambda>c. if c = CHR ''-'' then CHR ''+'' else if c = CHR ''_'' then CHR ''/'' else c) padded)
         else b64decode padded)"

text \<open>
  \<open>key in doc\<close> and \<open>doc[key]\<close> for a decoded JSON document: a dict has keys, a list has elements, a
  string has substrings, and anything else is not a container.
\<close>

fun json_in :: "string \<Rightarrow> json \<Rightarrow> bool result" where
  "json_in key (JObj kvs) = Inr (dict_has kvs key)"
| "json_in key (JArr xs) = Inr (JStr key \<in> set xs)"
| "json_in key (JStr s) = Inr (py_contains s key)"
| "json_in key _ = Inl (TypeError ''argument is not iterable'')"

fun json_item :: "json \<Rightarrow> string \<Rightarrow> json result" where
  "json_item (JObj kvs) key = (case dict_get kvs key of Some v \<Rightarrow> Inr v | None \<Rightarrow> Inl (KeyError key))"
| "json_item _ key = Inl (TypeError ''indices must be integers'')"

definition decode_move_task_handle :: "string \<Rightarrow> (json \<times> json) result" where
  "decode_move_task_handle handle =
     bind_result (base64_decode handle) (\<lambda>bytes.
     if \<not> utf8_valid bytes then Inl (ValueError ''UnicodeDecodeError'')
     else bind_result (json_loads bytes) (\<lambda>doc.
     bind_result (json_in ''taskId'' doc) (\<lambda>has_task.
     if \<not> has_task then Inl (ValueError ''taskId not found in handle'')
     else bind_result (json_in ''sourceArn'' doc) (\<lambda>has_arn.
     if \<not> has_arn then Inl (ValueError ''sourceArn not found in handle'')
     else bind_result (json_item doc ''taskId'') (\<lambda>t.
     bind_result (json_item doc ''sourceArn'') (\<lambda>a. Inr (t, a)))))))"

subsection \<open>Attribute filters\<close>

definition message_filter_attributes :: "string list option \<Rightarrow> api_message \<Rightarrow> api_message" where
  "message_filter_attributes names message =
     (case Attributes message of
        None \<Rightarrow> message
      | Some attrs \<Rightarrow>
          (if \<not> truthy names then message\<lparr>Attributes := None\<rparr>
           else if ''All'' \<in> set (the names) then message
           else message\<lparr>Attributes := Some (filter (\<lambda>(k, v). k \<in> set (the names)) attrs)\<rparr>))"

text \<open>
  The names \<open>keys\<close> match exactly; of the prefix filters only the first one is ever consulted, since
  the source's \<open>break\<close> ends the loop over the prefs after its first iteration.
\<close>

definition attribute_matched :: "string list \<Rightarrow> string list \<Rightarrow> string \<Rightarrow> bool" where
  "attribute_matched keys prefs k =
     (if k \<in> set keys then True
      else case prefs of [] \<Rightarrow> False | p # _ \<Rightarrow> py_startswith k p)"

definition message_filter_message_attributes :: "string list option \<Rightarrow> api_message \<Rightarrow> api_message" where
  "message_filter_message_attributes names message =
     (if \<not> truthy (MessageAttributes message) then message
      else if \<not> truthy names then message\<lparr>MessageAttributes := None\<rparr>
      else
        let ns = the names; attributes = the (MessageAttributes message) in
        if ''All'' \<in> set ns \<or> ''.*'' \<in> set ns \<or> ''*'' \<in> set ns then message
        else
          let keys = filter (\<lambda>name. \<not> py_contains name ''.*'') ns;
              prefs = map (py_split_head ''.*'') (filter (\<lambda>name. py_contains name ''.*'') ns);
              matched = filter (attribute_matched keys prefs) (map fst attributes)
          in if matched \<noteq> []
             then message\<lparr>MessageAttributes := Some (filter (\<lambda>(k, v). k \<in> set matched) attributes)\<rparr>
             else message\<lparr>MessageAttributes := None\<rparr>)"

subsection \<open>The MD5 of the message attributes\<close>

text \<open>\<open>struct.pack("!I", n)\<close>: four bytes, most significant first; the caller's lengths fit in 32 bits.\<close>

definition pack_u32 :: "nat \<Rightarrow> string" where
  "pack_u32 n = [char_of (n div 16777216 mod 256), char_of (n div 65536 mod 256), char_of (n div 256 mod 256),
     char_of (n mod 256)]"

definition length_and_value :: "string \<Rightarrow> string" where
  "length_and_value value = pack_u32 (length value) @ value"

definition attribute_bytes :: "string \<Rightarrow> attr_value \<Rightarrow> string result" where
  "attribute_bytes attr_name attr =
     (case DataType attr of
        None \<Rightarrow> Inl (KeyError ''DataType'')
      | Some dt \<Rightarrow>
          Inr (length_and_value attr_name @ length_and_value dt @
               (if truthy (StringValue attr) then [char_of (1::nat)] @ length_and_value (the (StringValue attr))
                else if truthy (BinaryValue attr) then [char_of (2::nat)] @ length_and_value (the (BinaryValue attr))
                else [])))"

fun attributes_bytes :: "attr_map \<Rightarrow> string list \<Rightarrow> string result" where
  "attributes_bytes attrs [] = Inr []"
| "attributes_bytes attrs (k # ks) =
     (case dict_get attrs k of
        None \<Rightarrow> Inl (KeyError k)
      | Some attr \<Rightarrow>
          bind_result (attribute_bytes k attr) (\<lambda>bs.
          bind_result (attributes_bytes attrs ks) (\<lambda>rest. Inr (bs @ rest))))"

definition create_message_attribute_hash :: "(string \<Rightarrow> string) \<Rightarrow> attr_map option \<Rightarrow> string option result" where
  "create_message_attribute_hash md5 message_attributes =
     (case message_attributes of
        None \<Rightarrow> Inr None
      | Some attrs \<Rightarrow>
          bind_result (attributes_bytes attrs (sort (map fst attrs))) (\<lambda>bs. Inr (Some (md5 bs))))"


subsection \<open>Properties\<close>

lemma b64_char_ascii: "n < 64 \<Longrightarrow> ord_char (b64_char n) < 128"
  by (auto simp: b64_char_def of_char_of)

lemma is_ascii_append [simp]: "is_ascii (s @ t) \<longleftrightarrow> is_ascii s \<and> is_ascii t"
  by (simp add: is_ascii_def)

lemma is_ascii_Cons [simp]: "is_ascii (c # t) \<longleftrightarrow> ord_char c < 128 \<and> is_ascii t"
  by (simp add: is_ascii_def)

lemma is_ascii_Nil [simp]: "is_ascii []"
  by (simp add: is_ascii_def)

lemma is_ascii_b64encode [simp]: "is_ascii (b64encode s)"
proof (induction s rule: b64encode.induct)
  case (1 a b c xs)
  note bounds = sextet_bounds [OF ord_less_256 [of a] ord_less_256 [of b] ord_less_256 [of c]]
  show ?case by (simp only: b64encode.simps is_ascii_Cons b64_char_ascii bounds 1)
next
  case (2 a b)
  note bounds = sextet_bounds [OF ord_less_256 [of a] ord_less_256 [of b] ord_less_256 [of b]]
  show ?case by (simp only: b64encode.simps is_ascii_Cons is_ascii_Nil b64_char_ascii bounds) simp
next
  case (3 a)
  note bounds = sextet_bounds [OF ord_less_256 [of a] ord_less_256 [of a] ord_less_256 [of a]]
  show ?case by (simp only: b64encode.simps is_ascii_Cons is_ascii_Nil b64_char_ascii bounds) simp
qed simp

definition handle_word :: "string \<Rightarrow> bool" where
  "handle_word s \<longleftrightarrow> is_ascii s \<and> CHR '' '' \<notin> set s"

lemma receipt_handle_roundtrip:
  assumes "handle_word uid" "handle_word arn" "handle_word mid" "handle_word recv" "parse_arn arn = Inr d"
  shows "extract_receipt_handle_info parse_arn (encode_receipt_handle uid arn mid recv) =
    Inr \<lparr>rh_identifier = uid, rh_queue_arn = arn, rh_message_id = mid, rh_last_received = recv\<rparr>"
proof -
  let ?h = "uid @ '' '' @ arn @ '' '' @ mid @ '' '' @ recv"
  have dec: "b64decode (encode_receipt_handle uid arn mid recv) = Inr ?h"
    by (simp only: encode_receipt_handle_def b64decode_encode)
  have "is_ascii ?h" using assms by (simp add: handle_word_def)
  then have v: "utf8_valid ?h" by (rule utf8_valid_ascii)
  have sp: "py_split CHR '' '' ?h = [uid, arn, mid, recv]"
    using assms(1-4) unfolding handle_word_def by (simp add: py_split_append py_split_no_sep)
  have a: "is_ascii (encode_receipt_handle uid arn mid recv)"
    by (simp only: encode_receipt_handle_def is_ascii_b64encode)
  show ?thesis
    unfolding extract_receipt_handle_info_def Let_def dec using a v sp assms(5)
    by (simp only: if_False not_not simp_thms sum.case list.case split: if_splits)
qed

lemma encode_receipt_handle_inject:
  assumes "CHR '' '' \<notin> set uid" "CHR '' '' \<notin> set uid'"
    "encode_receipt_handle uid arn mid recv = encode_receipt_handle uid' arn' mid' recv'"
  shows "uid = uid'"
proof -
  have "py_split CHR '' '' (uid @ '' '' @ arn @ '' '' @ mid @ '' '' @ recv) =
      py_split CHR '' '' (uid' @ '' '' @ arn' @ '' '' @ mid' @ '' '' @ recv')"
    using assms(3) by (simp add: encode_receipt_handle_def)
  then show ?thesis using assms(1,2) by (simp add: py_split_append)
qed

text \<open>Queue URLs of each endpoint strategy.\<close>

definition url_word :: "string \<Rightarrow> bool" where
  "url_word s \<longleftrightarrow> s \<noteq> [] \<and> url_plain s"

lemma url_path_plain_append [simp]: "url_path_plain (s @ t) \<longleftrightarrow> url_path_plain s \<and> url_path_plain t"
  by (simp add: url_path_plain_def)

lemma url_path_plain_word: "url_word w \<Longrightarrow> url_path_plain w"
  by (auto simp: url_path_plain_def url_word_def url_plain_def list_all_iff)

lemma url_path_plain_slash: "url_path_plain ''/''" "url_path_plain []"
  by (simp_all add: url_path_plain_def)

lemma url_word_parts: "\<forall>w \<in> set ws. url_word w \<Longrightarrow> url_path_plain (py_join ''/'' ws)"
proof (induction ws rule: induct_list012)
  case (3 v w ws)
  then have "url_path_plain (v @ ''/'' @ py_join ''/'' (w # ws))"
    by (simp only: url_path_plain_append) (simp add: url_path_plain_word url_path_plain_slash)
  then show ?case by (simp only: py_join.simps)
qed (simp_all add: url_path_plain_word url_path_plain_slash)

lemma url_word_ends: "url_word w \<Longrightarrow> w \<noteq> [] \<and> hd w \<noteq> CHR ''/'' \<and> last w \<noteq> CHR ''/''"
  by (cases w) (auto simp: url_word_def url_plain_def list_all_iff)

lemma url_word_join:
  assumes "ws \<noteq> []" "\<forall>w \<in> set ws. url_word w"
  shows "py_join ''/'' ws \<noteq> [] \<and> hd (py_join ''/'' ws) \<noteq> CHR ''/'' \<and> last (py_join ''/'' ws) \<noteq> CHR ''/''"
  using assms
proof (induction ws rule: induct_list012)
  case (3 v w ws)
  then have "url_word v" "py_join ''/'' (w # ws) \<noteq> []" "last (py_join ''/'' (w # ws)) \<noteq> CHR ''/''" by auto
  then show ?case using url_word_ends [of v] by (simp add: hd_append last_append)
qed (auto dest: url_word_ends)

lemma url_word_no_slash: "url_word w \<Longrightarrow> CHR ''/'' \<notin> set w"
  by (auto simp: url_word_def url_plain_def list_all_iff)

lemma parse_queue_url_parts:
  assumes "scheme \<noteq> []" "list_all is_lower_char scheme" "url_plain host"
    and ws: "ws \<noteq> []" "\<forall>w \<in> set ws. url_word w"
  shows "urlparse (py_rstrip CHR ''/'' (scheme @ ''://'' @ host @ ''/'' @ py_join ''/'' ws)) =
      \<lparr>url_scheme = scheme, url_netloc = host, url_path = ''/'' @ py_join ''/'' ws\<rparr>"
    and "py_split CHR ''/'' (py_lstrip CHR ''/'' (''/'' @ py_join ''/'' ws)) = ws"
proof -
  note j = url_word_join [OF ws]
  have "py_rstrip CHR ''/'' (scheme @ ''://'' @ host @ ''/'' @ py_join ''/'' ws) =
      scheme @ ''://'' @ host @ ''/'' @ py_join ''/'' ws"
    using j by (intro py_rstrip_id) auto
  then show "urlparse (py_rstrip CHR ''/'' (scheme @ ''://'' @ host @ ''/'' @ py_join ''/'' ws)) =
      \<lparr>url_scheme = scheme, url_netloc = host, url_path = ''/'' @ py_join ''/'' ws\<rparr>"
    using urlparse_plain [OF assms(1-3) url_word_parts [OF ws(2)]] by simp
  have "py_lstrip CHR ''/'' (''/'' @ py_join ''/'' ws) = py_join ''/'' ws"
    using j py_lstrip_id [of "py_join ''/'' ws" "CHR ''/''"] by (simp add: py_lstrip_def)
  then show "py_split CHR ''/'' (py_lstrip CHR ''/'' (''/'' @ py_join ''/'' ws)) = ws"
    using py_split_join [of ws "CHR ''/''"] ws url_word_no_slash by simp
qed

end
