(* ===== verification/Heapq.thy ===== *)
theory Heapq
  imports Main "HOL-Library.Multiset"
begin

text \<open>
  The binary heap of the Python standard library (\<open>heapq\<close>), which the queues keep their messages in,
  with the correctness of its operations and the priority-queue contract the queues rely on. The order
  is given by a key, as \<open>SqsMessage.__lt__\<close> compares messages by priority.
\<close>

definition heap_parent :: "nat \<Rightarrow> nat" where
  "heap_parent i = (i - 1) div 2"

function heapq_siftdown :: "('a \<Rightarrow> 'k::linorder) \<Rightarrow> 'a \<Rightarrow> nat \<Rightarrow> nat \<Rightarrow> 'a list \<Rightarrow> 'a list" where
  "heapq_siftdown key newitem startpos pos heap =
     (if startpos < pos then
        (if key newitem < key (heap ! heap_parent pos)
         then heapq_siftdown key newitem startpos (heap_parent pos)
                (heap[pos := heap ! heap_parent pos])
         else heap[pos := newitem])
      else heap[pos := newitem])"
  by pat_completeness auto
termination
  by (relation "measure (\<lambda>(key, newitem, startpos, pos, heap). pos)") (auto simp: heap_parent_def)

declare heapq_siftdown.simps [simp del]

definition heapq_smaller_child :: "('a \<Rightarrow> 'k::linorder) \<Rightarrow> 'a list \<Rightarrow> nat \<Rightarrow> nat" where
  "heapq_smaller_child key heap pos =
     (let childpos = 2 * pos + 1; rightpos = childpos + 1
      in if rightpos < length heap \<and> \<not> key (heap ! childpos) < key (heap ! rightpos)
         then rightpos else childpos)"

function heapq_bubble :: "('a \<Rightarrow> 'k::linorder) \<Rightarrow> nat \<Rightarrow> 'a list \<Rightarrow> 'a list \<times> nat" where
  "heapq_bubble key pos heap =
     (if 2 * pos + 1 < length heap
      then heapq_bubble key (heapq_smaller_child key heap pos)
             (heap[pos := heap ! heapq_smaller_child key heap pos])
      else (heap, pos))"
  by pat_completeness auto
termination
  by (relation "measure (\<lambda>(key, pos, heap). length heap - pos)")
    (auto simp: heapq_smaller_child_def Let_def)

declare heapq_bubble.simps [simp del]

definition heapq_siftup :: "('a \<Rightarrow> 'k::linorder) \<Rightarrow> 'a list \<Rightarrow> nat \<Rightarrow> 'a list" where
  "heapq_siftup key heap pos =
     (case heapq_bubble key pos heap of
        (heap', pos') \<Rightarrow> heapq_siftdown key (heap ! pos) pos pos' (heap'[pos' := heap ! pos]))"

definition heappush :: "('a \<Rightarrow> 'k::linorder) \<Rightarrow> 'a list \<Rightarrow> 'a \<Rightarrow> 'a list" where
  "heappush key heap item = heapq_siftdown key item 0 (length heap) (heap @ [item])"

definition heappop :: "('a \<Rightarrow> 'k::linorder) \<Rightarrow> 'a list \<Rightarrow> ('a \<times> 'a list) option" where
  "heappop key heap =
     (if heap = [] then None
      else if butlast heap = [] then Some (last heap, [])
      else Some (hd heap, heapq_siftup key ((butlast heap)[0 := last heap]) 0))"

definition heapify :: "('a \<Rightarrow> 'k::linorder) \<Rightarrow> 'a list \<Rightarrow> 'a list" where
  "heapify key xs = fold (\<lambda>i h. heapq_siftup key h i) (rev [0..<length xs div 2]) xs"

definition heap_from :: "('a \<Rightarrow> 'k::linorder) \<Rightarrow> nat \<Rightarrow> 'a list \<Rightarrow> bool" where
  "heap_from key s h \<longleftrightarrow>
     (\<forall>i < length h. 0 < i \<longrightarrow> s \<le> heap_parent i \<longrightarrow> key (h ! heap_parent i) \<le> key (h ! i))"

abbreviation is_heap :: "('a \<Rightarrow> 'k::linorder) \<Rightarrow> 'a list \<Rightarrow> bool" where
  "is_heap key h \<equiv> heap_from key 0 h"

definition hole_heap :: "('a \<Rightarrow> 'k::linorder) \<Rightarrow> nat \<Rightarrow> nat \<Rightarrow> 'a list \<Rightarrow> bool" where
  "hole_heap key s p h \<longleftrightarrow>
     (\<forall>i < length h. 0 < i \<longrightarrow> s \<le> heap_parent i \<longrightarrow> i \<noteq> p \<longrightarrow> heap_parent i \<noteq> p \<longrightarrow>
        key (h ! heap_parent i) \<le> key (h ! i)) \<and>
     (\<forall>i < length h. 0 < i \<longrightarrow> heap_parent i = p \<longrightarrow> s < p \<longrightarrow> key (h ! heap_parent p) \<le> key (h ! i))"

inductive descendant :: "nat \<Rightarrow> nat \<Rightarrow> bool" where
  desc_refl: "descendant s s"
| desc_left: "descendant s p \<Longrightarrow> descendant s (2 * p + 1)"
| desc_right: "descendant s p \<Longrightarrow> descendant s (2 * p + 2)"

lemma heap_parent_left [simp]: "heap_parent (2 * p + 1) = p" "heap_parent (Suc (2 * p)) = p"
  by (auto simp: heap_parent_def)

lemma heap_parent_right [simp]: "heap_parent (2 * p + 2) = p" "heap_parent (Suc (Suc (2 * p))) = p"
  by (auto simp: heap_parent_def)

lemma heap_parent_less: "0 < i \<Longrightarrow> heap_parent i < i"
  by (auto simp: heap_parent_def)

lemma heap_parent_child: "0 < i \<Longrightarrow> i = 2 * heap_parent i + 1 \<or> i = 2 * heap_parent i + 2"
  by (auto simp: heap_parent_def)

lemma descendant_ge: "descendant s p \<Longrightarrow> s \<le> p"
  by (induction rule: descendant.induct) auto

lemma descendant_parent: "descendant s p \<Longrightarrow> s < p \<Longrightarrow> descendant s (heap_parent p)"
  by (cases rule: descendant.cases) auto

lemma descendant_zero: "descendant 0 p"
proof (induction p rule: less_induct)
  case (less p)
  show ?case
  proof (cases "p = 0")
    case False
    then have "descendant 0 (heap_parent p)" by (simp add: less heap_parent_less)
    then show ?thesis using heap_parent_child [of p] False desc_left desc_right by fastforce
  qed (simp add: desc_refl)
qed

lemma length_siftdown [simp]: "length (heapq_siftdown key x s p h) = length h"
  by (induction key x s p h rule: heapq_siftdown.induct) (subst heapq_siftdown.simps, simp)

lemma mset_siftdown:
  assumes "p < length h"
  shows "mset (heapq_siftdown key x s p h) = mset (h[p := x])"
  using assms
proof (induction key x s p h rule: heapq_siftdown.induct)
  case (1 key x s p h)
  let ?q = "heap_parent p"
  show ?case
  proof (cases "s < p \<and> key x < key (h ! ?q)")
    case True
    with heap_parent_less [of p] have q: "?q < p" by simp
    with True 1 have "mset (heapq_siftdown key x s p h) = mset (h[p := h ! ?q, ?q := x])"
      by (simp add: heapq_siftdown.simps [of key x s p])
    also have "\<dots> = mset (h[p := x])"
      using mset_swap [of ?q "h[p := x]" p] q 1(2) by simp
    finally show ?thesis .
  next
    case False
    then show ?thesis by (subst heapq_siftdown.simps) auto
  qed
qed

lemma heap_from_siftdown:
  assumes "p < length h" "descendant s p" "hole_heap key s p h"
    and "\<And>i. i < length h \<Longrightarrow> 0 < i \<Longrightarrow> heap_parent i = p \<Longrightarrow> key x \<le> key (h ! i)"
  shows "heap_from key s (heapq_siftdown key x s p h)"
  using assms
proof (induction key x s p h rule: heapq_siftdown.induct)
  case (1 key x s p h)
  let ?q = "heap_parent p"
  note hole = 1(4)[unfolded hole_heap_def]
  have sp: "s \<le> p" using 1(3) by (rule descendant_ge)
  show ?case
  proof (cases "s < p \<and> key x < key (h ! ?q)")
    case True
    with heap_parent_less [of p] have q: "?q < p" by simp
    have dq: "descendant s ?q" using 1(3) True descendant_parent by blast
    have sq: "s \<le> ?q" using dq by (rule descendant_ge)
    let ?h = "h[p := h ! ?q]"
    have pp: "s < ?q \<Longrightarrow> key (h ! heap_parent ?q) \<le> key (h ! ?q)"
      using hole q 1(2) heap_parent_less [of ?q] descendant_ge [OF descendant_parent [OF dq]]
      by (metis bot_nat_0.not_eq_extremum less_nat_zero_code not_less_iff_gr_or_eq order.strict_trans)
    have hole': "hole_heap key s ?q ?h"
      unfolding hole_heap_def
    proof (intro conjI allI impI)
      fix i assume i: "i < length ?h" "0 < i" "s \<le> heap_parent i" "i \<noteq> ?q" "heap_parent i \<noteq> ?q"
      then show "key (?h ! heap_parent i) \<le> key (?h ! i)"
        using hole True heap_parent_less [of i] by (cases "heap_parent i = p"; cases "i = p") auto
    next
      fix i assume i: "i < length ?h" "0 < i" "heap_parent i = ?q" "s < ?q"
      show "key (?h ! heap_parent ?q) \<le> key (?h ! i)"
      proof (cases "i = p")
        case True
        then show ?thesis using pp i q heap_parent_less [of ?q] by (auto simp: nth_list_update)
      next
        case False
        then have "key (h ! ?q) \<le> key (h ! i)" using hole i q sq by auto
        then show ?thesis using pp i q False heap_parent_less [of ?q] by (auto simp: nth_list_update)
      qed
    qed
    have kids: "key x \<le> key (?h ! i)" if "i < length ?h" "0 < i" "heap_parent i = ?q" for i
    proof (cases "i = p")
      case True
      then show ?thesis using \<open>s < p \<and> _\<close> that by (simp add: less_imp_le)
    next
      case False
      then have "key (h ! ?q) \<le> key (h ! i)" using hole that q sq by auto
      then show ?thesis using \<open>s < p \<and> _\<close> False by auto
    qed
    have "heap_from key s (heapq_siftdown key x s ?q ?h)"
      using 1(1) True q 1(2) dq hole' kids by auto
    then show ?thesis using True by (simp add: heapq_siftdown.simps [of key x s p])
  next
    case False
    have edge: "s < p \<Longrightarrow> key (h ! ?q) \<le> key x" using False by auto
    have "heap_from key s (h[p := x])"
      unfolding heap_from_def
    proof (intro allI impI)
      fix i assume i: "i < length (h[p := x])" "0 < i" "s \<le> heap_parent i"
      show "key (h[p := x] ! heap_parent i) \<le> key (h[p := x] ! i)"
      proof (cases "i = p")
        case True
        with i heap_parent_less [of p] edge show ?thesis by auto
      next
        case False
        with i hole 1(5)[of i] show ?thesis
          by (cases "heap_parent i = p") (auto simp: nth_list_update 1(2))
      qed
    qed
    then show ?thesis using False by (subst heapq_siftdown.simps) auto
  qed
qed


lemma smaller_child_less: "2 * p + 1 < length h \<Longrightarrow> heapq_smaller_child key h p < length h"
  by (auto simp: heapq_smaller_child_def Let_def)

lemma smaller_child_cases:
  "heapq_smaller_child key h p = 2 * p + 1 \<or> heapq_smaller_child key h p = 2 * p + 2"
  by (auto simp: heapq_smaller_child_def Let_def)

lemma smaller_child_parent [simp]: "heap_parent (heapq_smaller_child key h p) = p"
  using smaller_child_cases [of key h p] by auto

lemma smaller_child_min:
  assumes "i < length h" "0 < i" "heap_parent i = p"
  shows "key (h ! heapq_smaller_child key h p) \<le> key (h ! i)"
  using heap_parent_child [of i] assms by (auto simp: heapq_smaller_child_def Let_def)

lemma smaller_child_descendant: "descendant s p \<Longrightarrow> descendant s (heapq_smaller_child key h p)"
  using smaller_child_cases [of key h p] by (metis desc_left desc_right)

lemma hole_heap_bubble_step:
  fixes key h p
  defines "c \<equiv> heapq_smaller_child key h p"
  assumes "2 * p + 1 < length h" "descendant s p" "hole_heap key s p h"
  shows "hole_heap key s c (h[p := h ! c])"
proof -
  note hole = assms(4)[unfolded hole_heap_def]
  have c: "c < length h" "heap_parent c = p" "p < c"
    using smaller_child_less [OF assms(2)] smaller_child_cases [of key h p] by (auto simp: c_def)
  have sp: "s \<le> p" using assms(3) by (rule descendant_ge)
  show ?thesis
    unfolding hole_heap_def
  proof (intro conjI allI impI)
    fix i assume i: "i < length (h[p := h ! c])" "0 < i" "s \<le> heap_parent i" "i \<noteq> c" "heap_parent i \<noteq> c"
    have "p < length h" using c by simp
    then show "key (h[p := h ! c] ! heap_parent i) \<le> key (h[p := h ! c] ! i)"
      using hole i c heap_parent_less [of i] smaller_child_min [of i h p key]
      by (cases "i = p"; cases "heap_parent i = p") (auto simp: c_def)
  next
    fix i assume i: "i < length (h[p := h ! c])" "0 < i" "heap_parent i = c" "s < c"
    then have "i \<noteq> p" "c \<noteq> p" using c heap_parent_less [of p] by auto
    then show "key (h[p := h ! c] ! heap_parent c) \<le> key (h[p := h ! c] ! i)"
      using hole i c by auto
  qed
qed

lemma bubble_spec:
  assumes "p < length h" "descendant s p" "hole_heap key s p h" "heapq_bubble key p h = (h', p')"
  shows "length h' = length h \<and> p' < length h' \<and> length h' \<le> 2 * p' + 1 \<and> descendant s p' \<and>
    hole_heap key s p' h' \<and> mset (h'[p' := x]) = mset (h[p := x])"
  using assms
proof (induction key p h arbitrary: h' p' rule: heapq_bubble.induct)
  case (1 key p h)
  let ?c = "heapq_smaller_child key h p"
  show ?case
  proof (cases "2 * p + 1 < length h")
    case True
    have c: "?c < length h" "p < ?c"
      using smaller_child_less [OF True] smaller_child_cases [of key h p] by auto
    have bub: "heapq_bubble key ?c (h[p := h ! ?c]) = (h', p')"
      using 1(5) True by (simp add: heapq_bubble.simps [of key p h])
    have c': "?c < length (h[p := h ! ?c])" using c by simp
    have swap: "mset (h[p := h ! ?c, ?c := x]) = mset (h[p := x])"
      using mset_swap [of ?c "h[p := x]" p] c 1(2) by simp
    have "length h' = length (h[p := h ! ?c]) \<and> p' < length h' \<and> length h' \<le> 2 * p' + 1 \<and>
       descendant s p' \<and> hole_heap key s p' h' \<and> mset (h'[p' := x]) = mset (h[p := h ! ?c, ?c := x])"
      by (rule 1(1) [OF True c' smaller_child_descendant [OF 1(3)] hole_heap_bubble_step [OF True 1(3,4)] bub])
    then show ?thesis unfolding length_list_update swap .
  next
    case False
    then have "h' = h" "p' = p" using 1(5) by (simp_all add: heapq_bubble.simps [of key p h])
    then show ?thesis using 1(2-4) False by simp
  qed
qed

lemma heap_from_hole: "heap_from key (Suc p) h \<Longrightarrow> hole_heap key p p h"
  unfolding heap_from_def hole_heap_def by auto

lemma heap_from_siftup:
  assumes "p < length h" "heap_from key (Suc p) h"
  shows "heap_from key p (heapq_siftup key h p)" "mset (heapq_siftup key h p) = mset h"
proof -
  obtain h' p' where b: "heapq_bubble key p h = (h', p')" by fastforce
  note s = bubble_spec [OF assms(1) desc_refl heap_from_hole [OF assms(2)] b, where x = "h ! p"]
  have leaf: "\<not> (i < length h' \<and> 0 < i \<and> heap_parent i = p')" for i
    using s heap_parent_child [of i] by auto
  have "hole_heap key p p' (h'[p' := h ! p])"
    using s leaf unfolding hole_heap_def by (auto simp: nth_list_update)
  moreover have "key (h ! p) \<le> key (h'[p' := h ! p] ! i)"
    if "i < length (h'[p' := h ! p])" "0 < i" "heap_parent i = p'" for i
    using leaf that by auto
  ultimately have "heap_from key p (heapq_siftdown key (h ! p) p p' (h'[p' := h ! p]))"
    using s by (intro heap_from_siftdown) simp_all
  then show "heap_from key p (heapq_siftup key h p)" by (simp add: heapq_siftup_def b)
  have "mset (heapq_siftup key h p) = mset (h'[p' := h ! p])"
    using s mset_siftdown [of p' "h'[p' := h ! p]" key "h ! p" p] by (simp add: heapq_siftup_def b)
  then show "mset (heapq_siftup key h p) = mset h" using s by simp
qed

lemma length_siftup: "p < length h \<Longrightarrow> heap_from key (Suc p) h \<Longrightarrow> length (heapq_siftup key h p) = length h"
  using heap_from_siftup(2) mset_eq_length by metis

subsection \<open>The public operations\<close>

lemma mset_heappush [simp]: "mset (heappush key h x) = add_mset x (mset h)"
  by (simp add: heappush_def mset_siftdown)

lemma is_heap_heappush [intro]:
  assumes "is_heap key h"
  shows "is_heap key (heappush key h x)"
  unfolding heappush_def
proof (rule heap_from_siftdown)
  have no_kid: "heap_parent i \<noteq> length h" if "i < length (h @ [x])" "0 < i" for i
    using that heap_parent_less [of i] by auto
  show "hole_heap key 0 (length h) (h @ [x])"
    unfolding hole_heap_def
  proof (intro conjI allI impI)
    fix i assume "i < length (h @ [x])" "0 < i" "i \<noteq> length h"
    then show "key ((h @ [x]) ! heap_parent i) \<le> key ((h @ [x]) ! i)"
      using assms heap_parent_less [of i] by (simp add: heap_from_def nth_append)
  qed (use no_kid in blast)
  show "key x \<le> key ((h @ [x]) ! i)" if "i < length (h @ [x])" "0 < i" "heap_parent i = length h" for i
    using no_kid that by blast
qed (auto simp: descendant_zero)

lemma heap_root_min:
  assumes "is_heap key h" "i < length h"
  shows "key (h ! 0) \<le> key (h ! i)"
  using assms(2)
proof (induction i rule: less_induct)
  case (less i)
  show ?case
  proof (cases "i = 0")
    case False
    then have "key (h ! 0) \<le> key (h ! heap_parent i)"
      using less heap_parent_less [of i] by simp
    also have "\<dots> \<le> key (h ! i)" using assms(1) less(2) False by (simp add: heap_from_def)
    finally show ?thesis .
  qed simp
qed

lemma heap_from_one_update:
  assumes "is_heap key h"
  shows "heap_from key (Suc 0) ((butlast h)[0 := x])"
  unfolding heap_from_def
proof (intro allI impI)
  fix i assume i: "i < length ((butlast h)[0 := x])" "0 < i" "Suc 0 \<le> heap_parent i"
  then have "heap_parent i < length (butlast h)" using heap_parent_less [of i] by simp
  then show "key ((butlast h)[0 := x] ! heap_parent i) \<le> key ((butlast h)[0 := x] ! i)"
    using i assms by (simp add: heap_from_def nth_butlast)
qed

lemma heappop_empty [simp]: "heappop key h = None \<longleftrightarrow> h = []"
  by (auto simp: heappop_def)

lemma heappop_spec:
  assumes "is_heap key h" "heappop key h = Some (x, h')"
  shows "is_heap key h' \<and> mset h = add_mset x (mset h') \<and> (\<forall>y \<in> set h. key x \<le> key y)"
proof (cases "butlast h = []")
  case True
  then have "h = [x]" "h' = []" using assms(2) by (auto simp: heappop_def split: if_splits)
     (metis append_butlast_last_id append_self_conv2)
  then show ?thesis by (simp add: heap_from_def)
next
  case False
  let ?g = "(butlast h)[0 := last h]"
  have h: "h \<noteq> []" using False by auto
  have len: "0 < length (butlast h)" using False by (rule length_greater_0_conv [THEN iffD2])
  have x: "x = hd h" "h' = heapq_siftup key ?g 0"
    using assms(2) False h by (auto simp: heappop_def)
  have g: "0 < length ?g" using len by simp
  have sift: "is_heap key h'" "mset h' = mset ?g"
    using heap_from_siftup [OF g heap_from_one_update [OF assms(1)]] x(2) by blast+
  have hd: "butlast h ! 0 = hd h" using False h by (cases h) (auto simp: nth_butlast hd_conv_nth)
  have "add_mset (butlast h ! 0) (mset ?g) = add_mset (last h) (mset (butlast h))"
    using len by (simp add: mset_update)
  also have "\<dots> = mset h"
    using h by (metis append_butlast_last_id mset.simps mset_append union_mset_add_mset_right add.right_neutral)
  finally have "mset h = add_mset x (mset h')" using sift x hd by simp
  moreover have "\<forall>y \<in> set h. key x \<le> key y"
    using heap_root_min [OF assms(1)] h x by (auto simp: in_set_conv_nth hd_conv_nth)
  ultimately show ?thesis using sift by blast
qed

lemma heapify_loop:
  assumes "n \<le> length xs" "heap_from key n xs"
  shows "is_heap key (fold (\<lambda>i h. heapq_siftup key h i) (rev [0..<n]) xs) \<and>
    mset (fold (\<lambda>i h. heapq_siftup key h i) (rev [0..<n]) xs) = mset xs"
  using assms
proof (induction n arbitrary: xs)
  case (Suc n)
  have "heap_from key n (heapq_siftup key xs n)" "mset (heapq_siftup key xs n) = mset xs"
    using heap_from_siftup [of n xs key] Suc.prems by auto
  moreover have "n \<le> length (heapq_siftup key xs n)"
    using length_siftup [of n xs key] Suc.prems by simp
  ultimately show ?case using Suc.IH [of "heapq_siftup key xs n"] by simp
qed simp

lemma heapify_spec: "is_heap key (heapify key xs)" "mset (heapify key xs) = mset xs"
proof -
  have "heap_from key (length xs div 2) xs"
    unfolding heap_from_def
  proof (intro allI impI)
    fix i assume "i < length xs" "0 < i" "length xs div 2 \<le> heap_parent i"
    then have False by (auto simp: heap_parent_def)
    then show "key (xs ! heap_parent i) \<le> key (xs ! i)" ..
  qed
  then show "is_heap key (heapify key xs)" "mset (heapify key xs) = mset xs"
    using heapify_loop [of "length xs div 2" xs key] by (simp_all add: heapify_def)
qed

lemma length_bubble [simp]: "length (fst (heapq_bubble key p h)) = length h"
  by (induction key p h rule: heapq_bubble.induct) (subst heapq_bubble.simps, simp add: Let_def)

lemma heappop_length: "heappop key h = Some (x, h') \<Longrightarrow> length h = Suc (length h')"
proof -
  have "length (heapq_siftup key g p) = length g" for g p
    using length_bubble [of key p g] by (cases "heapq_bubble key p g") (simp add: heapq_siftup_def)
  then show "heappop key h = Some (x, h') \<Longrightarrow> length h = Suc (length h')"
    by (cases h rule: rev_cases) (auto simp: heappop_def split: if_splits)
qed

lemma heappop_hd: "heappop key h = Some (x, h') \<Longrightarrow> x = hd h"
  by (cases h rule: rev_cases) (auto simp: heappop_def split: if_splits)

lemma heap_from_cong:
  assumes "\<And>x. x \<in> set h \<Longrightarrow> key x = key' x"
  shows "heap_from key s h \<longleftrightarrow> heap_from key' s h"
  unfolding heap_from_def using assms heap_parent_less by (metis less_trans nth_mem)

lemma set_heappush [simp]: "set (heappush key h x) = insert x (set h)"
  using mset_heappush [of key h x] by (metis set_mset_add_mset_insert set_mset_mset)

subsection \<open>The contract of a priority queue\<close>

fun pop_n :: "('q \<Rightarrow> ('a \<times> 'q) option) \<Rightarrow> nat \<Rightarrow> 'q \<Rightarrow> 'a list \<times> 'q" where
  "pop_n pop 0 q = ([], q)"
| "pop_n pop (Suc n) q =
     (case pop q of
        None \<Rightarrow> ([], q)
      | Some (x, q') \<Rightarrow> (case pop_n pop n q' of (xs, q'') \<Rightarrow> (x # xs, q'')))"

locale priority_queue =
  fixes empty :: 'q
    and push :: "'a \<Rightarrow> 'q \<Rightarrow> 'q"
    and pop :: "'q \<Rightarrow> ('a \<times> 'q) option"
    and content :: "'q \<Rightarrow> 'a multiset"
    and inv :: "'q \<Rightarrow> bool"
    and key :: "'a \<Rightarrow> 'k::linorder"
  assumes inv_empty: "inv empty"
    and content_empty: "content empty = {#}"
    and inv_push: "inv q \<Longrightarrow> inv (push x q)"
    and content_push: "inv q \<Longrightarrow> content (push x q) = add_mset x (content q)"
    and pop_None: "inv q \<Longrightarrow> pop q = None \<longleftrightarrow> content q = {#}"
    and pop_inv: "inv q \<Longrightarrow> pop q = Some (x, q') \<Longrightarrow> inv q'"
    and pop_content: "inv q \<Longrightarrow> pop q = Some (x, q') \<Longrightarrow> content q = add_mset x (content q')"
    and pop_min: "inv q \<Longrightarrow> pop q = Some (x, q') \<Longrightarrow> y \<in># content q \<Longrightarrow> key x \<le> key y"
begin

lemma pop_n_inv:
  "inv q \<Longrightarrow> pop_n pop n q = (xs, q') \<Longrightarrow> inv q'"
  by (induction n arbitrary: q xs) (auto split: option.splits prod.splits dest: pop_inv)

lemma pop_n_content:
  "inv q \<Longrightarrow> pop_n pop n q = (xs, q') \<Longrightarrow> content q = mset xs + content q'"
  by (induction n arbitrary: q xs) (auto split: option.splits prod.splits dest: pop_inv simp: pop_content)

lemma pop_n_below:
  "inv q \<Longrightarrow> pop_n pop n q = (xs, q') \<Longrightarrow> x \<in> set xs \<Longrightarrow> y \<in># content q' \<Longrightarrow> key x \<le> key y"
proof (induction n arbitrary: q xs)
  case (Suc n)
  then obtain z q1 ys where p: "pop q = Some (z, q1)" "pop_n pop n q1 = (ys, q')" "xs = z # ys"
    by (auto split: option.splits prod.splits)
  have q1: "inv q1" using pop_inv [OF Suc.prems(1) p(1)] .
  have "y \<in># content q"
    using pop_n_content [OF q1 p(2)] pop_content [OF Suc.prems(1) p(1)] Suc.prems(4) by simp
  then show ?case using pop_min [OF Suc.prems(1) p(1)] Suc.IH [OF q1 p(2)] Suc.prems p(3) by auto
qed simp

lemma pop_n_sorted:
  "inv q \<Longrightarrow> pop_n pop n q = (xs, q') \<Longrightarrow> sorted (map key xs)"
proof (induction n arbitrary: q xs)
  case (Suc n)
  show ?case
  proof (cases "pop q")
    case (Some zq)
    then obtain z q1 ys where p: "pop q = Some (z, q1)" "pop_n pop n q1 = (ys, q')" "xs = z # ys"
      using Suc.prems by (cases zq) (auto split: prod.splits)
    have q1: "inv q1" using pop_inv [OF Suc.prems(1) p(1)] .
    have "key z \<le> key y" if "y \<in> set ys" for y
      using pop_min [OF Suc.prems(1) p(1)] pop_n_content [OF q1 p(2)] pop_content [OF Suc.prems(1) p(1)] that
      by auto
    then show ?thesis using Suc.IH [OF q1 p(2)] p(3) by simp
  qed (use Suc.prems in simp)
qed simp

lemma pop_n_length:
  "inv q \<Longrightarrow> pop_n pop n q = (xs, q') \<Longrightarrow> length xs = min n (size (content q))"
proof (induction n arbitrary: q xs)
  case (Suc n)
  show ?case
  proof (cases "pop q")
    case (Some zq)
    then obtain z q1 ys where p: "pop q = Some (z, q1)" "pop_n pop n q1 = (ys, q')" "xs = z # ys"
      using Suc.prems by (cases zq) (auto split: prod.splits)
    then show ?thesis
      using Suc.IH [OF pop_inv [OF Suc.prems(1) p(1)] p(2)] pop_content [OF Suc.prems(1) p(1)] by simp
  next
    case None
    then show ?thesis using Suc.prems pop_None [OF Suc.prems(1)] by simp
  qed
qed simp

end

interpretation heapq: priority_queue "[]" "\<lambda>x h. heappush key h x" "heappop key" mset "is_heap key" key for key
proof unfold_locales
  show "is_heap key []" by (simp add: heap_from_def)
  show "is_heap key q \<Longrightarrow> is_heap key (heappush key q x)" for q x by (rule is_heap_heappush)
qed (auto dest: heappop_spec)

end
