(* ===== verification/SqsModels.thy ===== *)
theory SqsModels
  imports SqsUtils Heapq
begin

text \<open>
  \<open>services/sqs/models.py\<close>: message objects and the parts of a queue that standard and FIFO queues
  share. Message objects are shared between the containers of a queue (a receipt handle and the
  in-flight dict name the same object), so a queue holds its objects in a store \<open>objs\<close> and its
  containers hold references into it. Messages compare by their message id, as \<open>SqsMessage.__eq__\<close>
  does, which the membership tests below make explicit. The current time is an argument \<open>now\<close>: an
  operation reads the clock once.
\<close>

subsection \<open>Constants\<close>

definition DEDUPLICATION_INTERVAL_IN_SEC :: time where
  "DEDUPLICATION_INTERVAL_IN_SEC = 300"

definition RECENTLY_DELETED_TIMEOUT :: time where
  "RECENTLY_DELETED_TIMEOUT = 60"

definition DEFAULT_MAXIMUM_MESSAGE_SIZE :: int where
  "DEFAULT_MAXIMUM_MESSAGE_SIZE = 1048576"

definition DYNAMIC_ATTRIBUTES :: "string list" where
  "DYNAMIC_ATTRIBUTES = [''ApproximateNumberOfMessages'', ''ApproximateNumberOfMessagesDelayed'',
     ''ApproximateNumberOfMessagesNotVisible'']"

definition INTERNAL_QUEUE_ATTRIBUTES :: "string list" where
  "INTERNAL_QUEUE_ATTRIBUTES = [''ApproximateNumberOfMessages'', ''ApproximateNumberOfMessagesDelayed'',
     ''ApproximateNumberOfMessagesNotVisible'', ''CreatedTimestamp'', ''LastModifiedTimestamp'', ''QueueArn'']"

definition DELETE_IF_DEFAULT :: "(string, string) dict" where
  "DELETE_IF_DEFAULT = [(''KmsMasterKeyId'', ''''), (''KmsDataKeyReusePeriodSeconds'', ''300'')]"

definition INVALID_STANDARD_QUEUE_ATTRIBUTES :: "string list" where
  "INVALID_STANDARD_QUEUE_ATTRIBUTES = [''FifoQueue'', ''ContentBasedDeduplication''] @ INTERNAL_QUEUE_ATTRIBUTES"

definition QUEUE_ATTRIBUTE_NAMES :: "string list" where
  "QUEUE_ATTRIBUTE_NAMES = [''All'', ''Policy'', ''VisibilityTimeout'', ''MaximumMessageSize'',
     ''MessageRetentionPeriod'', ''ApproximateNumberOfMessages'', ''ApproximateNumberOfMessagesNotVisible'',
     ''CreatedTimestamp'', ''LastModifiedTimestamp'', ''QueueArn'', ''ApproximateNumberOfMessagesDelayed'',
     ''DelaySeconds'', ''ReceiveMessageWaitTimeSeconds'', ''RedrivePolicy'', ''FifoQueue'',
     ''ContentBasedDeduplication'', ''KmsMasterKeyId'', ''KmsDataKeyReusePeriodSeconds'', ''DeduplicationScope'',
     ''FifoThroughputLimit'', ''RedriveAllowPolicy'', ''SqsManagedSseEnabled'']"

subsection \<open>SqsMessage\<close>

record sqs_message =
  message :: api_message
  created :: time
  visibility_timeout :: "int option"
  receive_count :: nat
  delay_seconds :: "int option"
  receipt_handles :: "string list"
  last_received :: "time option"
  first_received :: "time option"
  visibility_deadline :: "time option"
  deleted :: bool
  priority :: time
  sequence_number :: "string option"

definition msg_attributes :: "sqs_message \<Rightarrow> (string, string) dict" where
  "msg_attributes m = (case Attributes (message m) of Some a \<Rightarrow> a | None \<Rightarrow> [])"

definition init_attributes ::
  "(string, string) dict option \<Rightarrow> string option \<Rightarrow> string option \<Rightarrow> string option \<Rightarrow> (string, string) dict" where
  "init_attributes old dedup_id group_id seq_no =
     (let attributes =
            (case group_id of Some g \<Rightarrow> [(''MessageGroupId'', g)] | None \<Rightarrow> []) @
            (case dedup_id of Some d \<Rightarrow> [(''MessageDeduplicationId'', d)] | None \<Rightarrow> []) @
            (case seq_no of Some s \<Rightarrow> [(''SequenceNumber'', s)] | None \<Rightarrow> [])
      in dict_setdefault ''ApproximateReceiveCount'' ''0''
           (if truthy old then dict_update (the old) attributes else attributes))"

definition sqs_message_init ::
  "time \<Rightarrow> time \<Rightarrow> api_message \<Rightarrow> string option \<Rightarrow> string option \<Rightarrow> string option \<Rightarrow> sqs_message" where
  "sqs_message_init now prio msg dedup_id group_id seq_no =
     \<lparr>message = msg\<lparr>Attributes := Some (init_attributes (Attributes msg) dedup_id group_id seq_no)\<rparr>,
      created = now, visibility_timeout = None, receive_count = 0, delay_seconds = None,
      receipt_handles = [], last_received = None, first_received = None, visibility_deadline = None,
      deleted = False, priority = prio, sequence_number = seq_no\<rparr>"

definition message_group_id :: "sqs_message \<Rightarrow> string option" where
  "message_group_id m = dict_get (msg_attributes m) ''MessageGroupId''"

definition message_deduplication_id :: "sqs_message \<Rightarrow> string option" where
  "message_deduplication_id m = dict_get (msg_attributes m) ''MessageDeduplicationId''"

definition dead_letter_queue_source_arn :: "sqs_message \<Rightarrow> string option" where
  "dead_letter_queue_source_arn m = dict_get (msg_attributes m) ''DeadLetterQueueSourceArn''"

abbreviation message_id :: "sqs_message \<Rightarrow> string" where
  "message_id m \<equiv> MessageId (message m)"

text \<open>
  The counter is text in the system attributes, which a sender can supply: text that is no integer is
  a \<open>ValueError\<close> when the message is received.
\<close>

definition increment_approximate_receive_count :: "sqs_message \<Rightarrow> sqs_message result" where
  "increment_approximate_receive_count m =
     (let cnt = (case dict_get (msg_attributes m) ''ApproximateReceiveCount'' of Some s \<Rightarrow> s | None \<Rightarrow> ''0'')
      in case py_int cnt of
           Some c \<Rightarrow>
             Inr (m\<lparr>message := (message m)\<lparr>Attributes :=
                 Some (dict_set ''ApproximateReceiveCount'' (str_of_int (c + 1)) (msg_attributes m))\<rparr>\<rparr>)
         | None \<Rightarrow> Inl (ValueError (''invalid literal for int() with base 10: '' @ cnt)))"

definition update_visibility_timeout :: "time \<Rightarrow> int \<Rightarrow> sqs_message \<Rightarrow> sqs_message" where
  "update_visibility_timeout now timeout m =
     m\<lparr>visibility_timeout := Some timeout, visibility_deadline := Some (now + of_int timeout)\<rparr>"

text \<open>\<open>receive\<close> always sets the visibility timeout before it calls \<open>set_last_received\<close>.\<close>

definition set_last_received :: "time \<Rightarrow> sqs_message \<Rightarrow> sqs_message" where
  "set_last_received timestamp m =
     m\<lparr>last_received := Some timestamp,
       visibility_deadline := map_option (\<lambda>v. timestamp + of_int v) (visibility_timeout m)\<rparr>"

definition is_visible :: "time \<Rightarrow> sqs_message \<Rightarrow> bool" where
  "is_visible now m = (case visibility_deadline m of None \<Rightarrow> True | Some d \<Rightarrow> d \<le> now)"

definition is_delayed :: "time \<Rightarrow> sqs_message \<Rightarrow> bool" where
  "is_delayed now m = (case delay_seconds m of None \<Rightarrow> False | Some d \<Rightarrow> now \<le> created m + of_int d)"

definition to_sqs_api_message ::
  "(string \<Rightarrow> string) \<Rightarrow> string list option \<Rightarrow> string list option \<Rightarrow> sqs_message \<Rightarrow> api_message result" where
  "to_sqs_api_message md5 attribute_names message_attribute_names m =
     (let first = (case first_received m of Some t \<Rightarrow> t | None \<Rightarrow> 0);
          m0 = (message m)\<lparr>Attributes :=
                  Some (dict_set ''ApproximateFirstReceiveTimestamp'' (str_of_int \<lfloor>first * 1000\<rfloor>) (msg_attributes m))\<rparr>;
          m1 = message_filter_attributes attribute_names m0;
          m2 = message_filter_message_attributes message_attribute_names m1
      in if truthy (MessageAttributes m2)
         then bind_result (create_message_attribute_hash md5 (MessageAttributes m2))
                (\<lambda>h. Inr (m2\<lparr>MD5OfMessageAttributes := h\<rparr>))
         else Inr (m2\<lparr>MD5OfMessageAttributes := None\<rparr>))"

subsection \<open>ReceiveMessageResult and move tasks\<close>

type_synonym ref = nat

record receive_message_result =
  successful :: "ref list"
  result_handles :: "string list"
  dead_letter_messages :: "ref list"

datatype move_task_status = CREATED | RUNNING | COMPLETED | CANCELLING | CANCELLED | FAILED

record message_move_task =
  task_id :: string
  source_arn :: string
  destination_arn :: "string option"
  max_number_of_messages_per_second :: "int option"
  cancel_event :: bool
  status :: move_task_status
  started_timestamp :: "time option"
  approximate_number_of_messages_moved :: "int option"
  approximate_number_of_messages_to_move :: "int option"
  failure_reason :: "string option"

definition move_task_init :: "string \<Rightarrow> string \<Rightarrow> string option \<Rightarrow> int option \<Rightarrow> message_move_task" where
  "move_task_init uid src dest rate =
     \<lparr>task_id = uid, source_arn = src, destination_arn = dest, max_number_of_messages_per_second = rate,
      cancel_event = False, status = CREATED, started_timestamp = None,
      approximate_number_of_messages_moved = None, approximate_number_of_messages_to_move = None,
      failure_reason = None\<rparr>"

definition mark_started :: "time \<Rightarrow> message_move_task \<Rightarrow> message_move_task" where
  "mark_started now task = task\<lparr>started_timestamp := Some now, status := RUNNING, cancel_event := False\<rparr>"

definition task_handle :: "message_move_task \<Rightarrow> string" where
  "task_handle task = encode_move_task_handle (task_id task) (source_arn task)"

subsection \<open>SqsQueue\<close>

record sqs_queue =
  queue_name :: string
  region :: string
  account_id :: string
  attributes :: "(string, string) dict"
  queue_tags :: "(string, string) dict"
  delayed :: "ref list"
  inflight :: "ref list"
  receipts :: "(string, ref) dict"
  purge_timestamp :: "time option"
  is_shutdown :: bool
  objs :: "ref \<Rightarrow> sqs_message"
  next_ref :: ref

definition queue_arn :: "'a sqs_queue_scheme \<Rightarrow> string" where
  "queue_arn q = make_arn (get_partition (Some (region q))) ''sqs'' (region q) (account_id q) (queue_name q)"

definition default_attributes :: "time \<Rightarrow> string \<Rightarrow> (string, string) dict" where
  "default_attributes now arn =
     [(''CreatedTimestamp'', str_of_int \<lfloor>now\<rfloor>), (''DelaySeconds'', ''0''),
      (''LastModifiedTimestamp'', str_of_int \<lfloor>now\<rfloor>),
      (''MaximumMessageSize'', str_of_int DEFAULT_MAXIMUM_MESSAGE_SIZE), (''MessageRetentionPeriod'', ''345600''),
      (''QueueArn'', arn), (''ReceiveMessageWaitTimeSeconds'', ''0''), (''VisibilityTimeout'', ''30''),
      (''SqsManagedSseEnabled'', ''true'')]"

definition update_delay_seconds_base :: "int \<Rightarrow> 'a sqs_queue_scheme \<Rightarrow> 'a sqs_queue_scheme" where
  "update_delay_seconds_base v q = q\<lparr>attributes := dict_set ''DelaySeconds'' (str_of_int v) (attributes q)\<rparr>"

definition update_last_modified :: "time \<Rightarrow> int option \<Rightarrow> 'a sqs_queue_scheme \<Rightarrow> 'a sqs_queue_scheme" where
  "update_last_modified now timestamp q =
     q\<lparr>attributes := dict_set ''LastModifiedTimestamp''
         (str_of_int (case timestamp of Some t \<Rightarrow> t | None \<Rightarrow> \<lfloor>now\<rfloor>)) (attributes q)\<rparr>"

text \<open>The request and configuration data \<open>SqsQueue.url\<close> reads.\<close>

record url_context =
  cfg_protocol :: string
  cfg_host_and_port :: string
  cfg_strategy :: endpoint_strategy
  request_scheme :: string
  request_host :: string

definition queue_url :: "url_context \<Rightarrow> 'a sqs_queue_scheme \<Rightarrow> string" where
  "queue_url ctx q =
     (let (scheme, strategy, host) =
            (if cfg_strategy ctx = Dynamic
             then (request_scheme ctx, guess_endpoint_strategy_and_host (request_host ctx))
             else (cfg_protocol ctx, cfg_strategy ctx, cfg_host_and_port ctx));
          host_url =
            (case strategy of
               Standard \<Rightarrow> request_scheme ctx @ ''://sqs.'' @ region q @ ''.'' @ host
             | Domain \<Rightarrow> scheme @ ''://'' @ (if region q = ''us-east-1'' then '''' else region q @ ''.'') @ ''queue.'' @ host
             | PathStrategy \<Rightarrow> scheme @ ''://'' @ host @ ''/queue/'' @ region q
             | _ \<Rightarrow> scheme @ ''://'' @ host)
      in py_rstrip CHR ''/'' host_url @ ''/'' @ account_id q @ ''/'' @ queue_name q)"


subsubsection \<open>Attributes read as numbers or documents\<close>

definition int_attribute :: "'a sqs_queue_scheme \<Rightarrow> string \<Rightarrow> int result" where
  "int_attribute q k =
     (case dict_get (attributes q) k of
        None \<Rightarrow> Inl (KeyError k)
      | Some v \<Rightarrow>
          (case py_int v of
             Some i \<Rightarrow> Inr i
           | None \<Rightarrow> Inl (ValueError (''invalid literal for int() with base 10: '' @ v))))"

abbreviation queue_visibility_timeout :: "'a sqs_queue_scheme \<Rightarrow> int result" where
  "queue_visibility_timeout q \<equiv> int_attribute q ''VisibilityTimeout''"

abbreviation queue_delay_seconds :: "'a sqs_queue_scheme \<Rightarrow> int result" where
  "queue_delay_seconds q \<equiv> int_attribute q ''DelaySeconds''"

abbreviation queue_wait_time_seconds :: "'a sqs_queue_scheme \<Rightarrow> int result" where
  "queue_wait_time_seconds q \<equiv> int_attribute q ''ReceiveMessageWaitTimeSeconds''"

abbreviation message_retention_period :: "'a sqs_queue_scheme \<Rightarrow> int result" where
  "message_retention_period q \<equiv> int_attribute q ''MessageRetentionPeriod''"

abbreviation maximum_message_size :: "'a sqs_queue_scheme \<Rightarrow> int result" where
  "maximum_message_size q \<equiv> int_attribute q ''MaximumMessageSize''"

text \<open>Truth value and \<open>int(...)\<close> of a decoded JSON value.\<close>

fun json_truthy :: "json \<Rightarrow> bool" where
  "json_truthy JNull = False"
| "json_truthy (JBool b) = b"
| "json_truthy (JInt i) = (i \<noteq> 0)"
| "json_truthy (JFloat f) = (f \<noteq> 0)"
| "json_truthy (JStr s) = (s \<noteq> [])"
| "json_truthy (JArr xs) = (xs \<noteq> [])"
| "json_truthy (JObj kvs) = (kvs \<noteq> [])"

fun json_int :: "json \<Rightarrow> int result" where
  "json_int (JInt i) = Inr i"
| "json_int (JBool b) = Inr (if b then 1 else 0)"
| "json_int (JFloat f) = Inr (if f < 0 then - \<lfloor>- f\<rfloor> else \<lfloor>f\<rfloor>)"
| "json_int (JStr s) =
     (case py_int s of Some i \<Rightarrow> Inr i | None \<Rightarrow> Inl (ValueError (''invalid literal for int() with base 10: '' @ s)))"
| "json_int _ = Inl (TypeError ''int() argument must be a string, a bytes-like object or a real number'')"

definition redrive_policy :: "'a sqs_queue_scheme \<Rightarrow> json option result" where
  "redrive_policy q =
     (let doc = dict_get (attributes q) ''RedrivePolicy''
      in if truthy doc then bind_result (json_loads (the doc)) (\<lambda>j. Inr (Some j)) else Inr None)"

definition max_receive_count :: "'a sqs_queue_scheme \<Rightarrow> int option result" where
  "max_receive_count q =
     bind_result (redrive_policy q) (\<lambda>policy.
       case policy of
         None \<Rightarrow> Inr None
       | Some j \<Rightarrow>
           (if json_truthy j
            then bind_result (json_item j ''maxReceiveCount'') (\<lambda>v. bind_result (json_int v) (\<lambda>i. Inr (Some i)))
            else Inr None))"

definition approximate_number_of_messages_not_visible :: "'a sqs_queue_scheme \<Rightarrow> nat" where
  "approximate_number_of_messages_not_visible q = length (inflight q)"

definition approximate_number_of_messages_delayed :: "'a sqs_queue_scheme \<Rightarrow> nat" where
  "approximate_number_of_messages_delayed q = length (delayed q)"

subsubsection \<open>Objects and containers keyed by message id\<close>

abbreviation obj :: "'a sqs_queue_scheme \<Rightarrow> ref \<Rightarrow> sqs_message" where
  "obj q r \<equiv> objs q r"

abbreviation mid :: "'a sqs_queue_scheme \<Rightarrow> ref \<Rightarrow> string" where
  "mid q r \<equiv> message_id (objs q r)"

definition upd_obj :: "ref \<Rightarrow> (sqs_message \<Rightarrow> sqs_message) \<Rightarrow> 'a sqs_queue_scheme \<Rightarrow> 'a sqs_queue_scheme" where
  "upd_obj r f q = q\<lparr>objs := (objs q)(r := f (objs q r))\<rparr>"

definition new_obj :: "sqs_message \<Rightarrow> 'a sqs_queue_scheme \<Rightarrow> ref \<times> 'a sqs_queue_scheme" where
  "new_obj m q = (next_ref q, q\<lparr>objs := (objs q)(next_ref q := m), next_ref := Suc (next_ref q)\<rparr>)"

definition in_by_id :: "'a sqs_queue_scheme \<Rightarrow> ref \<Rightarrow> ref list \<Rightarrow> bool" where
  "in_by_id q r rs = list_ex (\<lambda>r'. mid q r' = mid q r) rs"

definition add_by_id :: "'a sqs_queue_scheme \<Rightarrow> ref \<Rightarrow> ref list \<Rightarrow> ref list" where
  "add_by_id q r rs = (if in_by_id q r rs then rs else rs @ [r])"

fun remove_by_id :: "'a sqs_queue_scheme \<Rightarrow> ref \<Rightarrow> ref list \<Rightarrow> ref list" where
  "remove_by_id q r [] = []"
| "remove_by_id q r (r' # rs) = (if mid q r' = mid q r then rs else r' # remove_by_id q r rs)"

definition add_inflight_message :: "ref \<Rightarrow> 'a sqs_queue_scheme \<Rightarrow> 'a sqs_queue_scheme" where
  "add_inflight_message r q = q\<lparr>inflight := add_by_id q r (inflight q)\<rparr>"

definition add_delayed_message :: "ref \<Rightarrow> 'a sqs_queue_scheme \<Rightarrow> 'a sqs_queue_scheme" where
  "add_delayed_message r q = q\<lparr>delayed := add_by_id q r (delayed q)\<rparr>"

subsubsection \<open>Receipt handles\<close>

text \<open>The code outside this module that the queues call.\<close>

record externals =
  ext_parse_arn :: arn_parser
  ext_md5 :: "string \<Rightarrow> string"
  ext_sha256 :: "string \<Rightarrow> string"
  ext_str_float :: "time \<Rightarrow> string"

definition create_receipt_handle :: "externals \<Rightarrow> string \<Rightarrow> 'a sqs_queue_scheme \<Rightarrow> sqs_message \<Rightarrow> string" where
  "create_receipt_handle ext uid q m =
     encode_receipt_handle uid (queue_arn q) (message_id m)
       (case last_received m of Some t \<Rightarrow> ext_str_float ext t | None \<Rightarrow> ''None'')"

definition validate_receipt_handle :: "externals \<Rightarrow> 'a sqs_queue_scheme \<Rightarrow> string \<Rightarrow> unit result" where
  "validate_receipt_handle ext q receipt_handle =
     bind_result (extract_receipt_handle_info (ext_parse_arn ext) receipt_handle) (\<lambda>info.
       if queue_arn q \<noteq> rh_queue_arn info then Inl (receipt_handle_error receipt_handle) else Inr ())"

subsubsection \<open>Operations shared by the queue types\<close>

text \<open>
  The base class calls methods its subclasses define (\<open>_put_message\<close>, \<open>_pre_delete_checks\<close>,
  \<open>_on_remove_message\<close>); here they are arguments.
\<close>

definition queue_update_visibility_timeout ::
  "(ref \<Rightarrow> 'a sqs_queue_scheme \<Rightarrow> 'a sqs_queue_scheme) \<Rightarrow> externals \<Rightarrow> time \<Rightarrow> string \<Rightarrow> int \<Rightarrow>
   'a sqs_queue_scheme \<Rightarrow> unit result \<times> 'a sqs_queue_scheme" where
  "queue_update_visibility_timeout put_message ext now receipt_handle timeout q =
     (case validate_receipt_handle ext q receipt_handle of
        Inl e \<Rightarrow> (Inl e, q)
      | Inr _ \<Rightarrow>
          (case dict_get (receipts q) receipt_handle of
             None \<Rightarrow>
               (Inl (InvalidParameterValueException (''Value '' @ receipt_handle @
                  '' for parameter ReceiptHandle is invalid. Reason: Message does not exist '' @
                  ''or is not available for visibility timeout change.'')), q)
           | Some r \<Rightarrow>
               (if \<not> in_by_id q r (inflight q) then (Inr (), q)
                else
                  let q1 = upd_obj r (update_visibility_timeout now timeout) q in
                  if timeout = 0
                  then (Inr (), put_message r (q1\<lparr>inflight := remove_by_id q1 r (inflight q1)\<rparr>))
                  else (Inr (), q1))))"

fun del_receipts :: "string list \<Rightarrow> (string, ref) dict \<Rightarrow> unit result \<times> (string, ref) dict" where
  "del_receipts [] d = (Inr (), d)"
| "del_receipts (h # hs) d = (if dict_has d h then del_receipts hs (dict_del h d) else (Inl (KeyError h), d))"

definition queue_remove ::
  "(sqs_message \<Rightarrow> string \<Rightarrow> unit result) \<Rightarrow> (ref \<Rightarrow> 'a sqs_queue_scheme \<Rightarrow> 'a sqs_queue_scheme) \<Rightarrow>
   externals \<Rightarrow> string \<Rightarrow> 'a sqs_queue_scheme \<Rightarrow> unit result \<times> 'a sqs_queue_scheme" where
  "queue_remove pre_delete_checks on_remove_message ext receipt_handle q =
     (case validate_receipt_handle ext q receipt_handle of
        Inl e \<Rightarrow> (Inl e, q)
      | Inr _ \<Rightarrow>
          (case dict_get (receipts q) receipt_handle of
             None \<Rightarrow> (Inr (), q)
           | Some r \<Rightarrow>
               (case pre_delete_checks (obj q r) receipt_handle of
                  Inl e \<Rightarrow> (Inl e, q)
                | Inr _ \<Rightarrow>
                    let q1 = upd_obj r (\<lambda>m. m\<lparr>deleted := True\<rparr>) q;
                        (res, rcpts) = del_receipts (receipt_handles (obj q1 r)) (receipts q1);
                        q2 = q1\<lparr>receipts := rcpts\<rparr>
                    in case res of
                         Inl e \<Rightarrow> (Inl e, q2)
                       | Inr _ \<Rightarrow> (Inr (), on_remove_message r (upd_obj r (\<lambda>m. m\<lparr>receipt_handles := []\<rparr>) q2)))))"

definition clear_base :: "'a sqs_queue_scheme \<Rightarrow> 'a sqs_queue_scheme" where
  "clear_base q = q\<lparr>inflight := [], delayed := [], receipts := []\<rparr>"

definition requeue_inflight_messages ::
  "(ref \<Rightarrow> 'a sqs_queue_scheme \<Rightarrow> 'a sqs_queue_scheme) \<Rightarrow> time \<Rightarrow> 'a sqs_queue_scheme \<Rightarrow> 'a sqs_queue_scheme" where
  "requeue_inflight_messages put_message now q =
     fold (\<lambda>r acc. put_message r (acc\<lparr>inflight := remove_by_id acc r (inflight acc)\<rparr>))
       (filter (\<lambda>r. is_visible now (obj q r)) (inflight q)) q"

definition enqueue_delayed_messages ::
  "(ref \<Rightarrow> 'a sqs_queue_scheme \<Rightarrow> 'a sqs_queue_scheme) \<Rightarrow> time \<Rightarrow> 'a sqs_queue_scheme \<Rightarrow> 'a sqs_queue_scheme" where
  "enqueue_delayed_messages put_message now q =
     fold (\<lambda>r acc. put_message r (acc\<lparr>delayed := remove_by_id acc r (delayed acc)\<rparr>))
       (filter (\<lambda>r. \<not> is_delayed now (obj q r)) (delayed q)) q"

subsubsection \<open>Validation\<close>

definition is_queue_name_char :: "char \<Rightarrow> bool" where
  "is_queue_name_char c \<longleftrightarrow> is_alnum_char c \<or> c = CHR ''_'' \<or> c = CHR ''-''"

definition assert_queue_name :: "string \<Rightarrow> unit result" where
  "assert_queue_name name =
     (if \<not> re_class_match is_queue_name_char 1 80 name
      then Inl (InvalidParameterValueException
        ''Can only include alphanumeric characters, hyphens, or underscores. 1 to 80 in length'')
      else Inr ())"

definition validate_receive_message_wait_time :: "(string, string) dict \<Rightarrow> unit result" where
  "validate_receive_message_wait_time attrs =
     (case dict_get attrs ''ReceiveMessageWaitTimeSeconds'' of
        None \<Rightarrow> Inr ()
      | Some value \<Rightarrow>
          (let seconds = (case py_int value of Some i \<Rightarrow> i | None \<Rightarrow> - 1)
           in if seconds < 0 \<or> seconds > 20
              then Inl (InvalidAttributeValue (''Invalid value for the parameter ReceiveMessageWaitTimeSeconds. '' @
                     ''Reason: must be between 0 and 20.''))
              else Inr ()))"

subsubsection \<open>Permissions\<close>

text \<open>Iteration, \<open>.get\<close> and \<open>.append\<close> on decoded JSON values, with the exceptions Python raises on other types.\<close>

abbreviation AttributeError :: "string \<Rightarrow> exn" where
  "AttributeError msg \<equiv> PyExn ''AttributeError'' msg"

fun json_iter :: "json \<Rightarrow> json list result" where
  "json_iter (JArr xs) = Inr xs"
| "json_iter (JObj kvs) = Inr (map (\<lambda>kv. JStr (fst kv)) kvs)"
| "json_iter (JStr s) = Inr (map (\<lambda>c. JStr [c]) s)"
| "json_iter _ = Inl (TypeError ''object is not iterable'')"

fun json_get :: "string \<Rightarrow> json \<Rightarrow> json option result" where
  "json_get k (JObj kvs) = Inr (dict_get kvs k)"
| "json_get k _ = Inl (AttributeError ''get'')"

fun json_append :: "json \<Rightarrow> json \<Rightarrow> json result" where
  "json_append (JArr xs) x = Inr (JArr (xs @ [x]))"
| "json_append _ x = Inl (AttributeError ''append'')"

fun map_result :: "('a \<Rightarrow> 'b result) \<Rightarrow> 'a list \<Rightarrow> 'b list result" where
  "map_result f [] = Inr []"
| "map_result f (x # xs) = bind_result (f x) (\<lambda>y. bind_result (map_result f xs) (\<lambda>ys. Inr (y # ys)))"

definition load_policy :: "'a sqs_queue_scheme \<Rightarrow> (string, json) dict result" where
  "load_policy q =
     (let doc = dict_get (attributes q) ''Policy'' in
      if truthy doc
      then bind_result (json_loads (the doc)) (\<lambda>j.
             case j of JObj kvs \<Rightarrow> Inr (dict_setdefault ''Statement'' (JArr []) kvs)
             | _ \<Rightarrow> Inl (AttributeError ''setdefault''))
      else Inr [(''Version'', JStr ''2008-10-17''), (''Id'', JStr (queue_arn q @ ''/SQSDefaultPolicy'')),
                (''Statement'', JArr [])])"

definition statement_json ::
  "'a sqs_queue_scheme \<Rightarrow> string \<Rightarrow> string list \<Rightarrow> string list \<Rightarrow> json result" where
  "statement_json q label actions account_ids =
     (let root = (\<lambda>a. JStr (''arn:'' @ get_partition (Some (region q)) @ '':iam::'' @ a @ '':root''));
          action = (\<lambda>a. JStr (''SQS:'' @ a))
      in if account_ids = [] \<or> actions = [] then Inl (PyExn ''IndexError'' ''list index out of range'')
         else Inr (JObj [(''Sid'', JStr label), (''Effect'', JStr ''Allow''),
           (''Principal'', JObj [(''AWS'',
              if length account_ids > 1 then JArr (map root account_ids) else root (hd account_ids))]),
           (''Action'', if length actions > 1 then JArr (map action actions) else action (hd actions)),
           (''Resource'', JStr (queue_arn q))]))"

definition statement_ids :: "(string, json) dict \<Rightarrow> json option list result" where
  "statement_ids policy =
     bind_result (json_iter (the (dict_get policy ''Statement''))) (map_result (json_get ''Sid''))"

definition add_permission ::
  "externals \<Rightarrow> string \<Rightarrow> string list \<Rightarrow> string list \<Rightarrow> 'a sqs_queue_scheme \<Rightarrow> 'a sqs_queue_scheme result" where
  "add_permission ext label actions account_ids q =
     bind_result (statement_json q label actions account_ids) (\<lambda>statement.
     bind_result (load_policy q) (\<lambda>policy.
     bind_result (statement_ids policy) (\<lambda>existing_statement_ids.
     if Some (JStr label) \<in> set existing_statement_ids
     then Inl (InvalidParameterValueException
            (''Value '' @ label @ '' for parameter Label is invalid. Reason: Already exists.''))
     else bind_result (json_append (the (dict_get policy ''Statement'')) statement) (\<lambda>statements.
       Inr (q\<lparr>attributes := dict_set ''Policy''
              (json_dumps (ext_str_float ext) (JObj (dict_set ''Statement'' statements policy))) (attributes q)\<rparr>)))))"

definition remove_permission ::
  "externals \<Rightarrow> string \<Rightarrow> 'a sqs_queue_scheme \<Rightarrow> 'a sqs_queue_scheme result" where
  "remove_permission ext label q =
     bind_result (load_policy q) (\<lambda>policy.
     bind_result (json_iter (the (dict_get policy ''Statement''))) (\<lambda>statements.
     bind_result (statement_ids policy) (\<lambda>existing_statement_ids.
     if Some (JStr label) \<notin> set existing_statement_ids
     then Inl (InvalidParameterValueException
            (''Value '' @ label @ '' for parameter Label is invalid. Reason: can'' @ [CHR 0x27] @ ''t find label.''))
     else
       let kept = filter (\<lambda>st. json_get ''Sid'' st \<noteq> Inr (Some (JStr label))) statements in
       if kept \<noteq> []
       then Inr (q\<lparr>attributes := dict_set ''Policy''
              (json_dumps (ext_str_float ext) (JObj (dict_set ''Statement'' (JArr kept) policy))) (attributes q)\<rparr>)
       else Inr (q\<lparr>attributes := dict_del ''Policy'' (attributes q)\<rparr>))))"

subsubsection \<open>Attributes\<close>

text \<open>
  \<open>getattr(QueueAttributeName, attr)\<close> succeeds on the names of the enum; the names every Python class
  has beside them are not modelled. \<open>approximate\<close> is the property the subclass defines.
\<close>

definition queue_attribute_value :: "nat \<Rightarrow> 'a sqs_queue_scheme \<Rightarrow> string \<Rightarrow> string option" where
  "queue_attribute_value approximate q attr =
     (if attr = ''ApproximateNumberOfMessages'' then Some (str_of_nat approximate)
      else if attr = ''ApproximateNumberOfMessagesDelayed''
      then Some (str_of_nat (approximate_number_of_messages_delayed q))
      else if attr = ''ApproximateNumberOfMessagesNotVisible''
      then Some (str_of_nat (approximate_number_of_messages_not_visible q))
      else dict_get (attributes q) attr)"

fun queue_attributes_loop ::
  "nat \<Rightarrow> 'a sqs_queue_scheme \<Rightarrow> string list \<Rightarrow> (string, string) dict \<Rightarrow> (string, string) dict result" where
  "queue_attributes_loop approximate q [] result = Inr result"
| "queue_attributes_loop approximate q (attr # attrs) result =
     (if attr \<notin> set QUEUE_ATTRIBUTE_NAMES then Inl (InvalidAttributeName (''Unknown Attribute '' @ attr @ ''.''))
      else queue_attributes_loop approximate q attrs
        (case queue_attribute_value approximate q attr of
           None \<Rightarrow> result
         | Some value \<Rightarrow>
             dict_set attr (if value = ''False'' \<or> value = ''True'' then py_lower value else value) result))"

definition queue_get_queue_attributes ::
  "nat \<Rightarrow> string list option \<Rightarrow> 'a sqs_queue_scheme \<Rightarrow> (string, string) dict result" where
  "queue_get_queue_attributes approximate attribute_names q =
     (if \<not> truthy attribute_names then Inr []
      else queue_attributes_loop approximate q
        (if ''All'' \<in> set (the attribute_names) then map fst (attributes q) @ DYNAMIC_ATTRIBUTES
         else the attribute_names) [])"

subsubsection \<open>Expired messages\<close>

function remove_expired_loop ::
  "(ref \<Rightarrow> sqs_message) \<Rightarrow> time \<Rightarrow> ref list \<Rightarrow> ref list \<Rightarrow> ref list \<times> ref list" where
  "remove_expired_loop store th heap expired =
     (case heappop (\<lambda>r. priority (store r)) heap of
        None \<Rightarrow> (expired, heap)
      | Some (r, heap') \<Rightarrow>
          (if th < created (store r) then (expired, heap)
           else remove_expired_loop store th heap' (expired @ [r])))"
  by pat_completeness auto
termination
  by (relation "measure (\<lambda>(store, th, heap, expired). length heap)") (auto dest: heappop_length)

declare remove_expired_loop.simps [simp del]

definition remove_expired_messages_from_heap ::
  "(ref \<Rightarrow> sqs_message) \<Rightarrow> time \<Rightarrow> int \<Rightarrow> ref list \<Rightarrow> ref list \<times> ref list" where
  "remove_expired_messages_from_heap store now retention heap = remove_expired_loop store (now - of_int retention) heap []"

subsubsection \<open>Steps of \<open>receive\<close> shared by the queue types\<close>

definition mark_received :: "time \<Rightarrow> int \<Rightarrow> sqs_message \<Rightarrow> sqs_message" where
  "mark_received now timeout m =
     (let m1 = set_last_received now (update_visibility_timeout now timeout (m\<lparr>receive_count := receive_count m + 1\<rparr>))
      in m1\<lparr>first_received := (if first_received m1 = None then last_received m1 else first_received m1)\<rparr>)"

definition exceeds_max_receive_count :: "int option \<Rightarrow> sqs_message \<Rightarrow> bool" where
  "exceeds_max_receive_count limit m =
     (case limit of None \<Rightarrow> False | Some n \<Rightarrow> n \<noteq> 0 \<and> int (receive_count m) > n)"

definition hand_out :: "externals \<Rightarrow> string \<Rightarrow> ref \<Rightarrow> 'a sqs_queue_scheme \<Rightarrow> string \<times> 'a sqs_queue_scheme" where
  "hand_out ext uid r q =
     (let handle = create_receipt_handle ext uid q (obj q r);
          q1 = upd_obj r (\<lambda>m. m\<lparr>receipt_handles := List.insert handle (receipt_handles m)\<rparr>) q
      in (handle, q1\<lparr>receipts := dict_set handle r (receipts q1)\<rparr>))"

fun hand_out_all ::
  "(ref \<Rightarrow> 'a sqs_queue_scheme \<Rightarrow> 'a sqs_queue_scheme) \<Rightarrow> externals \<Rightarrow> (nat \<Rightarrow> string) \<Rightarrow> ref list \<Rightarrow>
   'a sqs_queue_scheme \<Rightarrow> string list \<times> 'a sqs_queue_scheme" where
  "hand_out_all put_message ext fresh [] q = ([], q)"
| "hand_out_all put_message ext fresh (r # rs) q =
     (let (handle, q1) = hand_out ext (fresh 0) r q;
          q2 = (if visibility_timeout (obj q1 r) = Some 0 then put_message r q1 else add_inflight_message r q1);
          (handles, q3) = hand_out_all put_message ext (\<lambda>i. fresh (Suc i)) rs q2
      in (handle # handles, q3))"

end
