(* ===== verification/SqsQueueInv.thy ===== *)
theory SqsQueueInv
  imports SqsModels
begin

text \<open>
  The well-formedness invariant every queue keeps, and the contract between the base class \<open>SqsQueue\<close>
  and its subclasses: which parts of a queue \<open>_put_message\<close> may change. The base class's own operations
  are proved correct once, from that contract.
\<close>

named_theorems queue_simps \<open>selectors after an update of a queue\<close>

subsection \<open>Containers keyed by message id\<close>

lemma upd_obj_simps [queue_simps, simp]:
  "inflight (upd_obj r f q) = inflight q" "delayed (upd_obj r f q) = delayed q"
  "receipts (upd_obj r f q) = receipts q" "next_ref (upd_obj r f q) = next_ref q"
  "attributes (upd_obj r f q) = attributes q" "is_shutdown (upd_obj r f q) = is_shutdown q"
  "queue_name (upd_obj r f q) = queue_name q" "region (upd_obj r f q) = region q"
  "account_id (upd_obj r f q) = account_id q" "queue_tags (upd_obj r f q) = queue_tags q"
  "objs (upd_obj r f q) = (objs q)(r := f (objs q r))"
  by (simp_all add: upd_obj_def)

lemma mid_upd_obj [simp]: "message_id (f (obj q r)) = mid q r \<Longrightarrow> mid (upd_obj r f q) r' = mid q r'"
  by simp

lemma queue_arn_cong:
  "queue_name q = queue_name q' \<Longrightarrow> region q = region q' \<Longrightarrow> account_id q = account_id q' \<Longrightarrow> queue_arn q = queue_arn q'"
  by (simp add: queue_arn_def)

lemma in_by_id_iff: "in_by_id q r rs \<longleftrightarrow> mid q r \<in> mid q ` set rs"
  unfolding in_by_id_def list_ex_iff image_iff by (metis (full_types))

lemma remove_by_id_absent: "\<not> in_by_id q r rs \<Longrightarrow> remove_by_id q r rs = rs"
  by (induction rs) (auto simp: in_by_id_def)

lemma remove_by_id_mset:
  assumes "in_by_id q r rs"
  obtains r' where "mid q r' = mid q r" "mset rs = add_mset r' (mset (remove_by_id q r rs))"
  using assms
proof (induction rs arbitrary: thesis)
  case (Cons x xs)
  show ?case
  proof (cases "mid q x = mid q r")
    case True then show ?thesis using Cons.prems(1) [of x] by simp
  next
    case False
    then obtain r' where "mid q r' = mid q r" "mset xs = add_mset r' (mset (remove_by_id q r xs))"
      using Cons by (auto simp: in_by_id_def)
    then show ?thesis using Cons.prems(1) [of r'] False by simp
  qed
qed (simp add: in_by_id_def)

lemma set_remove_by_id: "set (remove_by_id q r rs) \<subseteq> set rs"
  by (induction rs) auto

lemma remove_by_id_self:
  assumes "r \<in> set rs" "distinct (map (mid q) rs)"
  shows "mset rs = add_mset r (mset (remove_by_id q r rs))"
  using assms by (induction rs) (auto simp: image_iff)

lemma remove_by_id_filter:
  "distinct (map (mid q) rs) \<Longrightarrow> remove_by_id q r rs = filter (\<lambda>r'. mid q r' \<noteq> mid q r) rs"
proof (induction rs)
  case (Cons x xs)
  have "mid q x = mid q r \<Longrightarrow> filter (\<lambda>r'. mid q r' \<noteq> mid q r) xs = xs"
  proof (rule filter_True, rule ballI)
    fix y assume x: "mid q x = mid q r" and "y \<in> set xs"
    then have "mid q y \<in> mid q ` set xs" by blast
    moreover have "mid q x \<notin> mid q ` set xs" using Cons.prems by simp
    ultimately show "mid q y \<noteq> mid q r" using x by (metis (full_types))
  qed
  then show ?case using Cons by simp
qed simp

lemma remove_by_id_cong: "(\<And>x. mid q x = mid q' x) \<Longrightarrow> remove_by_id q r rs = remove_by_id q' r rs"
  by (induction rs) auto

lemma distinct_map_mset_cong:
  "image_mset f (mset xs) = image_mset g (mset ys) \<Longrightarrow> distinct (map f xs) \<longleftrightarrow> distinct (map g ys)"
  by (metis mset_eq_imp_distinct_iff mset_map)

subsection \<open>The invariant\<close>

definition receipts_ok :: "'a sqs_queue_scheme \<Rightarrow> bool" where
  "receipts_ok q \<longleftrightarrow> dict_wf (receipts q) \<and>
     (\<forall>h r. dict_get (receipts q) h = Some r \<longrightarrow>
        r < next_ref q \<and> \<not> deleted (obj q r) \<and> h \<in> set (receipt_handles (obj q r)) \<and>
        distinct (receipt_handles (obj q r)) \<and>
        (\<forall>h' \<in> set (receipt_handles (obj q r)). dict_get (receipts q) h' = Some r))"

definition queue_wf :: "ref list \<Rightarrow> 'a sqs_queue_scheme \<Rightarrow> bool" where
  "queue_wf ws q \<longleftrightarrow>
     distinct (map (mid q) (ws @ inflight q @ delayed q)) \<and>
     (\<forall>r \<in> set (ws @ inflight q @ delayed q). r < next_ref q \<and> \<not> deleted (obj q r)) \<and>
     (\<forall>r \<in> set (ws @ inflight q @ delayed q).
        \<forall>h \<in> set (receipt_handles (obj q r)). dict_get (receipts q) h = Some r) \<and>
     (\<forall>r \<in> set (delayed q). receipt_handles (obj q r) = []) \<and>
     receipts_ok q"

definition queue_ids :: "ref list \<Rightarrow> 'a sqs_queue_scheme \<Rightarrow> string multiset" where
  "queue_ids ws q = image_mset (mid q) (mset ws + mset (inflight q) + mset (delayed q))"

lemma distinct_subset_mset:
  assumes "mset xs \<subseteq># mset ys" "distinct ys"
  shows "distinct xs"
proof -
  obtain zs where "mset zs = mset ys - mset xs" using ex_mset by blast
  then have "mset ys = mset (xs @ zs)" using assms(1) by simp
  then show ?thesis using assms(2) mset_eq_imp_distinct_iff [of ys "xs @ zs"] by simp
qed

lemma queue_wfI:
  assumes "distinct (map (mid q) (ws @ inflight q @ delayed q))"
    and "\<And>r. r \<in> set (ws @ inflight q @ delayed q) \<Longrightarrow> r < next_ref q"
    and "\<And>r. r \<in> set (ws @ inflight q @ delayed q) \<Longrightarrow> \<not> deleted (obj q r)"
    and "\<And>r h. r \<in> set (ws @ inflight q @ delayed q) \<Longrightarrow> h \<in> set (receipt_handles (obj q r)) \<Longrightarrow>
      dict_get (receipts q) h = Some r"
    and "\<And>r. r \<in> set (delayed q) \<Longrightarrow> receipt_handles (obj q r) = []"
    and "receipts_ok q"
  shows "queue_wf ws q"
  unfolding queue_wf_def using assms by blast

lemma queue_wf_ids: "queue_wf ws q \<Longrightarrow> distinct (map (mid q) (ws @ inflight q @ delayed q))"
  unfolding queue_wf_def by blast

lemma queue_wf_ref: "queue_wf ws q \<Longrightarrow> r \<in> set (ws @ inflight q @ delayed q) \<Longrightarrow> r < next_ref q \<and> \<not> deleted (obj q r)"
  unfolding queue_wf_def by blast

lemma queue_wf_handle:
  "queue_wf ws q \<Longrightarrow> r \<in> set (ws @ inflight q @ delayed q) \<Longrightarrow> h \<in> set (receipt_handles (obj q r)) \<Longrightarrow>
   dict_get (receipts q) h = Some r"
  unfolding queue_wf_def by blast

lemma queue_wf_delayed: "queue_wf ws q \<Longrightarrow> r \<in> set (delayed q) \<Longrightarrow> receipt_handles (obj q r) = []"
  unfolding queue_wf_def by blast

lemma queue_wf_receipts: "queue_wf ws q \<Longrightarrow> receipts_ok q"
  unfolding queue_wf_def by blast

lemma receipts_okD:
  assumes "receipts_ok q" "dict_get (receipts q) h = Some r"
  shows "r < next_ref q" "\<not> deleted (obj q r)" "h \<in> set (receipt_handles (obj q r))"
    "distinct (receipt_handles (obj q r))" "h' \<in> set (receipt_handles (obj q r)) \<Longrightarrow> dict_get (receipts q) h' = Some r"
  using assms unfolding receipts_ok_def by blast+

text \<open>Moving references between containers, forgetting some, and changing fields that identify nothing keeps the invariant.\<close>

lemma queue_wf_shuffle:
  assumes wf: "queue_wf ws q"
    and same: "\<And>r. mid q' r = mid q r" "\<And>r. deleted (obj q' r) = deleted (obj q r)"
      "\<And>r. receipt_handles (obj q' r) = receipt_handles (obj q r)"
    and receipts: "receipts q' = receipts q" and nref: "next_ref q' = next_ref q"
    and ids: "queue_ids ws' q' \<subseteq># queue_ids ws q"
    and refs: "set ws' \<union> set (inflight q') \<subseteq> set (ws @ inflight q @ delayed q) \<union> ran (map_of (receipts q))"
    and del: "set (delayed q') \<subseteq> set (delayed q)"
  shows "queue_wf ws' q'"
proof -
  note rok = receipts_okD [OF queue_wf_receipts [OF wf]]
  have "mset (map (mid q') (ws' @ inflight q' @ delayed q')) \<subseteq># mset (map (mid q) (ws @ inflight q @ delayed q))"
    using ids by (simp add: queue_ids_def ac_simps)
  then have d: "distinct (map (mid q') (ws' @ inflight q' @ delayed q'))"
    using distinct_subset_mset queue_wf_ids [OF wf] by blast
  have r: "r < next_ref q \<and> \<not> deleted (obj q r) \<and>
      (\<forall>h \<in> set (receipt_handles (obj q r)). dict_get (receipts q) h = Some r)"
    if "r \<in> set (ws' @ inflight q' @ delayed q')" for r
  proof -
    from that refs del consider "r \<in> set (ws @ inflight q @ delayed q)" | h where "dict_get (receipts q) h = Some r"
      by (auto simp: ran_def)
    then show ?thesis
      by cases (use queue_wf_ref [OF wf] queue_wf_handle [OF wf] rok in blast)+
  qed
  have "receipts_ok q'"
    using queue_wf_receipts [OF wf] unfolding receipts_ok_def receipts nref same .
  moreover have "receipt_handles (obj q' r) = []" if "r \<in> set (delayed q')" for r
    using that del queue_wf_delayed [OF wf] same(3) by auto
  ultimately show ?thesis
    unfolding queue_wf_def by (simp only: same receipts nref d [unfolded same]) (use r in blast)
qed

lemma queue_wf_mset: "mset ws = mset ws' \<Longrightarrow> queue_wf ws q \<Longrightarrow> queue_wf ws' q"
  by (rule queue_wf_shuffle [of ws]) (auto simp: queue_ids_def dest: mset_eq_setD)

lemma queue_wf_not_elsewhere:
  assumes "queue_wf ws q" "r \<in> set ws"
  shows "\<not> in_by_id q r (inflight q)" "\<not> in_by_id q r (delayed q)" "r \<notin> set (delayed q)" "r \<notin> set (inflight q)"
proof -
  have "mid q r \<in> mid q ` set ws" using assms(2) by blast
  then have "mid q r \<notin> mid q ` set (inflight q)" "mid q r \<notin> mid q ` set (delayed q)"
    using queue_wf_ids [OF assms(1)] by auto
  then show "\<not> in_by_id q r (inflight q)" "\<not> in_by_id q r (delayed q)" "r \<notin> set (delayed q)" "r \<notin> set (inflight q)"
    by (auto simp: in_by_id_iff)
qed

lemma receipts_ok_new:
  assumes R: "receipts_ok q" and new: "new_obj m q = (r, q1)"
  shows "receipts_ok q1"
  unfolding receipts_ok_def
proof (intro conjI allI impI)
  have r: "r = next_ref q" and q1: "q1 = q\<lparr>objs := (objs q)(r := m), next_ref := Suc r\<rparr>"
    using new by (auto simp: new_obj_def)
  show "dict_wf (receipts q1)" using R by (simp add: q1 receipts_ok_def)
  fix h x assume "dict_get (receipts q1) h = Some x"
  then have h: "dict_get (receipts q) h = Some x" by (simp add: q1)
  have x: "x \<noteq> r" using receipts_okD(1) [OF R h] r by simp
  show "x < next_ref q1" using receipts_okD(1) [OF R h] r by (simp add: q1)
  show "\<not> deleted (obj q1 x)" "h \<in> set (receipt_handles (obj q1 x))" "distinct (receipt_handles (obj q1 x))"
    "\<forall>h' \<in> set (receipt_handles (obj q1 x)). dict_get (receipts q1) h' = Some x"
    using receipts_okD [OF R h] x by (simp_all add: q1)
qed

lemma queue_wf_unused:
  assumes wf: "queue_wf ws q" and new: "new_obj m q = (r, q1)"
  shows "queue_wf ws q1"
proof -
  have r: "r = next_ref q" and q1: "q1 = q\<lparr>objs := (objs q)(r := m), next_ref := Suc r\<rparr>"
    using new by (auto simp: new_obj_def)
  have old: "obj q1 x = obj q x" if "x < next_ref q" for x using that r by (simp add: q1)
  have R: "receipts_ok q1" by (rule receipts_ok_new [OF queue_wf_receipts [OF wf] new])
  show ?thesis
  proof (rule queue_wfI [OF _ _ _ _ _ R])
    have "map (mid q1) (ws @ inflight q @ delayed q) = map (mid q) (ws @ inflight q @ delayed q)"
      using queue_wf_ref [OF wf] old by (intro map_cong) auto
    moreover have "inflight q1 = inflight q" "delayed q1 = delayed q" by (simp_all add: q1)
    ultimately show "distinct (map (mid q1) (ws @ inflight q1 @ delayed q1))" using queue_wf_ids [OF wf] by (simp only:)
    fix x assume "x \<in> set (ws @ inflight q1 @ delayed q1)"
    then have x: "x \<in> set (ws @ inflight q @ delayed q)" by (simp add: q1)
    show "x < next_ref q1" "\<not> deleted (obj q1 x)" using queue_wf_ref [OF wf x] old [of x] r by (simp_all add: q1)
    show "dict_get (receipts q1) h = Some x" if "h \<in> set (receipt_handles (obj q1 x))" for h
      using queue_wf_handle [OF wf x, of h] that old [of x] queue_wf_ref [OF wf x] by (simp add: q1)
  next
    fix x assume "x \<in> set (delayed q1)"
    then have "x \<in> set (delayed q)" by (simp add: q1)
    then show "receipt_handles (obj q1 x) = []"
      using queue_wf_delayed [OF wf, of x] queue_wf_ref [OF wf, of x] old [of x] by simp
  qed
qed

lemma queue_wf_new:
  assumes wf: "queue_wf ws q" and fresh: "message_id m \<notin> mid q ` set (ws @ inflight q @ delayed q)"
    and m: "receipt_handles m = []" "\<not> deleted m" and new: "new_obj m q = (r, q1)"
  shows "queue_wf (r # ws) q1" "queue_wf ws (add_delayed_message r q1)"
proof -
  let ?all = "ws @ inflight q @ delayed q"
  have r: "r = next_ref q" and q1: "q1 = q\<lparr>objs := (objs q)(r := m), next_ref := Suc r\<rparr>"
    using new by (auto simp: new_obj_def)
  have old: "x \<noteq> r" if "x \<in> set ?all" for x using queue_wf_ref [OF wf that] r by blast
  have mids: "map (mid q1) xs = map (mid q) xs" if "set xs \<subseteq> set ?all" for xs
    using old that q1 by (intro map_cong) auto
  have "mid q1 r = message_id m" by (simp add: q1)
  then have d: "distinct (map (mid q1) (r # ?all))"
    using queue_wf_ids [OF wf] fresh unfolding list.map mids [OF subset_refl] by (simp add: image_Un)
  have rok: "receipts_ok q1" by (rule receipts_ok_new [OF queue_wf_receipts [OF wf] new])
  have rest: "x < next_ref q1 \<and> \<not> deleted (obj q1 x)"
    "\<forall>h \<in> set (receipt_handles (obj q1 x)). dict_get (receipts q1) h = Some x" if "x \<in> set (r # ?all)" for x
    using that old queue_wf_ref [OF wf, of x] queue_wf_handle [OF wf, of x] m r by (auto simp: q1)
  have del: "receipt_handles (obj q1 x) = []" if "x = r \<or> x \<in> set (delayed q)" for x
    using that old queue_wf_delayed [OF wf, of x] m by (auto simp: q1)
  have same: "inflight q1 = inflight q" "delayed q1 = delayed q" by (simp_all add: q1)
  show "queue_wf (r # ws) q1"
    unfolding queue_wf_def same append_Cons using d rok rest del by blast
  have "\<not> in_by_id q1 r (delayed q1)"
    using d by (auto simp: in_by_id_iff same simp del: fun_upd_apply)
  then have "add_delayed_message r q1 = q1\<lparr>delayed := delayed q @ [r]\<rparr>"
    by (simp add: add_delayed_message_def add_by_id_def same)
  moreover have "distinct (map (mid q1) (ws @ inflight q @ delayed q @ [r]))"
    using d mset_eq_imp_distinct_iff [of "map (mid q1) (r # ?all)" "map (mid q1) (ws @ inflight q @ delayed q @ [r])"]
    by (simp only: mset_map mset_append mset.simps) (simp add: ac_simps)
  moreover have "queue_wf ws q2" if d2: "distinct (map (mid q1) (ws @ inflight q @ delayed q @ [r]))"
    and q2: "q2 = q1\<lparr>delayed := delayed q @ [r]\<rparr>" for q2
  proof (rule queue_wfI)
    have s2: "objs q2 = objs q1" "inflight q2 = inflight q" "delayed q2 = delayed q @ [r]" "receipts q2 = receipts q1"
      "next_ref q2 = next_ref q1" by (simp_all add: q2 same)
    show "distinct (map (mid q2) (ws @ inflight q2 @ delayed q2))" using d2 unfolding s2 .
    show "receipts_ok q2" using rok unfolding receipts_ok_def s2 .
    fix x assume "x \<in> set (ws @ inflight q2 @ delayed q2)"
    then have "x \<in> set (r # ?all)" unfolding s2 by auto
    note rest [OF this]
    then show "x < next_ref q2" "\<not> deleted (obj q2 x)"
      "h \<in> set (receipt_handles (obj q2 x)) \<Longrightarrow> dict_get (receipts q2) h = Some x" for h
      unfolding s2 by blast+
  next
    fix x assume "x \<in> set (delayed q2)"
    then show "receipt_handles (obj q2 x) = []" using del [of x] by (auto simp: q2)
  qed
  ultimately show "queue_wf ws (add_delayed_message r q1)" by simp
qed

lemma queue_wf_to_inflight:
  assumes wf: "queue_wf ws0 q" and ws: "mset ws0 = add_mset r (mset ws)"
  shows "queue_wf ws (add_inflight_message r q)" "inflight (add_inflight_message r q) = inflight q @ [r]"
proof -
  have r: "r \<in> set ws0" using ws by (metis set_mset_mset union_single_eq_member)
  then show i: "inflight (add_inflight_message r q) = inflight q @ [r]"
    using queue_wf_not_elsewhere(1) [OF wf r] by (simp add: add_inflight_message_def add_by_id_def)
  have "set ws0 = insert r (set ws)" using ws by (metis set_mset_add_mset_insert set_mset_mset)
  then show "queue_wf ws (add_inflight_message r q)"
    using i by (intro queue_wf_shuffle [OF wf]) (auto simp: queue_ids_def ws add_inflight_message_def)
qed

lemma hand_out_simps:
  assumes "hand_out ext uid r q = (h, q1)"
  shows "h = create_receipt_handle ext uid q (obj q r)" "inflight q1 = inflight q" "delayed q1 = delayed q"
    "next_ref q1 = next_ref q" "receipts q1 = dict_set h r (receipts q)" "sqs_queue.more q1 = sqs_queue.more q"
    "objs q1 = (objs q)(r := (obj q r)\<lparr>receipt_handles := List.insert h (receipt_handles (obj q r))\<rparr>)"
    "queue_name q1 = queue_name q" "region q1 = region q" "account_id q1 = account_id q" "attributes q1 = attributes q"
    "is_shutdown q1 = is_shutdown q" "queue_tags q1 = queue_tags q"
  using assms by (auto simp: hand_out_def Let_def upd_obj_def)

lemma queue_wf_hand_out:
  assumes wf: "queue_wf ws q" and r: "r \<in> set ws" and out: "hand_out ext uid r q = (h, q1)"
    and fresh: "\<not> dict_has (receipts q) h"
  shows "queue_wf ws q1"
proof (rule queue_wfI)
  note R = queue_wf_receipts [OF wf]
  note s = hand_out_simps [OF out]
  have none: "dict_get (receipts q) h = None" using fresh by (simp add: map_of_eq_None_iff)
  have handles: "receipt_handles (obj q1 x) =
      (if x = r then List.insert h (receipt_handles (obj q r)) else receipt_handles (obj q x))" for x by (simp add: s)
  have same: "mid q1 x = mid q x" "deleted (obj q1 x) = deleted (obj q x)" for x by (simp_all add: s)
  have get: "dict_get (receipts q1) k = (if k = h then Some r else dict_get (receipts q) k)" for k by (simp add: s)
  show "distinct (map (mid q1) (ws @ inflight q1 @ delayed q1))" using queue_wf_ids [OF wf] unfolding same s(2,3) .
  show "x < next_ref q1" "\<not> deleted (obj q1 x)" if "x \<in> set (ws @ inflight q1 @ delayed q1)" for x
    using queue_wf_ref [OF wf] that unfolding same s(2-4) by blast+
  show "dict_get (receipts q1) k = Some x"
    if "x \<in> set (ws @ inflight q1 @ delayed q1)" "k \<in> set (receipt_handles (obj q1 x))" for x k
    using that queue_wf_handle [OF wf, of x k] none unfolding handles get s(2,3) by (auto split: if_splits)
  show "receipt_handles (obj q1 x) = []" if "x \<in> set (delayed q1)" for x
    using that queue_wf_delayed [OF wf, of x] queue_wf_not_elsewhere(3) [OF wf r] unfolding handles s(3) by auto
  show "receipts_ok q1"
    unfolding receipts_ok_def
  proof (intro conjI allI impI)
    show "dict_wf (receipts q1)" using R by (simp add: s receipts_ok_def)
    fix k x assume "dict_get (receipts q1) k = Some x"
    then have kx: "k = h \<and> x = r \<or> k \<noteq> h \<and> dict_get (receipts q) k = Some x"
      unfolding get by (simp split: if_splits)
    have handle_x: "dict_get (receipts q) h' = Some x" if "h' \<in> set (receipt_handles (obj q x))" for h'
      using kx that queue_wf_handle [OF wf, of r h'] r receipts_okD(5) [OF R, of k x h'] by auto
    have x1: "x < next_ref q \<and> \<not> deleted (obj q x)"
      using kx queue_wf_ref [OF wf, of r] r receipts_okD(1,2) [OF R, of k x] by auto
    have "distinct (receipt_handles (obj q x))"
    proof (cases "receipt_handles (obj q x)")
      case (Cons h' hs)
      then show ?thesis using receipts_okD(4) [OF R handle_x [of h']] by simp
    qed simp
    note x = x1 this handle_x
    show "x < next_ref q1" "\<not> deleted (obj q1 x)" using x same s(4) by simp_all
    show "k \<in> set (receipt_handles (obj q1 x))"
      using kx receipts_okD(3) [OF R, of k x] unfolding handles by (elim disjE) auto
    show "distinct (receipt_handles (obj q1 x))" using x unfolding handles by (auto simp: distinct_insert)
    show "\<forall>h' \<in> set (receipt_handles (obj q1 x)). dict_get (receipts q1) h' = Some x"
      using x none unfolding handles get by (auto split: if_splits)
  qed
qed

lemma del_receipts_ok:
  "distinct hs \<Longrightarrow> (\<And>h. h \<in> set hs \<Longrightarrow> dict_has d h) \<Longrightarrow>
   del_receipts hs d = (Inr (), filter (\<lambda>kv. fst kv \<notin> set hs) d)"
proof (induction hs arbitrary: d)
  case (Cons h hs)
  have "dict_has (dict_del h d) x" if "x \<in> set hs" for x
    using that Cons.prems by (auto simp: delete_keys)
  then have "del_receipts hs (dict_del h d) = (Inr (), filter (\<lambda>kv. fst kv \<notin> set hs) (dict_del h d))"
    using Cons by simp
  then show ?case
    using Cons.prems by (simp add: AList.delete_eq case_prod_unfold conj_commute eq_commute [of h])
qed simp

lemma map_of_filter_keys:
  "map_of (filter (\<lambda>kv. fst kv \<notin> A) d) k = (if k \<in> A then None else map_of d k)"
  by (induction d) auto

text \<open>Deleting message \<open>r\<close>: its handles leave the receipts and no container keeps it.\<close>

lemma queue_wf_delete:
  assumes wf: "queue_wf ws q" and h: "dict_get (receipts q) h = Some r"
    and objs: "objs q' = (objs q)(r := (obj q r)\<lparr>deleted := True, receipt_handles := []\<rparr>)"
    and receipts: "receipts q' = filter (\<lambda>kv. fst kv \<notin> set (receipt_handles (obj q r))) (receipts q)"
    and nref: "next_ref q' = next_ref q"
    and ids: "queue_ids ws' q' \<subseteq># queue_ids ws q"
    and refs: "set (ws' @ inflight q' @ delayed q') \<subseteq> set (ws @ inflight q @ delayed q) - {r}"
    and del: "set (delayed q') \<subseteq> set (delayed q)"
  shows "queue_wf ws' q'"
proof (rule queue_wfI)
  note R = queue_wf_receipts [OF wf]
  have other: "obj q' x = obj q x" if "x \<noteq> r" for x using that by (simp add: objs)
  have get: "dict_get (receipts q') k = (if k \<in> set (receipt_handles (obj q r)) then None else dict_get (receipts q) k)" for k
    by (simp add: receipts map_of_filter_keys)
  have "mset (map (mid q') (ws' @ inflight q' @ delayed q')) \<subseteq># mset (map (mid q) (ws @ inflight q @ delayed q))"
    using ids by (simp add: queue_ids_def ac_simps)
  then show "distinct (map (mid q') (ws' @ inflight q' @ delayed q'))"
    using distinct_subset_mset queue_wf_ids [OF wf] by blast
  have own: "k \<notin> set (receipt_handles (obj q r))" if "x \<noteq> r" "dict_get (receipts q) k = Some x" for x k
    using receipts_okD(5) [OF R h, of k] that by auto
  have old: "x \<in> set (ws @ inflight q @ delayed q)" "x \<noteq> r" if "x \<in> set (ws' @ inflight q' @ delayed q')" for x
    using refs that by blast+
  show "x < next_ref q'" "\<not> deleted (obj q' x)" if "x \<in> set (ws' @ inflight q' @ delayed q')" for x
    using old [OF that] other [of x] queue_wf_ref [OF wf, of x] nref by simp_all
  show "dict_get (receipts q') k = Some x"
    if "x \<in> set (ws' @ inflight q' @ delayed q')" "k \<in> set (receipt_handles (obj q' x))" for x k
    using that(2) old [OF that(1)] other [of x] queue_wf_handle [OF wf, of x k] own [of x k] unfolding get by auto
  show "receipt_handles (obj q' x) = []" if "x \<in> set (delayed q')" for x
    using that del other [of x] old [of x] queue_wf_delayed [OF wf, of x] by auto
  show "receipts_ok q'"
    unfolding receipts_ok_def
  proof (intro conjI allI impI)
    show "dict_wf (receipts q')" using R by (simp add: receipts receipts_ok_def distinct_map_filter)
    fix k x assume "dict_get (receipts q') k = Some x"
    then have k: "k \<notin> set (receipt_handles (obj q r))" "dict_get (receipts q) k = Some x"
      unfolding get by (auto split: if_splits)
    then have x: "x \<noteq> r" using receipts_okD(3) [OF R, of k x] by auto
    show "x < next_ref q'" "\<not> deleted (obj q' x)" "k \<in> set (receipt_handles (obj q' x))"
      "distinct (receipt_handles (obj q' x))"
      using receipts_okD [OF R k(2)] x nref by (simp_all add: other)
    show "\<forall>h' \<in> set (receipt_handles (obj q' x)). dict_get (receipts q') h' = Some x"
      using receipts_okD(5) [OF R k(2)] own x unfolding other [OF x] get by auto
  qed
qed

lemma queue_wf_clear: "queue_wf [] (clear_base q)"
  by (rule queue_wfI) (simp_all add: clear_base_def receipts_ok_def)

lemma remove_by_id_remove1: "distinct (map (mid q) rs) \<Longrightarrow> r \<in> set rs \<Longrightarrow> remove_by_id q r rs = remove1 r rs"
  by (induction rs) (auto simp: image_iff)

text \<open>Handles made from the coming identifiers are new and differ from each other.\<close>

definition fresh_handles :: "externals \<Rightarrow> (nat \<Rightarrow> string) \<Rightarrow> 'a sqs_queue_scheme \<Rightarrow> bool" where
  "fresh_handles ext fresh q \<longleftrightarrow>
     (\<forall>i m. \<not> dict_has (receipts q) (create_receipt_handle ext (fresh i) q m)) \<and>
     (\<forall>i j m m'. create_receipt_handle ext (fresh i) q m = create_receipt_handle ext (fresh j) q m' \<longrightarrow> i = j)"

lemma create_receipt_handle_cong:
  "queue_arn q = queue_arn q' \<Longrightarrow> create_receipt_handle ext uid q m = create_receipt_handle ext uid q' m"
  by (simp add: create_receipt_handle_def)

lemma fresh_handles_step:
  assumes "fresh_handles ext fresh q" "queue_arn q1 = queue_arn q"
    and "receipts q1 = dict_set (create_receipt_handle ext (fresh 0) q m) r (receipts q)"
  shows "fresh_handles ext (\<lambda>i. fresh (Suc i)) q1"
proof -
  note c = create_receipt_handle_cong [OF assms(2)]
  have "create_receipt_handle ext (fresh (Suc i)) q m' \<noteq> create_receipt_handle ext (fresh 0) q m" for i m'
    using assms(1) unfolding fresh_handles_def by blast
  moreover have "create_receipt_handle ext (fresh (Suc i)) q m = create_receipt_handle ext (fresh (Suc j)) q m' \<Longrightarrow> i = j"
    for i j m m' using assms(1) unfolding fresh_handles_def by blast
  ultimately show ?thesis
    using assms(1) unfolding fresh_handles_def c assms(3) by (simp add: update_keys)
qed

subsection \<open>The contract between the base class and its subclasses\<close>

text \<open>
  \<open>waiting\<close> lists the messages a subclass holds ready for reception, \<open>put_message\<close> is its
  \<open>_put_message\<close> and \<open>ok\<close> its own invariant. \<open>_put_message\<close> adds the message to the waiting ones and changes
  nothing of the base class; the subclass part does not depend on the base fields except through the
  priority and the group of the messages it holds.
\<close>

locale queue_class =
  fixes waiting :: "'a sqs_queue_scheme \<Rightarrow> ref list"
    and put_message :: "ref \<Rightarrow> 'a sqs_queue_scheme \<Rightarrow> 'a sqs_queue_scheme"
    and ok :: "'a sqs_queue_scheme \<Rightarrow> bool"
  assumes put_waiting: "mset (waiting (put_message r q)) = add_mset r (mset (waiting q))"
    and put_base: "sqs_queue.truncate (put_message r q) = sqs_queue.truncate q"
    and waiting_more: "sqs_queue.more q = sqs_queue.more q' \<Longrightarrow> waiting q = waiting q'"
    and ok_put: "ok q \<Longrightarrow> r < next_ref q \<Longrightarrow> ok (put_message r q)"
    and ok_frame: "ok q \<Longrightarrow> sqs_queue.more q' = sqs_queue.more q \<Longrightarrow> next_ref q \<le> next_ref q' \<Longrightarrow>
      (\<And>r. r < next_ref q \<Longrightarrow> priority (obj q' r) = priority (obj q r) \<and>
         message_group_id (obj q' r) = message_group_id (obj q r)) \<Longrightarrow> ok q'"
begin

lemma put_simps [simp]:
  "inflight (put_message r q) = inflight q" "delayed (put_message r q) = delayed q"
  "receipts (put_message r q) = receipts q" "next_ref (put_message r q) = next_ref q"
  "objs (put_message r q) = objs q" "attributes (put_message r q) = attributes q"
  "queue_name (put_message r q) = queue_name q" "region (put_message r q) = region q"
  "account_id (put_message r q) = account_id q" "is_shutdown (put_message r q) = is_shutdown q"
  "queue_tags (put_message r q) = queue_tags q"
  using put_base [of r q] by (simp_all add: sqs_queue.truncate_def)

lemma put_set [simp]: "set (waiting (put_message r q)) = insert r (set (waiting q))"
  using put_waiting [of r q] by (metis set_mset_add_mset_insert set_mset_mset)

lemma waiting_upd [simp]:
  "waiting (q\<lparr>inflight := x\<rparr>) = waiting q" "waiting (q\<lparr>delayed := x\<rparr>) = waiting q"
  "waiting (q\<lparr>receipts := y\<rparr>) = waiting q" "waiting (upd_obj r f q) = waiting q"
  "waiting (q\<lparr>attributes := z\<rparr>) = waiting q"
  by (rule waiting_more; simp add: upd_obj_def)+

lemma ok_upd [simp]:
  "ok q \<Longrightarrow> ok (q\<lparr>inflight := x\<rparr>)" "ok q \<Longrightarrow> ok (q\<lparr>delayed := x\<rparr>)" "ok q \<Longrightarrow> ok (q\<lparr>receipts := y\<rparr>)"
  "ok q \<Longrightarrow> ok (q\<lparr>attributes := z\<rparr>)"
  by (erule ok_frame; simp)+

lemma ok_upd_obj:
  "ok q \<Longrightarrow> priority (f (obj q r)) = priority (obj q r) \<Longrightarrow>
   message_group_id (f (obj q r)) = message_group_id (obj q r) \<Longrightarrow> ok (upd_obj r f q)"
  by (erule ok_frame) (auto simp: upd_obj_def)

text \<open>One message leaves the in-flight dict (or the delayed set) and becomes visible.\<close>

lemma requeue_step:
  assumes wf: "queue_wf (waiting q) q" and "ok q" "r \<in> set (inflight q)"
    and q': "q' = put_message r (q\<lparr>inflight := remove_by_id q r (inflight q)\<rparr>)"
  shows "queue_wf (waiting q') q'" "ok q'" "inflight q' = remove1 r (inflight q)"
proof -
  have d: "distinct (map (mid q) (inflight q))" using queue_wf_ids [OF wf] by simp
  show i: "inflight q' = remove1 r (inflight q)" using remove_by_id_remove1 [OF d assms(3)] by (simp add: q')
  have m: "mset (inflight q) = add_mset r (mset (inflight q'))" using assms(3) i by simp
  have "set (inflight q') \<subseteq> set (inflight q)" by (simp add: i set_remove1_subset)
  then show "queue_wf (waiting q') q'"
    using assms(3) by (intro queue_wf_shuffle [OF wf]) (auto simp: q' queue_ids_def put_waiting m [unfolded q'])
  show "ok q'" using assms(2,3) queue_wf_ref [OF wf, of r] by (simp add: q' ok_put)
qed

lemma enqueue_step:
  assumes wf: "queue_wf (waiting q) q" and "ok q" "r \<in> set (delayed q)"
    and q': "q' = put_message r (q\<lparr>delayed := remove_by_id q r (delayed q)\<rparr>)"
  shows "queue_wf (waiting q') q'" "ok q'" "delayed q' = remove1 r (delayed q)"
proof -
  have d: "distinct (map (mid q) (delayed q))" using queue_wf_ids [OF wf] by simp
  show i: "delayed q' = remove1 r (delayed q)" using remove_by_id_remove1 [OF d assms(3)] by (simp add: q')
  have m: "mset (delayed q) = add_mset r (mset (delayed q'))" using assms(3) i by simp
  have "set (delayed q') \<subseteq> set (delayed q)" by (simp add: i set_remove1_subset)
  then show "queue_wf (waiting q') q'"
    using assms(3) by (intro queue_wf_shuffle [OF wf]) (auto simp: q' queue_ids_def put_waiting m [unfolded q'])
  show "ok q'" using assms(2,3) queue_wf_ref [OF wf, of r] by (simp add: q' ok_put)
qed

lemma requeue_fold:
  assumes "queue_wf (waiting q) q" "ok q" "distinct rs" "set rs \<subseteq> set (inflight q)"
    and "q' = fold (\<lambda>r acc. put_message r (acc\<lparr>inflight := remove_by_id acc r (inflight acc)\<rparr>)) rs q"
  shows "queue_wf (waiting q') q' \<and> ok q' \<and> mset (waiting q') = mset (waiting q) + mset rs \<and>
    inflight q' = filter (\<lambda>r. r \<notin> set rs) (inflight q) \<and> delayed q' = delayed q \<and> objs q' = objs q \<and>
    receipts q' = receipts q \<and> next_ref q' = next_ref q \<and> attributes q' = attributes q \<and> queue_arn q' = queue_arn q \<and>
    is_shutdown q' = is_shutdown q"
  using assms
proof (induction rs arbitrary: q)
  case (Cons r rs)
  define q1 where "q1 = put_message r (q\<lparr>inflight := remove_by_id q r (inflight q)\<rparr>)"
  have r: "r \<in> set (inflight q)" using Cons.prems(4) by simp
  note s = requeue_step [OF Cons.prems(1,2) r q1_def]
  have "distinct (map (mid q) (inflight q))" using queue_wf_ids [OF Cons.prems(1)] by simp
  then have "distinct (inflight q)" by (simp add: distinct_map)
  then have i: "inflight q1 = filter (\<lambda>x. x \<noteq> r) (inflight q)"
    using s(3) by (simp add: distinct_remove1_removeAll removeAll_filter_not_eq eq_commute [of r])
  have "set rs \<subseteq> set (inflight q1)" using Cons.prems(3,4) i by auto
  note IH = Cons.IH [OF s(1,2) _ this]
  have "queue_arn q1 = queue_arn q" by (rule queue_arn_cong) (simp_all add: q1_def)
  then show ?case using IH Cons.prems(3,5) i by (simp add: q1_def put_waiting conj_commute)
qed simp

lemma enqueue_fold:
  assumes "queue_wf (waiting q) q" "ok q" "distinct rs" "set rs \<subseteq> set (delayed q)"
    and "q' = fold (\<lambda>r acc. put_message r (acc\<lparr>delayed := remove_by_id acc r (delayed acc)\<rparr>)) rs q"
  shows "queue_wf (waiting q') q' \<and> ok q' \<and> mset (waiting q') = mset (waiting q) + mset rs \<and>
    delayed q' = filter (\<lambda>r. r \<notin> set rs) (delayed q) \<and> inflight q' = inflight q \<and> objs q' = objs q \<and>
    receipts q' = receipts q \<and> next_ref q' = next_ref q \<and> attributes q' = attributes q \<and> queue_arn q' = queue_arn q \<and>
    is_shutdown q' = is_shutdown q"
  using assms
proof (induction rs arbitrary: q)
  case (Cons r rs)
  define q1 where "q1 = put_message r (q\<lparr>delayed := remove_by_id q r (delayed q)\<rparr>)"
  have r: "r \<in> set (delayed q)" using Cons.prems(4) by simp
  note s = enqueue_step [OF Cons.prems(1,2) r q1_def]
  have "distinct (map (mid q) (delayed q))" using queue_wf_ids [OF Cons.prems(1)] by simp
  then have "distinct (delayed q)" by (simp add: distinct_map)
  then have i: "delayed q1 = filter (\<lambda>x. x \<noteq> r) (delayed q)"
    using s(3) by (simp add: distinct_remove1_removeAll removeAll_filter_not_eq eq_commute [of r])
  have "set rs \<subseteq> set (delayed q1)" using Cons.prems(3,4) i by auto
  note IH = Cons.IH [OF s(1,2) _ this]
  have "queue_arn q1 = queue_arn q" by (rule queue_arn_cong) (simp_all add: q1_def)
  then show ?case using IH Cons.prems(3,5) i by (simp add: q1_def put_waiting conj_commute)
qed simp

lemma requeue_spec:
  assumes "queue_wf (waiting q) q" "ok q" "q' = requeue_inflight_messages put_message now q"
  shows "queue_wf (waiting q') q'" "ok q'"
    "mset (waiting q') = mset (waiting q) + mset (filter (\<lambda>r. is_visible now (obj q r)) (inflight q))"
    "inflight q' = filter (\<lambda>r. \<not> is_visible now (obj q r)) (inflight q)"
    "delayed q' = delayed q" "objs q' = objs q" "receipts q' = receipts q" "next_ref q' = next_ref q"
    "attributes q' = attributes q" "queue_arn q' = queue_arn q" "is_shutdown q' = is_shutdown q"
proof -
  have "distinct (map (mid q) (inflight q))" using queue_wf_ids [OF assms(1)] by simp
  then have "distinct (filter (\<lambda>r. is_visible now (obj q r)) (inflight q))" by (simp add: distinct_map)
  note fold = requeue_fold [OF assms(1,2) this _ assms(3) [unfolded requeue_inflight_messages_def]]
  have "filter (\<lambda>r. r \<notin> set (filter (\<lambda>r. is_visible now (obj q r)) (inflight q))) (inflight q) =
      filter (\<lambda>r. \<not> is_visible now (obj q r)) (inflight q)" by (rule filter_cong) auto
  then show "inflight q' = filter (\<lambda>r. \<not> is_visible now (obj q r)) (inflight q)" using fold by auto
qed (use requeue_fold [OF assms(1,2) _ _ assms(3) [unfolded requeue_inflight_messages_def]]
      queue_wf_ids [OF assms(1)] in \<open>auto simp: distinct_map\<close>)

lemma enqueue_spec:
  assumes "queue_wf (waiting q) q" "ok q" "q' = enqueue_delayed_messages put_message now q"
  shows "queue_wf (waiting q') q'" "ok q'"
    "mset (waiting q') = mset (waiting q) + mset (filter (\<lambda>r. \<not> is_delayed now (obj q r)) (delayed q))"
    "delayed q' = filter (\<lambda>r. is_delayed now (obj q r)) (delayed q)"
    "inflight q' = inflight q" "objs q' = objs q" "receipts q' = receipts q" "next_ref q' = next_ref q"
    "attributes q' = attributes q" "queue_arn q' = queue_arn q" "is_shutdown q' = is_shutdown q"
proof -
  have "distinct (map (mid q) (delayed q))" using queue_wf_ids [OF assms(1)] by simp
  then have "distinct (filter (\<lambda>r. \<not> is_delayed now (obj q r)) (delayed q))" by (simp add: distinct_map)
  note fold = enqueue_fold [OF assms(1,2) this _ assms(3) [unfolded enqueue_delayed_messages_def]]
  have "filter (\<lambda>r. r \<notin> set (filter (\<lambda>r. \<not> is_delayed now (obj q r)) (delayed q))) (delayed q) =
      filter (\<lambda>r. is_delayed now (obj q r)) (delayed q)" by (rule filter_cong) auto
  then show "delayed q' = filter (\<lambda>r. is_delayed now (obj q r)) (delayed q)" using fold by auto
qed (use enqueue_fold [OF assms(1,2) _ _ assms(3) [unfolded enqueue_delayed_messages_def]]
      queue_wf_ids [OF assms(1)] in \<open>auto simp: distinct_map\<close>)

lemma update_visibility_spec:
  assumes wf: "queue_wf (waiting q) q" and "ok q"
    and out: "queue_update_visibility_timeout put_message ext now h v q = (res, q')"
  shows "queue_wf (waiting q') q' \<and> ok q' \<and> queue_ids (waiting q') q' = queue_ids (waiting q) q \<and>
    delayed q' = delayed q \<and> receipts q' = receipts q \<and> next_ref q' = next_ref q \<and> queue_arn q' = queue_arn q"
proof (cases "q' = q")
  case False
  let ?f = "update_visibility_timeout now v"
  obtain r where r: "dict_get (receipts q) h = Some r" "in_by_id q r (inflight q)"
    using out False by (auto simp: queue_update_visibility_timeout_def split: sum.splits option.splits if_splits)
  define q1 where "q1 = upd_obj r ?f q"
  have same: "mid q1 x = mid q x" "deleted (obj q1 x) = deleted (obj q x)"
    "receipt_handles (obj q1 x) = receipt_handles (obj q x)" for x
    by (simp_all add: q1_def update_visibility_timeout_def)
  have ok1: "ok q1"
    unfolding q1_def by (rule ok_upd_obj) (simp_all add: assms(2) update_visibility_timeout_def message_group_id_def msg_attributes_def)
  have arn1: "queue_arn q1 = queue_arn q" by (rule queue_arn_cong) (simp_all add: q1_def)
  have ids1: "queue_ids (waiting q1) q1 = queue_ids (waiting q) q"
    unfolding queue_ids_def same by (simp add: q1_def)
  have sel: "inflight q1 = inflight q" "delayed q1 = delayed q" "receipts q1 = receipts q" "next_ref q1 = next_ref q"
    "waiting q1 = waiting q" by (simp_all add: q1_def)
  have wf1: "queue_wf (waiting q1) q1"
    by (rule queue_wf_shuffle [OF wf]) (auto simp: same ids1 [unfolded sel] sel)
  define q2 where "q2 = put_message r (q1\<lparr>inflight := remove_by_id q1 r (inflight q1)\<rparr>)"
  have q': "q' = (if v = 0 then q2 else q1)"
    using out r False by (auto simp: queue_update_visibility_timeout_def Let_def q1_def q2_def split: sum.splits)
  have r1: "in_by_id q1 r (inflight q1)" using r(2) unfolding in_by_id_def same by (simp add: q1_def)
  obtain r' where r': "mid q1 r' = mid q1 r" "mset (inflight q1) = add_mset r' (mset (remove_by_id q1 r (inflight q1)))"
    using remove_by_id_mset [OF r1] by blast
  have ids2: "queue_ids (waiting q2) q2 = queue_ids (waiting q1) q1"
    unfolding queue_ids_def r'(2) by (simp add: q2_def put_waiting r'(1) [symmetric])
  have arn2: "queue_arn q2 = queue_arn q" unfolding arn1 [symmetric] by (rule queue_arn_cong) (simp_all add: q2_def)
  have "dict_get (receipts q1) h = Some r" using r(1) by (simp add: q1_def)
  then have "queue_wf (waiting q2) q2"
    using set_remove_by_id [of q1 r "inflight q1"]
    by (intro queue_wf_shuffle [OF wf1]) (auto simp: ids2, auto simp: q2_def intro: ranI)
  moreover have "ok q2"
    using ok1 receipts_okD(1) [OF queue_wf_receipts [OF wf1]] \<open>dict_get (receipts q1) h = Some r\<close>
    by (simp add: q2_def ok_put)
  ultimately show ?thesis
    using wf1 ok1 ids1 ids2 arn1 arn2 by (simp add: q') (simp add: q2_def q1_def)
qed (use assms in auto)

lemma hand_out_all_spec:
  assumes "queue_wf (waiting q @ rs) q" "ok q" "fresh_handles ext fresh q"
    and "hand_out_all put_message ext fresh rs q = (hs, q')"
  shows "queue_wf (waiting q') q' \<and> ok q' \<and>
    mset (waiting q') + mset (inflight q') = mset (waiting q) + mset (inflight q) + mset rs \<and>
    delayed q' = delayed q \<and> next_ref q' = next_ref q \<and> queue_arn q' = queue_arn q \<and> attributes q' = attributes q \<and>
    is_shutdown q' = is_shutdown q \<and> length hs = length rs"
  using assms
proof (induction rs arbitrary: q fresh hs)
  case (Cons r rs)
  obtain h q1 where h: "hand_out ext (fresh 0) r q = (h, q1)" by fastforce
  note s = hand_out_simps [OF h]
  define q2 where "q2 = (if visibility_timeout (obj q1 r) = Some 0 then put_message r q1 else add_inflight_message r q1)"
  obtain hs' where hs': "hand_out_all put_message ext (\<lambda>i. fresh (Suc i)) rs q2 = (hs', q')" "hs = h # hs'"
    using Cons.prems(4) h by (auto simp: q2_def Let_def split: prod.splits)
  have w1: "waiting q1 = waiting q" by (rule waiting_more) (rule s)
  have "\<not> dict_has (receipts q) h" using Cons.prems(3) s(1) unfolding fresh_handles_def by blast
  then have wf1: "queue_wf (waiting q @ r # rs) q1"
    using queue_wf_hand_out [OF Cons.prems(1) _ h] by simp
  have ok1: "ok q1"
    by (rule ok_frame [OF Cons.prems(2)]) (simp_all add: s message_group_id_def msg_attributes_def)
  have ms: "mset (waiting q @ r # rs) = add_mset r (mset (waiting q @ rs))" by simp
  have r: "r < next_ref q1" using queue_wf_ref [OF wf1, of r] by simp
  have wf2: "queue_wf (waiting q2 @ rs) q2"
  proof (cases "visibility_timeout (obj q1 r) = Some 0")
    case True
    then have q2: "q2 = put_message r q1" by (simp add: q2_def)
    show ?thesis unfolding q2
      by (rule queue_wf_shuffle [OF wf1]) (auto simp: queue_ids_def put_waiting w1)
  next
    case False
    then show ?thesis
      using queue_wf_to_inflight(1) [OF wf1 ms] by (simp add: q2_def add_inflight_message_def w1)
  qed
  have ok2: "ok q2" using ok1 r by (simp add: q2_def ok_put add_inflight_message_def)
  have arn: "queue_arn q2 = queue_arn q" by (rule queue_arn_cong) (simp_all add: q2_def add_inflight_message_def s)
  have "receipts q2 = dict_set h r (receipts q)" by (simp add: q2_def add_inflight_message_def s)
  then have "fresh_handles ext (\<lambda>i. fresh (Suc i)) q2"
    using fresh_handles_step [OF Cons.prems(3) arn] s(1) by blast
  note IH = Cons.IH [OF wf2 ok2 this hs'(1)]
  have m2: "mset (waiting q2) + mset (inflight q2) = add_mset r (mset (waiting q) + mset (inflight q))"
    using queue_wf_to_inflight(2) [OF wf1 ms]
    by (simp add: q2_def put_waiting w1 s) (simp add: add_inflight_message_def w1)
  have rest: "delayed q2 = delayed q" "next_ref q2 = next_ref q" "attributes q2 = attributes q" "is_shutdown q2 = is_shutdown q"
    by (simp_all add: q2_def add_inflight_message_def s)
  show ?case using IH hs'(2) unfolding m2 arn rest by simp
qed simp

end

subsection \<open>Removal\<close>

definition forget_message :: "ref \<Rightarrow> 'a sqs_queue_scheme \<Rightarrow> 'a sqs_queue_scheme" where
  "forget_message r q = q\<lparr>receipts := filter (\<lambda>kv. fst kv \<notin> set (receipt_handles (obj q r))) (receipts q),
     objs := (objs q)(r := (obj q r)\<lparr>deleted := True, receipt_handles := []\<rparr>)\<rparr>"

lemma forget_message_simps [simp]:
  "receipts (forget_message r q) = filter (\<lambda>kv. fst kv \<notin> set (receipt_handles (obj q r))) (receipts q)"
  "objs (forget_message r q) = (objs q)(r := (obj q r)\<lparr>deleted := True, receipt_handles := []\<rparr>)"
  "inflight (forget_message r q) = inflight q" "delayed (forget_message r q) = delayed q"
  "next_ref (forget_message r q) = next_ref q" "attributes (forget_message r q) = attributes q"
  "queue_name (forget_message r q) = queue_name q" "region (forget_message r q) = region q"
  "account_id (forget_message r q) = account_id q" "sqs_queue.more (forget_message r q) = sqs_queue.more q"
  by (simp_all add: forget_message_def)

text \<open>
  The contract of \<open>_on_remove_message\<close>: it may take messages out of the waiting ones and out of flight, and
  after it the removed message is in neither, provided the subclass can find it there (\<open>can_remove\<close>).
\<close>

locale removing_queue_class = queue_class waiting put_message ok
  for waiting :: "'a sqs_queue_scheme \<Rightarrow> ref list"
    and put_message :: "ref \<Rightarrow> 'a sqs_queue_scheme \<Rightarrow> 'a sqs_queue_scheme"
    and ok :: "'a sqs_queue_scheme \<Rightarrow> bool" +
  fixes on_remove :: "ref \<Rightarrow> 'a sqs_queue_scheme \<Rightarrow> 'a sqs_queue_scheme"
    and can_remove :: "ref \<Rightarrow> 'a sqs_queue_scheme \<Rightarrow> bool"
  assumes on_remove_base:
      "sqs_queue.truncate (on_remove r q) = (sqs_queue.truncate q)\<lparr>inflight := inflight (on_remove r q)\<rparr>"
    and on_remove_sub: "mset (waiting (on_remove r q)) + mset (inflight (on_remove r q)) \<subseteq># mset (waiting q) + mset (inflight q)"
    and on_remove_gone: "can_remove r q \<Longrightarrow> distinct (map (mid q) (waiting q @ inflight q)) \<Longrightarrow>
      r \<notin> set (waiting (on_remove r q)) \<union> set (inflight (on_remove r q))"
    and on_remove_ok: "ok q \<Longrightarrow> ok (on_remove r q)"
    and can_remove_more: "sqs_queue.more q = sqs_queue.more q' \<Longrightarrow> can_remove r q = can_remove r q'"
begin

lemma on_remove_simps [simp]:
  "delayed (on_remove r q) = delayed q" "receipts (on_remove r q) = receipts q"
  "next_ref (on_remove r q) = next_ref q" "objs (on_remove r q) = objs q"
  "attributes (on_remove r q) = attributes q" "queue_name (on_remove r q) = queue_name q"
  "region (on_remove r q) = region q" "account_id (on_remove r q) = account_id q"
  "is_shutdown (on_remove r q) = is_shutdown q" "queue_tags (on_remove r q) = queue_tags q"
  using on_remove_base [of r q] by (simp_all add: sqs_queue.truncate_def)

lemma waiting_forget [simp]: "waiting (forget_message r q) = waiting q"
  by (rule waiting_more) (simp add: forget_message_def)

lemma queue_remove_cases:
  assumes wf: "queue_wf (waiting q) q" and h: "dict_get (receipts q) h = Some r"
    and v: "validate_receipt_handle ext q h = Inr ()" and pre: "pre (obj q r) h = Inr ()"
  shows "queue_remove pre on_remove ext h q = (Inr (), on_remove r (forget_message r q))"
proof -
  note R = receipts_okD [OF queue_wf_receipts [OF wf] h]
  have "dict_has (receipts q) k" if "k \<in> set (receipt_handles (obj q r))" for k
    using R(5) [OF that] by (metis dict_has_get)
  note del = del_receipts_ok [OF R(4) this]
  show ?thesis
    using h v pre del by (simp add: queue_remove_def forget_message_def Let_def upd_obj_def)
qed

lemma queue_remove_noop:
  "queue_remove pre on_remove ext h q = (res, q') \<Longrightarrow>
   dict_get (receipts q) h = None \<or> validate_receipt_handle ext q h \<noteq> Inr () \<or>
     pre (obj q (the (dict_get (receipts q) h))) h \<noteq> Inr () \<Longrightarrow> q' = q"
  by (auto simp: queue_remove_def split: sum.splits option.splits)

lemma forget_wf:
  assumes wf: "queue_wf (waiting q) q" and "ok q" and h: "dict_get (receipts q) h = Some r" and can: "can_remove r q"
    and q': "q' = on_remove r (forget_message r q)"
  shows "queue_wf (waiting q') q'" "ok q'" "r \<notin> set (waiting q' @ inflight q' @ delayed q')"
    "queue_ids (waiting q') q' \<subseteq># queue_ids (waiting q) q"
proof -
  let ?q1 = "forget_message r q"
  have mid1: "mid ?q1 x = mid q x" for x by simp
  have sub: "mset (waiting q') + mset (inflight q') \<subseteq># mset (waiting q) + mset (inflight q)"
    using on_remove_sub [of r ?q1] by (simp add: q')
  have mid': "mid q' x = mid q x" for x by (simp add: q')
  show ids: "queue_ids (waiting q') q' \<subseteq># queue_ids (waiting q) q"
    unfolding queue_ids_def mid' using image_mset_subseteq_mono [OF sub, of "mid q"] by (simp add: q')
  have "can_remove r ?q1" using can can_remove_more [of q ?q1 r] by simp
  moreover have "distinct (map (mid ?q1) (waiting ?q1 @ inflight ?q1))"
    using queue_wf_ids [OF wf] unfolding mid1 by (simp add: Int_Un_distrib)
  ultimately have "r \<notin> set (waiting q') \<union> set (inflight q')" unfolding q' by (rule on_remove_gone)
  moreover have "r \<notin> set (delayed q)"
    using queue_wf_delayed [OF wf, of r] receipts_okD(3) [OF queue_wf_receipts [OF wf] h] by auto
  ultimately show gone: "r \<notin> set (waiting q' @ inflight q' @ delayed q')" by (simp add: q')
  have "set (waiting q' @ inflight q') \<subseteq> set (waiting q @ inflight q)"
    using set_mset_mono [OF sub] by simp
  then have "set (waiting q' @ inflight q' @ delayed q') \<subseteq> set (waiting q @ inflight q @ delayed q) - {r}"
    using gone by (auto simp: q')
  then show "queue_wf (waiting q') q'"
    by (intro queue_wf_delete [OF wf h]) (simp_all add: ids, simp_all add: q')
  have "ok ?q1"
    by (rule ok_frame [OF assms(2)]) (simp_all add: message_group_id_def msg_attributes_def)
  then show "ok q'" unfolding q' by (rule on_remove_ok)
qed

lemma remove_spec:
  assumes wf: "queue_wf (waiting q) q" and "ok q" and out: "queue_remove pre on_remove ext h q = (res, q')"
    and can: "\<And>r. dict_get (receipts q) h = Some r \<Longrightarrow> pre (obj q r) h = Inr () \<Longrightarrow> can_remove r q"
  shows "queue_wf (waiting q') q' \<and> ok q' \<and> queue_ids (waiting q') q' \<subseteq># queue_ids (waiting q) q"
proof (cases "\<exists>r. dict_get (receipts q) h = Some r \<and> validate_receipt_handle ext q h = Inr () \<and> pre (obj q r) h = Inr ()")
  case True
  then obtain r where r: "dict_get (receipts q) h = Some r" "validate_receipt_handle ext q h = Inr ()"
    "pre (obj q r) h = Inr ()" by blast
  have "q' = on_remove r (forget_message r q)" using queue_remove_cases [OF wf r(1,2), of pre] r(3) out by simp
  then show ?thesis using forget_wf [OF wf assms(2) r(1) can [OF r(1,3)]] by blast
next
  case False
  then have "q' = q"
    by (intro queue_remove_noop [OF out]) (cases "dict_get (receipts q) h", auto)
  then show ?thesis using assms(1,2) by simp
qed

end

subsection \<open>Expired messages\<close>

lemma remove_expired_loop_spec:
  assumes "is_heap (\<lambda>r. priority (store r)) heap" "remove_expired_loop store th heap acc = (expired, heap')"
  shows "\<exists>xs. expired = acc @ xs \<and> mset heap = mset xs + mset heap' \<and> is_heap (\<lambda>r. priority (store r)) heap' \<and>
    (\<forall>r \<in> set xs. created (store r) \<le> th) \<and> (heap' = [] \<or> th < created (store (hd heap')))"
  using assms
proof (induction store th heap acc rule: remove_expired_loop.induct)
  case (1 store th heap acc)
  show ?case
  proof (cases "heappop (\<lambda>r. priority (store r)) heap")
    case None
    then have "heap = []" by simp
    moreover have "expired = acc" "heap' = heap"
      using 1(3) unfolding remove_expired_loop.simps [of store th heap acc] None option.case by simp_all
    ultimately show ?thesis using 1(2) by simp
  next
    case (Some rh)
    obtain r rest where pop: "heappop (\<lambda>r. priority (store r)) heap = Some (r, rest)" using Some by (cases rh) simp
    note spec = heappop_spec [OF 1(2) pop]
    show ?thesis
    proof (cases "th < created (store r)")
      case True
      then show ?thesis using 1(2,3) pop heappop_hd [OF pop] by (simp add: remove_expired_loop.simps [of store th heap acc])
    next
      case False
      then have "remove_expired_loop store th rest (acc @ [r]) = (expired, heap')"
        using 1(3) pop by (simp add: remove_expired_loop.simps [of store th heap acc])
      then obtain xs where "expired = (acc @ [r]) @ xs" "mset rest = mset xs + mset heap'"
        "is_heap (\<lambda>r. priority (store r)) heap'" "\<forall>r \<in> set xs. created (store r) \<le> th"
        "heap' = [] \<or> th < created (store (hd heap'))"
        using 1(1) [OF pop refl False] spec by blast
      then show ?thesis using spec False by (intro exI [of _ "r # xs"]) auto
    qed
  qed
qed

text \<open>
  The comment in the source notes the assumption that a message's priority is its time of creation;
  under it no expired message stays in the heap.
\<close>

lemma remove_expired_complete:
  assumes heap: "is_heap (\<lambda>r. priority (store r)) heap" and same: "\<forall>r \<in> set heap. created (store r) = priority (store r)"
    and out: "remove_expired_messages_from_heap store now retention heap = (expired, heap')"
  shows "mset heap = mset expired + mset heap'" "is_heap (\<lambda>r. priority (store r)) heap'"
    "\<forall>r \<in> set expired. created (store r) \<le> now - of_int retention"
    "\<forall>r \<in> set heap'. now - of_int retention < created (store r)"
proof -
  from remove_expired_loop_spec [OF heap out [unfolded remove_expired_messages_from_heap_def]]
  show m: "mset heap = mset expired + mset heap'" and h: "is_heap (\<lambda>r. priority (store r)) heap'"
    and "\<forall>r \<in> set expired. created (store r) \<le> now - of_int retention" by auto
  have root: "heap' = [] \<or> now - of_int retention < created (store (hd heap'))"
    using remove_expired_loop_spec [OF heap out [unfolded remove_expired_messages_from_heap_def]] by auto
  have "set heap = set expired \<union> set heap'" using m by (metis set_mset_mset set_mset_union)
  then have same': "created (store r) = priority (store r)" if "r \<in> set heap'" for r using that same by blast
  show "\<forall>r \<in> set heap'. now - of_int retention < created (store r)"
  proof
    fix r assume r: "r \<in> set heap'"
    then obtain i where i: "i < length heap'" "r = heap' ! i" by (auto simp: in_set_conv_nth)
    then have "priority (store (heap' ! 0)) \<le> priority (store r)" using heap_root_min [OF h] by simp
    moreover have "heap' \<noteq> []" using i by auto
    then have "hd heap' = heap' ! 0" "heap' ! 0 \<in> set heap'" by (simp_all add: hd_conv_nth)
    ultimately show "now - of_int retention < created (store r)" using root same' r i by (auto intro: less_le_trans)
  qed
qed

end
