(* ===== verification/SqsStandard.thy ===== *)
theory SqsStandard
  imports SqsQueueInv
begin

text \<open>
  \<open>services/sqs/models.py\<close>, class \<open>StandardQueue\<close>, and \<open>services/sqs/queue.py\<close>. The visible messages
  are a heap ordered by the time of sending.
\<close>

subsection \<open>Interruptible queues\<close>

text \<open>
  \<open>InterruptibleQueue.get\<close>: \<open>None\<close> is the \<open>Empty\<close> exception. A blocking call on an empty queue waits; it
  ends with \<open>Empty\<close> at its deadline or on shutdown, and a message that arrives in the meantime makes
  it behave as a call made at that later moment.
\<close>

definition interruptible_get ::
  "('q \<Rightarrow> ('x \<times> 'q) option) \<Rightarrow> bool \<Rightarrow> bool \<Rightarrow> int \<Rightarrow> 'q \<Rightarrow> ('x \<times> 'q) option result" where
  "interruptible_get pop shut block timeout items =
     (if shut then Inr None
      else if block \<and> timeout < 0 then Inl (ValueError ([CHR 0x27] @ ''timeout'' @ [CHR 0x27] @ '' must be a non-negative number''))
      else Inr (pop items))"

subsection \<open>State and operations\<close>

record standard_queue = sqs_queue +
  visible :: "ref list"

abbreviation msg_priority :: "'a sqs_queue_scheme \<Rightarrow> ref \<Rightarrow> time" where
  "msg_priority q r \<equiv> priority (objs q r)"

definition standard_validate_queue_attributes :: "(string, string) dict \<Rightarrow> unit result" where
  "standard_validate_queue_attributes attrs =
     bind_result (validate_receive_message_wait_time attrs) (\<lambda>_.
       let valid = filter (\<lambda>k. k \<notin> set INVALID_STANDARD_QUEUE_ATTRIBUTES) QUEUE_ATTRIBUTE_NAMES;
           fifo_only = (\<lambda>k. k = ''FifoThroughputLimit'' \<or> k = ''DeduplicationScope'')
       in case find (\<lambda>k. fifo_only k \<or> k \<notin> set valid) (map fst attrs) of
            None \<Rightarrow> Inr ()
          | Some k \<Rightarrow>
              (if fifo_only k
               then Inl (InvalidAttributeName (''You can specify the '' @ k @ '' only when FifoQueue is set to true.''))
               else Inl (InvalidAttributeName (''Unknown Attribute '' @ k @ ''.''))))"

definition no_message :: sqs_message where
  "no_message = sqs_message_init 0 0 \<lparr>MessageId = [], MD5OfBody = [], Body = [], Attributes = None,
     MD5OfMessageAttributes = None, MessageAttributes = None, ReceiptHandle = None\<rparr> None None None"

definition standard_queue_init ::
  "time \<Rightarrow> string \<Rightarrow> string \<Rightarrow> string \<Rightarrow> (string, string) dict option \<Rightarrow> (string, string) dict option \<Rightarrow>
   standard_queue result" where
  "standard_queue_init now name reg account attrs tgs =
     bind_result (assert_queue_name name) (\<lambda>_.
       let q = \<lparr>queue_name = name, region = reg, account_id = account, attributes = [],
                queue_tags = (case tgs of Some t \<Rightarrow> t | None \<Rightarrow> []), delayed = [], inflight = [], receipts = [],
                purge_timestamp = None, is_shutdown = False, objs = (\<lambda>_. no_message), next_ref = 0, visible = []\<rparr>;
           defaults = default_attributes now (queue_arn q)
       in if truthy attrs
          then bind_result (standard_validate_queue_attributes (the attrs)) (\<lambda>_.
                 Inr (q\<lparr>attributes := dict_update defaults (the attrs)\<rparr>))
          else Inr (q\<lparr>attributes := defaults\<rparr>))"

definition standard_clear :: "standard_queue \<Rightarrow> standard_queue" where
  "standard_clear q = (clear_base q)\<lparr>visible := []\<rparr>"

definition standard_approximate_number_of_messages :: "standard_queue \<Rightarrow> nat" where
  "standard_approximate_number_of_messages q = length (visible q)"

definition queue_shutdown :: "'a sqs_queue_scheme \<Rightarrow> 'a sqs_queue_scheme" where
  "queue_shutdown q = q\<lparr>is_shutdown := True\<rparr>"

definition standard_put_message :: "ref \<Rightarrow> standard_queue \<Rightarrow> standard_queue" where
  "standard_put_message r q = q\<lparr>visible := heappush (msg_priority q) (visible q) r\<rparr>"

text \<open>\<open>later\<close> is the clock when \<open>put\<close> asks whether the message is delayed; the message was made at \<open>now\<close>.\<close>

definition standard_put ::
  "time \<Rightarrow> time \<Rightarrow> api_message \<Rightarrow> int option \<Rightarrow> string option \<Rightarrow> string option \<Rightarrow> int option \<Rightarrow> standard_queue \<Rightarrow>
   ref result \<times> standard_queue" where
  "standard_put now later msg timeout dedup_id group_id delay q =
     (if truthy dedup_id
      then (Inl (InvalidParameterValueException (''Value '' @ the dedup_id @
              '' for parameter MessageDeduplicationId is invalid. Reason: The '' @
              ''request includes a parameter that is not valid for this queue type.'')), q)
      else
        let m = sqs_message_init now now msg None group_id None in
        case (case timeout of Some v \<Rightarrow> Inr v | None \<Rightarrow> queue_visibility_timeout q) of
          Inl e \<Rightarrow> (Inl e, q)
        | Inr v \<Rightarrow>
            (case (case delay of Some d \<Rightarrow> Inr d | None \<Rightarrow> queue_delay_seconds q) of
               Inl e \<Rightarrow> (Inl e, q)
             | Inr d \<Rightarrow>
                 let m1 = m\<lparr>visibility_timeout := Some v, delay_seconds := Some d\<rparr>;
                     (r, q1) = new_obj m1 q
                 in (Inr r, if is_delayed later m1 then add_delayed_message r q1 else standard_put_message r q1)))"

definition standard_remove_expired_messages :: "time \<Rightarrow> standard_queue \<Rightarrow> unit result \<times> standard_queue" where
  "standard_remove_expired_messages now q =
     (case message_retention_period q of
        Inl e \<Rightarrow> (Inl e, q)
      | Inr retention \<Rightarrow>
          (Inr (), q\<lparr>visible := snd (remove_expired_messages_from_heap (objs q) now retention (visible q))\<rparr>))"

subsubsection \<open>Receiving\<close>

text \<open>
  The loop of \<open>receive\<close>. The flag \<open>block\<close> is cleared after the first message unless \<open>poll\<close> is set, and
  the remaining waiting time never drops below zero.
\<close>

function standard_collect ::
  "time \<Rightarrow> int \<Rightarrow> int option \<Rightarrow> int \<Rightarrow> bool \<Rightarrow> bool \<Rightarrow> int \<Rightarrow> standard_queue \<Rightarrow> ref list \<Rightarrow> ref list \<Rightarrow>
   (ref list \<times> ref list) result \<times> standard_queue" where
  "standard_collect now timeout limit num poll block wait q ok dead =
     (case interruptible_get (heappop (msg_priority q)) (is_shutdown q) block wait (visible q) of
        Inl e \<Rightarrow> (Inl e, q)
      | Inr None \<Rightarrow> (Inr (ok, dead), q)
      | Inr (Some (r, rest)) \<Rightarrow>
          (let q1 = q\<lparr>visible := rest\<rparr>; block' = (block \<and> poll); wait' = max 0 wait in
           if deleted (obj q1 r) then standard_collect now timeout limit num poll block' wait' q1 ok dead
           else
             let q2 = upd_obj r (mark_received now timeout) q1 in
             if exceeds_max_receive_count limit (obj q2 r)
             then standard_collect now timeout limit num poll block' wait' q2 ok (dead @ [r])
             else
               (case increment_approximate_receive_count (obj q2 r) of
                  Inl e \<Rightarrow> (Inl e, q2)
                | Inr m \<Rightarrow>
                    let q3 = upd_obj r (\<lambda>_. m) q2; ok' = ok @ [r] in
                    if int (length ok') = num then (Inr (ok', dead), q3)
                    else standard_collect now timeout limit num poll block' wait' q3 ok' dead)))"
  by pat_completeness auto
termination
  by (relation "measure (\<lambda>(now, timeout, limit, num, poll, block, wait, q, ok, dead). length (visible q))")
    (auto simp: interruptible_get_def upd_obj_def split: if_splits dest: heappop_length)

declare standard_collect.simps [simp del]

definition standard_receive ::
  "externals \<Rightarrow> (nat \<Rightarrow> string) \<Rightarrow> time \<Rightarrow> int \<Rightarrow> int option \<Rightarrow> int option \<Rightarrow> bool \<Rightarrow> standard_queue \<Rightarrow>
   receive_message_result result \<times> standard_queue" where
  "standard_receive ext fresh now num wait_time timeout poll q =
     (case max_receive_count q of
        Inl e \<Rightarrow> (Inl e, q)
      | Inr limit \<Rightarrow>
          (case (case timeout of Some v \<Rightarrow> Inr v | None \<Rightarrow> queue_visibility_timeout q) of
             Inl e \<Rightarrow> (Inl e, q)
           | Inr v \<Rightarrow>
               let wait = (case wait_time of Some w \<Rightarrow> w | None \<Rightarrow> 0) in
               (case standard_collect now v limit num poll (wait \<noteq> 0) wait q [] [] of
                  (Inl e, q1) \<Rightarrow> (Inl e, q1)
                | (Inr (ok, dead), q1) \<Rightarrow>
                    let (handles, q2) = hand_out_all standard_put_message ext fresh ok q1
                    in (Inr \<lparr>successful = ok, result_handles = handles, dead_letter_messages = dead\<rparr>, q2))))"

subsubsection \<open>Removing\<close>

definition standard_on_remove_message :: "ref \<Rightarrow> standard_queue \<Rightarrow> standard_queue" where
  "standard_on_remove_message r q =
     (if in_by_id q r (inflight q) then q\<lparr>inflight := remove_by_id q r (inflight q)\<rparr>
      else if in_by_id q r (visible q)
      then q\<lparr>visible := heapify (msg_priority q) (remove_by_id q r (visible q))\<rparr>
      else q)"

definition standard_remove :: "externals \<Rightarrow> string \<Rightarrow> standard_queue \<Rightarrow> unit result \<times> standard_queue" where
  "standard_remove = queue_remove (\<lambda>_ _. Inr ()) standard_on_remove_message"

definition standard_update_visibility_timeout ::
  "externals \<Rightarrow> time \<Rightarrow> string \<Rightarrow> int \<Rightarrow> standard_queue \<Rightarrow> unit result \<times> standard_queue" where
  "standard_update_visibility_timeout = queue_update_visibility_timeout standard_put_message"

definition standard_requeue_inflight_messages :: "time \<Rightarrow> standard_queue \<Rightarrow> standard_queue" where
  "standard_requeue_inflight_messages = requeue_inflight_messages standard_put_message"

definition standard_enqueue_delayed_messages :: "time \<Rightarrow> standard_queue \<Rightarrow> standard_queue" where
  "standard_enqueue_delayed_messages = enqueue_delayed_messages standard_put_message"

subsection \<open>The contract of the base class\<close>

definition standard_ok :: "standard_queue \<Rightarrow> bool" where
  "standard_ok q \<longleftrightarrow> is_heap (msg_priority q) (visible q) \<and> (\<forall>r \<in> set (visible q). r < next_ref q)"

definition standard_inv :: "standard_queue \<Rightarrow> bool" where
  "standard_inv q \<longleftrightarrow> queue_wf (visible q) q \<and> standard_ok q"

lemma visible_more: "sqs_queue.more q = sqs_queue.more (q' :: standard_queue) \<Longrightarrow> visible q = visible q'"
  by (cases q, cases q') simp

lemma standard_ok_put: "standard_ok q \<Longrightarrow> r < next_ref q \<Longrightarrow> standard_ok (standard_put_message r q)"
  by (auto simp: standard_ok_def standard_put_message_def)

lemma standard_ok_frame:
  assumes "standard_ok q" "sqs_queue.more q' = sqs_queue.more q" "next_ref q \<le> next_ref q'"
    and "\<And>r. r < next_ref q \<Longrightarrow> priority (obj q' r) = priority (obj q r) \<and>
         message_group_id (obj q' r) = message_group_id (obj q r)"
  shows "standard_ok q'"
proof -
  have v: "visible q' = visible q" by (rule visible_more) (rule assms(2))
  have "is_heap (msg_priority q') (visible q) \<longleftrightarrow> is_heap (msg_priority q) (visible q)"
    using assms(1,4) by (intro heap_from_cong) (auto simp: standard_ok_def)
  then show ?thesis using assms(1,3) by (auto simp: standard_ok_def v intro: less_le_trans)
qed

lemma standard_on_remove_gone:
  assumes "distinct (map (mid q) (visible q @ inflight q))" and q': "q' = standard_on_remove_message r q"
  shows "mid q r \<notin> mid q ` (set (visible q') \<union> set (inflight q'))"
proof -
  have d: "distinct (map (mid q) (visible q))" "distinct (map (mid q) (inflight q))"
    "mid q ` set (visible q) \<inter> mid q ` set (inflight q) = {}" using assms(1) by auto
  have hp: "set (heapify (msg_priority q) xs) = set xs" for xs
    using heapify_spec(2) [of "msg_priority q" xs] by (metis set_mset_mset)
  consider "in_by_id q r (inflight q)" | "\<not> in_by_id q r (inflight q)" "in_by_id q r (visible q)"
    | "\<not> in_by_id q r (inflight q)" "\<not> in_by_id q r (visible q)" by blast
  then show ?thesis
  proof cases
    case 1
    then have "mid q r \<notin> mid q ` set (visible q)" using d(3) by (auto simp: in_by_id_iff)
    moreover have "mid q r \<notin> mid q ` set (remove_by_id q r (inflight q))"
      unfolding remove_by_id_filter [OF d(2)] by auto
    ultimately show ?thesis using 1 by (simp add: q' standard_on_remove_message_def image_Un)
  next
    case 2
    have "mid q r \<notin> mid q ` set (remove_by_id q r (visible q))"
      unfolding remove_by_id_filter [OF d(1)] by auto
    then show ?thesis using 2 by (simp add: q' standard_on_remove_message_def hp in_by_id_iff image_Un)
  qed (simp add: q' standard_on_remove_message_def in_by_id_iff image_Un)
qed

lemma mset_remove_by_id: "mset (remove_by_id q r xs) \<subseteq># mset xs"
  by (induction xs) (auto intro: subset_mset.trans)

interpretation standard: removing_queue_class visible standard_put_message standard_ok
  standard_on_remove_message "\<lambda>_ _. True"
proof unfold_locales
  fix r :: ref and q :: standard_queue
  show "mset (visible (standard_put_message r q)) = add_mset r (mset (visible q))"
    by (simp add: standard_put_message_def)
  show "sqs_queue.truncate (standard_put_message r q) = sqs_queue.truncate q"
    by (simp add: standard_put_message_def sqs_queue.truncate_def)
  show "sqs_queue.truncate (standard_on_remove_message r q) =
      (sqs_queue.truncate q)\<lparr>inflight := inflight (standard_on_remove_message r q)\<rparr>"
    by (simp add: standard_on_remove_message_def sqs_queue.truncate_def)
  show "mset (visible (standard_on_remove_message r q)) + mset (inflight (standard_on_remove_message r q))
      \<subseteq># mset (visible q) + mset (inflight q)"
    using mset_remove_by_id [of q r] by (auto simp: standard_on_remove_message_def heapify_spec(2))
  show "standard_ok (standard_on_remove_message r q)" if "standard_ok q"
  proof -
    have "set (heapify (msg_priority q) (remove_by_id q r (visible q))) \<subseteq> set (visible q)"
      using set_remove_by_id [of q r "visible q"] heapify_spec(2) by (metis set_mset_mset)
    then show ?thesis
      using that heapify_spec(1) by (auto simp: standard_ok_def standard_on_remove_message_def)
  qed
  show "r \<notin> set (visible (standard_on_remove_message r q)) \<union> set (inflight (standard_on_remove_message r q))"
    if "distinct (map (mid q) (visible q @ inflight q))"
    using standard_on_remove_gone [OF that refl, of r] by blast
qed (blast intro: visible_more standard_ok_put standard_ok_frame)+

subsection \<open>What \<open>receive\<close> collects\<close>

definition received :: "time \<Rightarrow> int \<Rightarrow> int option \<Rightarrow> sqs_message \<Rightarrow> sqs_message" where
  "received now timeout limit m =
     (let m1 = mark_received now timeout m in
      if exceeds_max_receive_count limit m1 then m1
      else case increment_approximate_receive_count m1 of Inr m2 \<Rightarrow> m2 | Inl _ \<Rightarrow> m1)"

lemma mark_received_simps [simp]:
  "message (mark_received now v m) = message m" "priority (mark_received now v m) = priority m"
  "created (mark_received now v m) = created m" "deleted (mark_received now v m) = deleted m"
  "receipt_handles (mark_received now v m) = receipt_handles m"
  "receive_count (mark_received now v m) = Suc (receive_count m)"
  "visibility_timeout (mark_received now v m) = Some v"
  "visibility_deadline (mark_received now v m) = Some (now + of_int v)"
  "last_received (mark_received now v m) = Some now" "delay_seconds (mark_received now v m) = delay_seconds m"
  by (simp_all add: mark_received_def set_last_received_def update_visibility_timeout_def Let_def)

lemma increment_simps:
  assumes "increment_approximate_receive_count m = Inr m'"
  shows "message_id m' = message_id m" "priority m' = priority m" "created m' = created m" "deleted m' = deleted m"
    "receipt_handles m' = receipt_handles m" "receive_count m' = receive_count m"
    "visibility_timeout m' = visibility_timeout m" "visibility_deadline m' = visibility_deadline m"
    "message_group_id m' = message_group_id m" "last_received m' = last_received m" "delay_seconds m' = delay_seconds m"
  using assms
  by (auto simp: increment_approximate_receive_count_def Let_def message_group_id_def msg_attributes_def
      split: option.splits)

lemma received_simps [simp]:
  "message_id (received now v limit m) = message_id m" "priority (received now v limit m) = priority m"
  "created (received now v limit m) = created m" "deleted (received now v limit m) = deleted m"
  "receipt_handles (received now v limit m) = receipt_handles m"
  "receive_count (received now v limit m) = Suc (receive_count m)"
  "visibility_timeout (received now v limit m) = Some v"
  "visibility_deadline (received now v limit m) = Some (now + of_int v)"
  "last_received (received now v limit m) = Some now"
  by (simp_all add: received_def Let_def increment_simps split: sum.splits)

lemma message_group_id_received [simp]: "message_group_id (received now v limit m) = message_group_id m"
proof -
  have "message_group_id (mark_received now v m) = message_group_id m"
    by (simp add: message_group_id_def msg_attributes_def)
  then show ?thesis by (simp add: received_def Let_def increment_simps(9) split: sum.splits)
qed

text \<open>
  \<open>xs\<close> are the messages the loop takes from the heap: the oldest ones in order of sending. Those beyond
  the receive limit go to the dead letters, the others are returned, and the loop ends when the heap is
  empty, the queue is shut down or enough messages are found.
\<close>

definition collects ::
  "time \<Rightarrow> int \<Rightarrow> int option \<Rightarrow> int \<Rightarrow> standard_queue \<Rightarrow> ref list \<Rightarrow> ref list \<Rightarrow>
   ref list \<Rightarrow> (ref list \<times> ref list) result \<Rightarrow> standard_queue \<Rightarrow> bool" where
  "collects now v limit num q ok dead xs res q' \<longleftrightarrow>
     q' = q\<lparr>objs := (\<lambda>r. if r \<in> set xs then received now v limit (obj q r) else obj q r), visible := visible q'\<rparr> \<and>
     mset (visible q) = mset xs + mset (visible q') \<and> is_heap (msg_priority q) (visible q') \<and>
     sorted (map (msg_priority q) xs) \<and>
     (\<forall>x \<in> set xs. \<forall>y \<in> set (visible q'). msg_priority q x \<le> msg_priority q y) \<and>
     (\<forall>ok' dead'. res = Inr (ok', dead') \<longrightarrow>
        ok' = ok @ filter (\<lambda>r. \<not> exceeds_max_receive_count limit (received now v limit (obj q r))) xs \<and>
        dead' = dead @ filter (\<lambda>r. exceeds_max_receive_count limit (received now v limit (obj q r))) xs \<and>
        (visible q' = [] \<or> is_shutdown q \<or> int (length ok') = num))"

definition countable_text :: "sqs_message \<Rightarrow> bool" where
  "countable_text m \<longleftrightarrow> (case dict_get (msg_attributes m) ''ApproximateReceiveCount'' of
     None \<Rightarrow> True | Some s \<Rightarrow> py_int s \<noteq> None)"

lemma countable_increment: "countable_text m \<Longrightarrow> \<exists>m'. increment_approximate_receive_count m = Inr m' \<and> countable_text m'"
proof -
  have "py_int ''0'' = Some 0" by code_simp
  then show "countable_text m \<Longrightarrow> \<exists>m'. increment_approximate_receive_count m = Inr m' \<and> countable_text m'"
    by (auto simp: countable_text_def increment_approximate_receive_count_def msg_attributes_def Let_def
        split: option.splits)
qed

lemma countable_mark [simp]: "countable_text (mark_received now v m) \<longleftrightarrow> countable_text m"
  by (simp add: countable_text_def msg_attributes_def)

lemma exceeds_received [simp]:
  "exceeds_max_receive_count limit (received now v limit' m) = exceeds_max_receive_count limit (mark_received now v m)"
  by (simp add: exceeds_max_receive_count_def split: option.splits)

lemma collects_Nil:
  assumes "is_heap (msg_priority q) (visible q)"
    and "\<And>ok' dead'. res = Inr (ok', dead') \<Longrightarrow>
      ok' = ok \<and> dead' = dead \<and> (visible q = [] \<or> is_shutdown q \<or> int (length ok') = num)"
  shows "collects now v limit num q ok dead [] res q"
  using assms by (auto simp: collects_def)

lemma collects_Cons:
  assumes heap: "is_heap (msg_priority q) (visible q)" and dist: "distinct (visible q)"
    and pop: "heappop (msg_priority q) (visible q) = Some (r, rest)"
    and q3: "q3 = q\<lparr>visible := rest, objs := (objs q)(r := received now v limit (obj q r))\<rparr>"
    and c: "collects now v limit num q3 (ok @ (if exceeds_max_receive_count limit (received now v limit (obj q r)) then [] else [r]))
      (dead @ (if exceeds_max_receive_count limit (received now v limit (obj q r)) then [r] else [])) xs res q'"
  shows "collects now v limit num q ok dead (r # xs) res q'"
proof -
  have p: "is_heap (msg_priority q) rest" "mset (visible q) = add_mset r (mset rest)"
    "\<forall>y \<in> set (visible q). msg_priority q r \<le> msg_priority q y"
    using heappop_spec [OF heap pop] by blast+
  have d: "distinct (r # rest)" using dist mset_eq_imp_distinct_iff [of "visible q" "r # rest"] p(2) by simp
  have prio: "msg_priority q3 = msg_priority q" by (auto simp: q3)
  have prio1: "msg_priority q3 x = msg_priority q x" for x by (simp add: q3)
  have v3: "visible q3 = rest" by (simp add: q3)
  have xs: "mset rest = mset xs + mset (visible q')" using c by (simp add: collects_def v3)
  have sets: "set rest = set xs \<union> set (visible q')" using xs by (metis set_mset_mset set_mset_union)
  have set_v: "set (visible q) = insert r (set rest)" using p(2) by (metis set_mset_mset set_mset_add_mset_insert)
  have r: "r \<notin> set xs" "r \<notin> set (visible q')" using d sets by auto
  have obj3: "obj q3 x = obj q x" if "x \<in> set xs" for x using that r by (auto simp: q3)
  let ?e = "\<lambda>q x. exceeds_max_receive_count limit (received now v limit (obj q x))"
  have flt: "filter (?e q3) xs = filter (?e q) xs" "filter (\<lambda>x. \<not> ?e q3 x) xs = filter (\<lambda>x. \<not> ?e q x) xs"
    by (rule filter_cong; simp add: obj3)+
  have upd: "q' = q\<lparr>objs := (\<lambda>x. if x \<in> set (r # xs) then received now v limit (obj q x) else obj q x), visible := visible q'\<rparr>"
  proof -
    have "q' = q3\<lparr>objs := (\<lambda>x. if x \<in> set xs then received now v limit (obj q3 x) else obj q3 x), visible := visible q'\<rparr>"
      using c by (simp add: collects_def)
    moreover have "(\<lambda>x. if x \<in> set xs then received now v limit (obj q3 x) else obj q3 x) =
        (\<lambda>x. if x \<in> set (r # xs) then received now v limit (obj q x) else obj q x)"
      using r by (auto simp: q3)
    ultimately show ?thesis by (simp add: q3)
  qed
  have m: "mset (visible q) = mset (r # xs) + mset (visible q')" using p(2) xs by simp
  have srt: "sorted (map (msg_priority q) (r # xs))"
    using c p(3) set_v sets by (auto simp: collects_def prio)
  have below: "\<forall>x \<in> set (r # xs). \<forall>y \<in> set (visible q'). msg_priority q x \<le> msg_priority q y"
    using c p(3) set_v sets by (auto simp: collects_def prio1)
  have "is_heap (msg_priority q) (visible q')" using c by (simp add: collects_def prio)
  moreover have sh: "is_shutdown q3 = is_shutdown q" by (simp add: q3)
  moreover have "ok' = ok @ filter (\<lambda>x. \<not> ?e q x) (r # xs) \<and> dead' = dead @ filter (?e q) (r # xs) \<and>
      (visible q' = [] \<or> is_shutdown q \<or> int (length ok') = num)" if "res = Inr (ok', dead')" for ok' dead'
  proof -
    have "ok' = (ok @ (if ?e q r then [] else [r])) @ filter (\<lambda>x. \<not> ?e q x) xs \<and>
        dead' = (dead @ (if ?e q r then [r] else [])) @ filter (?e q) xs \<and>
        (visible q' = [] \<or> is_shutdown q \<or> int (length ok') = num)"
      using c that unfolding collects_def flt sh by blast
    then show ?thesis by (cases "?e q r") auto
  qed
  ultimately show ?thesis using upd m srt below unfolding collects_def by blast
qed

lemma standard_collect_collects:
  assumes "is_heap (msg_priority q) (visible q)" "distinct (visible q)" "\<forall>r \<in> set (visible q). \<not> deleted (obj q r)"
    and "standard_collect now v limit num poll block wait q ok dead = (res, q')"
  shows "\<exists>xs. collects now v limit num q ok dead xs res q'"
  using assms
proof (induction "length (visible q)" arbitrary: q block wait ok dead rule: less_induct)
  case less
  note heap = less.prems(1)
  let ?get = "interruptible_get (heappop (msg_priority q)) (is_shutdown q) block wait (visible q)"
  show ?case
  proof (cases "\<exists>r rest. ?get = Inr (Some (r, rest))")
    case False
    then have "q' = q \<and> (res = Inr (ok, dead) \<and> (is_shutdown q \<or> visible q = []) \<or> (\<exists>e. res = Inl e))"
      using less.prems(4) by (subst (asm) standard_collect.simps)
        (auto simp: interruptible_get_def split: sum.splits option.splits if_splits)
    moreover from this have "collects now v limit num q ok dead [] res q" by (intro collects_Nil [OF heap]) auto
    ultimately show ?thesis by blast
  next
    case True
    then obtain r rest where get: "?get = Inr (Some (r, rest))" by blast
    then have pop: "heappop (msg_priority q) (visible q) = Some (r, rest)"
      by (auto simp: interruptible_get_def split: if_splits)
    have p: "is_heap (msg_priority q) rest" "mset (visible q) = add_mset r (mset rest)"
      using heappop_spec [OF heap pop] by blast+
    have sub: "set (visible q) = insert r (set rest)" "distinct (r # rest)"
      using p(2) less.prems(2) mset_eq_imp_distinct_iff [of "visible q" "r # rest"]
      by (metis set_mset_mset set_mset_add_mset_insert, simp)
    have alive: "\<not> deleted (obj q r)" using less.prems(3) sub by blast
    let ?rec = "received now v limit (obj q r)" and ?m = "mark_received now v (obj q r)"
    define q3 where "q3 = q\<lparr>visible := rest, objs := (objs q)(r := ?rec)\<rparr>"
    define ok3 where "ok3 = ok @ (if exceeds_max_receive_count limit ?m then [] else [r])"
    define dead3 where "dead3 = dead @ (if exceeds_max_receive_count limit ?m then [r] else [])"
    have heap3: "is_heap (msg_priority q3) (visible q3)"
      using p(1) heap_from_cong [of rest "msg_priority q3" "msg_priority q" 0] by (simp add: q3_def)
    have len: "length (visible q3) < length (visible q)" using heappop_length [OF pop] by (simp add: q3_def)
    have d3: "distinct (visible q3)" "\<forall>r \<in> set (visible q3). \<not> deleted (obj q3 r)"
      using sub less.prems(3) by (auto simp: q3_def)
    note IH = less.hyps [OF len heap3 d3]
    have step: "(res, q') = standard_collect now v limit num poll (block \<and> poll) (max 0 wait) q3 ok3 dead3 \<or>
      q' = q3 \<and> (res = Inr (ok3, dead3) \<and> int (length ok3) = num \<or> (\<exists>e. res = Inl e))"
      using less.prems(4) alive
      by (subst (asm) standard_collect.simps)
        (auto simp: get Let_def q3_def ok3_def dead3_def upd_obj_def received_def split: if_splits sum.splits)
    then obtain xs where "collects now v limit num q3 ok3 dead3 xs res q'"
    proof (elim disjE conjE)
      assume "(res, q') = standard_collect now v limit num poll (block \<and> poll) (max 0 wait) q3 ok3 dead3"
      then show thesis using IH that by metis
    next
      assume "q' = q3" "res = Inr (ok3, dead3)" "int (length ok3) = num"
      moreover from this have "collects now v limit num q3 ok3 dead3 [] res q3" by (intro collects_Nil [OF heap3]) auto
      ultimately show thesis using that by blast
    next
      assume "q' = q3" "\<exists>e. res = Inl e"
      moreover from this have "collects now v limit num q3 ok3 dead3 [] res q3" by (intro collects_Nil [OF heap3]) auto
      ultimately show thesis using that by blast
    qed
    then show ?thesis
      using collects_Cons [OF heap less.prems(2) pop q3_def] unfolding ok3_def dead3_def exceeds_received by blast
  qed
qed

lemma standard_collect_total:
  assumes "\<forall>r \<in> set (visible q). countable_text (obj q r)" "distinct (visible q)" "\<not> (block \<and> wait < 0)"
    "is_heap (msg_priority q) (visible q)"
  shows "\<exists>ok' dead' q'. standard_collect now v limit num poll block wait q ok dead = (Inr (ok', dead'), q')"
  using assms
proof (induction "length (visible q)" arbitrary: q block wait ok dead rule: less_induct)
  case less
  let ?get = "interruptible_get (heappop (msg_priority q)) (is_shutdown q) block wait (visible q)"
  show ?case
  proof (cases "\<exists>r rest. ?get = Inr (Some (r, rest))")
    case False
    then show ?thesis using less.prems(3)
      by (subst standard_collect.simps) (auto simp: interruptible_get_def split: option.splits sum.splits)
  next
    case True
    then obtain r rest where get: "?get = Inr (Some (r, rest))" by blast
    then have pop: "heappop (msg_priority q) (visible q) = Some (r, rest)"
      by (auto simp: interruptible_get_def split: if_splits)
    have p: "is_heap (msg_priority q) rest" "mset (visible q) = add_mset r (mset rest)"
      using heappop_spec [OF less.prems(4) pop] by blast+
    have sub: "set (visible q) = insert r (set rest)" "distinct (r # rest)"
      using p(2) less.prems(2) mset_eq_imp_distinct_iff [of "visible q" "r # rest"]
      by (metis set_mset_mset set_mset_add_mset_insert, simp)
    have IH: "\<exists>ok' dead' q'. standard_collect now v limit num poll (block \<and> poll) (max 0 wait) q3 ok3 dead3 = (Inr (ok', dead'), q')"
      if "visible q3 = rest" "\<And>x. x \<in> set rest \<Longrightarrow> obj q3 x = obj q x" for q3 ok3 dead3
    proof (rule less.hyps)
      show "length (visible q3) < length (visible q)" using heappop_length [OF pop] that by simp
      show "is_heap (msg_priority q3) (visible q3)"
        using p(1) heap_from_cong [of rest "msg_priority q3" "msg_priority q" 0] that by simp
    qed (use that sub less.prems(1) in auto)
    have "countable_text (mark_received now v (obj q r))" using less.prems(1) sub by simp
    then obtain m where "increment_approximate_receive_count (mark_received now v (obj q r)) = Inr m"
      using countable_increment by blast
    then show ?thesis
      using sub(2) by (subst standard_collect.simps) (simp add: get Let_def upd_obj_def IH, intro conjI impI IH, auto)
  qed
qed

text \<open>The well-formedness of a queue while the collected messages are in the receiver's hands.\<close>

lemma collects_wf:
  assumes inv: "standard_inv q" and c: "collects now v limit num q [] [] xs res q'"
  shows "standard_ok q'" "queue_wf (visible q' @ filter P xs) q'"
proof -
  have wf: "queue_wf (visible q) q" and ok: "standard_ok q" using inv by (auto simp: standard_inv_def)
  have q': "q' = q\<lparr>objs := (\<lambda>r. if r \<in> set xs then received now v limit (obj q r) else obj q r), visible := visible q'\<rparr>"
    and ms: "mset (visible q) = mset xs + mset (visible q')" using c by (simp_all add: collects_def)
  have sel: "inflight q' = inflight q" "delayed q' = delayed q" "receipts q' = receipts q" "next_ref q' = next_ref q"
    by (subst q', simp)+
  have obj': "obj q' x = (if x \<in> set xs then received now v limit (obj q x) else obj q x)" for x by (subst q') simp
  have sets: "set (visible q) = set xs \<union> set (visible q')" using ms by (metis set_mset_mset set_mset_union)
  have mid': "mid q' x = mid q x" for x by (simp add: obj')
  have "mset (visible q' @ filter P xs) \<subseteq># mset (visible q)" by (simp add: ms add.commute)
  then have ids: "queue_ids (visible q' @ filter P xs) q' \<subseteq># queue_ids (visible q) q"
    unfolding queue_ids_def mid' sel by (intro image_mset_subseteq_mono subset_mset.add_mono) simp_all
  show "queue_wf (visible q' @ filter P xs) q'"
    by (rule queue_wf_shuffle [OF wf _ _ _ _ _ ids]) (use sets in \<open>auto simp: obj' sel\<close>)
  have "is_heap (msg_priority q) (visible q')" using c by (simp add: collects_def)
  moreover have "msg_priority q' = msg_priority q" by (rule ext) (simp add: obj')
  ultimately show "standard_ok q'" using ok sets sel by (simp add: standard_ok_def)
qed

lemma standard_inv_visible: "standard_inv q \<Longrightarrow> is_heap (msg_priority q) (visible q) \<and> distinct (visible q) \<and>
    (\<forall>r \<in> set (visible q). \<not> deleted (obj q r))"
  using queue_wf_ids [of "visible q" q] queue_wf_ref [of "visible q" q]
  by (auto simp: standard_inv_def standard_ok_def distinct_map)

lemma standard_receive_cases:
  assumes inv: "standard_inv q" and out: "standard_receive ext fresh now num wait_time timeout poll q = (res, q')"
  obtains e where "res = Inl e" "q' = q"
  | e v limit xs where "res = Inl e" "collects now v limit num q [] [] xs (Inl e) q'"
  | v limit xs ok dead q1 handles where
      "max_receive_count q = Inr limit" "(case timeout of Some v \<Rightarrow> Inr v | None \<Rightarrow> queue_visibility_timeout q) = Inr v"
      "collects now v limit num q [] [] xs (Inr (ok, dead)) q1"
      "hand_out_all standard_put_message ext fresh ok q1 = (handles, q')"
      "res = Inr \<lparr>successful = ok, result_handles = handles, dead_letter_messages = dead\<rparr>"
proof -
  have col: "\<exists>xs. collects now v limit num q [] [] xs r q1"
    if "standard_collect now v limit num poll b w q [] [] = (r, q1)" for v limit b w r q1
    using standard_collect_collects [OF _ _ _ that] standard_inv_visible [OF inv] by blast
  have "(\<exists>e. res = Inl e \<and> q' = q) \<or> (\<exists>e v limit xs. res = Inl e \<and> collects now v limit num q [] [] xs (Inl e) q') \<or>
    (\<exists>v limit xs ok dead q1 handles. max_receive_count q = Inr limit \<and>
      (case timeout of Some v \<Rightarrow> Inr v | None \<Rightarrow> queue_visibility_timeout q) = Inr v \<and>
      collects now v limit num q [] [] xs (Inr (ok, dead)) q1 \<and>
      hand_out_all standard_put_message ext fresh ok q1 = (handles, q') \<and>
      res = Inr \<lparr>successful = ok, result_handles = handles, dead_letter_messages = dead\<rparr>)"
    using out unfolding standard_receive_def Let_def
    by (auto split: sum.splits prod.splits simp: sum.split_sel dest: col)
  then show thesis using that by blast
qed

lemma collects_fresh_handles:
  assumes "collects now v limit num q [] [] xs res q1" "fresh_handles ext fresh q"
  shows "fresh_handles ext fresh q1" "queue_arn q1 = queue_arn q"
proof -
  have q1: "q1 = q\<lparr>objs := (\<lambda>r. if r \<in> set xs then received now v limit (obj q r) else obj q r), visible := visible q1\<rparr>"
    using assms(1) by (simp add: collects_def)
  have r: "receipts q1 = receipts q" "queue_name q1 = queue_name q" "region q1 = region q" "account_id q1 = account_id q"
    by (subst q1, simp)+
  then show arn: "queue_arn q1 = queue_arn q" by (intro queue_arn_cong)
  show "fresh_handles ext fresh q1"
    using assms(2) unfolding fresh_handles_def create_receipt_handle_cong [OF arn] r(1) .
qed

lemma standard_receive_inv:
  assumes inv: "standard_inv q" and fresh: "fresh_handles ext fresh q"
    and out: "standard_receive ext fresh now num wait_time timeout poll q = (res, q')"
  shows "standard_inv q'"
  using inv out
proof (cases rule: standard_receive_cases)
  case (2 e v limit xs)
  then show ?thesis using collects_wf(1) [OF inv 2(2)] collects_wf(2) [OF inv 2(2), of "\<lambda>_. False"] by (simp add: standard_inv_def)
next
  case (3 v limit xs ok dead q1 handles)
  have ok: "ok = filter (\<lambda>r. \<not> exceeds_max_receive_count limit (received now v limit (obj q r))) xs"
    using 3(3) by (simp add: collects_def)
  have "queue_wf (visible q1 @ ok) q1" unfolding ok by (rule collects_wf(2) [OF inv 3(3)])
  then show ?thesis
    using standard.hand_out_all_spec [OF _ collects_wf(1) [OF inv 3(3)] collects_fresh_handles(1) [OF 3(3) fresh] 3(4)]
    by (simp add: standard_inv_def)
qed (use inv in simp)

lemma standard_put_cases:
  assumes out: "standard_put now later msg timeout dedup_id group_id delay q = (res, q')"
  obtains e where "res = Inl e" "q' = q"
  | v d m r q1 where "\<not> truthy dedup_id" "(case timeout of Some v \<Rightarrow> Inr v | None \<Rightarrow> queue_visibility_timeout q) = Inr v"
      "(case delay of Some d \<Rightarrow> Inr d | None \<Rightarrow> queue_delay_seconds q) = Inr d"
      "m = (sqs_message_init now now msg None group_id None)\<lparr>visibility_timeout := Some v, delay_seconds := Some d\<rparr>"
      "new_obj m q = (r, q1)" "res = Inr r"
      "q' = (if is_delayed later m then add_delayed_message r q1 else standard_put_message r q1)"
proof -
  let ?v = "case timeout of Some v \<Rightarrow> Inr v | None \<Rightarrow> queue_visibility_timeout q"
  let ?d = "case delay of Some d \<Rightarrow> Inr d | None \<Rightarrow> queue_delay_seconds q"
  consider e where "truthy dedup_id \<or> ?v = Inl e \<or> ?d = Inl e" | v d where "\<not> truthy dedup_id" "?v = Inr v" "?d = Inr d"
    by (cases ?v; cases ?d; blast)
  then show thesis
  proof cases
    case 1
    then have "\<exists>e. res = Inl e \<and> q' = q" using out
      by (cases ?v; cases ?d) (auto simp: standard_put_def Let_def split: if_splits)
    then show thesis using that(1) by blast
  next
    case 2
    let ?m = "(sqs_message_init now now msg None group_id None)\<lparr>visibility_timeout := Some v, delay_seconds := Some d\<rparr>"
    obtain r q1 where new: "new_obj ?m q = (r, q1)" by fastforce
    show thesis
      using out 2 new by (intro that(2) [OF 2 refl new]) (simp_all add: standard_put_def Let_def)
  qed
qed

lemma standard_inv_put:
  assumes inv: "standard_inv q" and out: "standard_put now later msg timeout dedup_id group_id delay q = (res, q')"
    and fresh: "MessageId msg \<notin> mid q ` set (visible q @ inflight q @ delayed q)"
  shows "standard_inv q'"
  using out
proof (cases rule: standard_put_cases)
  case (2 v d m r q1)
  note m = 2(4) and new = 2(5) and q' = 2(7)
  have wf: "queue_wf (visible q) q" and ok: "standard_ok q" using inv by (simp_all add: standard_inv_def)
  have props: "message_id m = MessageId msg" "receipt_handles m = []" "\<not> deleted m"
    by (simp_all add: m sqs_message_init_def)
  have wf1: "queue_wf (r # visible q) q1" "queue_wf (visible q) (add_delayed_message r q1)"
    using queue_wf_new [OF wf _ props(2,3) new] fresh unfolding props(1) by blast+
  have q1: "q1 = q\<lparr>objs := (objs q)(r := m), next_ref := Suc r\<rparr>" "r = next_ref q" using new by (auto simp: new_obj_def)
  have ok1: "standard_ok q1" by (rule standard_ok_frame [OF ok]) (simp_all add: q1)
  have vis: "visible q1 = visible q" by (simp add: q1)
  show ?thesis
  proof (cases "is_delayed later m")
    case True
    then have "q' = add_delayed_message r q1" by (simp add: q' new)
    then show ?thesis
      using wf1(2) ok1 standard.ok_upd(2) vis by (simp add: standard_inv_def add_delayed_message_def)
  next
    case False
    then have "q' = standard_put_message r q1" by (simp add: q' new)
    moreover have "queue_wf (visible (standard_put_message r q1)) (standard_put_message r q1)"
      by (rule queue_wf_shuffle [OF wf1(1)]) (auto simp: queue_ids_def standard.put_waiting vis)
    moreover have "standard_ok (standard_put_message r q1)" by (rule standard_ok_put [OF ok1]) (simp add: q1)
    ultimately show ?thesis by (simp add: standard_inv_def)
  qed
qed (use inv in simp)

lemma standard_inv_remove: "standard_inv q \<Longrightarrow> standard_remove ext h q = (res, q') \<Longrightarrow> standard_inv q'"
  unfolding standard_remove_def standard_inv_def using standard.remove_spec [of q _ ext h res q'] by simp

lemma standard_inv_update_visibility:
  "standard_inv q \<Longrightarrow> standard_update_visibility_timeout ext now h v q = (res, q') \<Longrightarrow> standard_inv q'"
  unfolding standard_update_visibility_timeout_def standard_inv_def
  using standard.update_visibility_spec [of q ext now h v res q'] by simp

lemma standard_inv_requeue: "standard_inv q \<Longrightarrow> standard_inv (standard_requeue_inflight_messages now q)"
  unfolding standard_requeue_inflight_messages_def standard_inv_def
  using standard.requeue_spec(1,2) [of q _ now, OF _ _ refl] by simp

lemma standard_inv_enqueue: "standard_inv q \<Longrightarrow> standard_inv (standard_enqueue_delayed_messages now q)"
  unfolding standard_enqueue_delayed_messages_def standard_inv_def
  using standard.enqueue_spec(1,2) [of q _ now, OF _ _ refl] by simp

lemma standard_inv_clear: "standard_inv q \<Longrightarrow> standard_inv (standard_clear q)"
proof -
  have "queue_wf [] (standard_clear q)"
    by (rule queue_wfI) (simp_all add: standard_clear_def clear_base_def receipts_ok_def)
  then show "standard_inv (standard_clear q)"
    by (simp add: standard_inv_def standard_ok_def standard_clear_def heap_from_def)
qed

lemma standard_inv_expired:
  assumes "standard_inv q" "standard_remove_expired_messages now q = (res, q')"
  shows "standard_inv q'"
proof (cases "q' = q")
  case False
  then obtain retention where r: "message_retention_period q = Inr retention"
      and q': "q' = q\<lparr>visible := snd (remove_expired_messages_from_heap (objs q) now retention (visible q))\<rparr>"
    using assms(2) by (auto simp: standard_remove_expired_messages_def split: sum.splits)
  obtain expired heap' where e: "remove_expired_messages_from_heap (objs q) now retention (visible q) = (expired, heap')"
    by fastforce
  have ok: "is_heap (msg_priority q) (visible q)" "\<forall>r \<in> set (visible q). r < next_ref q" and wf: "queue_wf (visible q) q"
    using assms(1) by (auto simp: standard_inv_def standard_ok_def)
  from remove_expired_loop_spec [OF ok(1) e [unfolded remove_expired_messages_from_heap_def]]
  have m: "mset (visible q) = mset expired + mset heap'" and h: "is_heap (msg_priority q) heap'" by auto
  have sub: "set heap' \<subseteq> set (visible q)" using m by (metis set_mset_mset set_mset_union sup_ge2)
  have s: "visible q' = heap'" "objs q' = objs q" "inflight q' = inflight q" "delayed q' = delayed q"
    "receipts q' = receipts q" "next_ref q' = next_ref q" by (simp_all add: q' e)
  have "queue_wf heap' q'"
    by (rule queue_wf_shuffle [OF wf]) (use sub in \<open>auto simp: s queue_ids_def m\<close>)
  then show ?thesis using ok(2) sub h by (auto simp: standard_inv_def standard_ok_def s)
qed (use assms in simp)

end
