(* ===== verification/SqsStandardRun.thy ===== *)
theory SqsStandardRun
  imports SqsStandard
begin

text \<open>
  Runs of a standard queue: sequences of the calls the provider, its worker threads and the API make on
  a queue, with time passing between them. Every reachable queue is well formed, and a message that
  has been handed to a consumer stays hidden from the others until its visibility timeout ends.
\<close>

subsection \<open>Frame properties of handing out messages\<close>

context queue_class
begin

lemma hand_out_all_ConsE:
  assumes "hand_out_all put_message ext fresh (r # rs) q = (hs, q')"
  obtains k q2 hs' where "k = create_receipt_handle ext (fresh 0) q (obj q r)" "hs = k # hs'"
    "hand_out_all put_message ext (\<lambda>i. fresh (Suc i)) rs q2 = (hs', q')"
    "queue_arn q2 = queue_arn q" "receipts q2 = dict_set k r (receipts q)"
    "set (inflight q) \<subseteq> set (inflight q2)" "\<And>x. x \<noteq> r \<Longrightarrow> obj q2 x = obj q x"
    "obj q2 r = (obj q r)\<lparr>receipt_handles := List.insert k (receipt_handles (obj q r))\<rparr>"
    "visibility_timeout (obj q r) \<noteq> Some 0 \<Longrightarrow> waiting q2 = waiting q \<and> in_by_id q2 r (inflight q2)"
proof -
  obtain k q1 where k: "hand_out ext (fresh 0) r q = (k, q1)" by fastforce
  note s = hand_out_simps [OF k]
  define q2 where "q2 = (if visibility_timeout (obj q1 r) = Some 0 then put_message r q1 else add_inflight_message r q1)"
  obtain hs' where hs': "hand_out_all put_message ext (\<lambda>i. fresh (Suc i)) rs q2 = (hs', q')" "hs = k # hs'"
    using assms k by (auto simp: q2_def Let_def split: prod.splits)
  have w: "waiting q1 = waiting q" by (rule waiting_more) (rule s)
  show thesis
  proof (rule that [OF s(1) hs'(2,1)])
    show "queue_arn q2 = queue_arn q" by (rule queue_arn_cong) (simp_all add: q2_def add_inflight_message_def s)
    show "receipts q2 = dict_set k r (receipts q)" by (simp add: q2_def add_inflight_message_def s)
    show "set (inflight q) \<subseteq> set (inflight q2)" by (auto simp: q2_def add_inflight_message_def add_by_id_def s)
    show "x \<noteq> r \<Longrightarrow> obj q2 x = obj q x" for x by (auto simp: q2_def add_inflight_message_def s)
    show "obj q2 r = (obj q r)\<lparr>receipt_handles := List.insert k (receipt_handles (obj q r))\<rparr>"
      by (auto simp: q2_def add_inflight_message_def s)
    show "waiting q2 = waiting q \<and> in_by_id q2 r (inflight q2)" if "visibility_timeout (obj q r) \<noteq> Some 0"
      using that w by (auto simp: q2_def add_inflight_message_def add_by_id_def in_by_id_def s)
  qed
qed

lemma hand_out_all_receipts:
  "hand_out_all put_message ext fresh rs q = (hs, q') \<Longrightarrow> dict_has (receipts q') h \<Longrightarrow>
   dict_has (receipts q) h \<or> (\<exists>i < length rs. \<exists>m. h = create_receipt_handle ext (fresh i) q m)"
proof (induction rs arbitrary: q fresh hs)
  case (Cons r rs)
  from Cons.prems(1) show ?case
  proof (cases rule: hand_out_all_ConsE)
    case (1 k q2 hs')
    from Cons.IH [OF 1(3) Cons.prems(2)] consider "dict_has (receipts q2) h"
      | i m where "i < length rs" "h = create_receipt_handle ext (fresh (Suc i)) q2 m" by blast
    then show ?thesis
    proof cases
      case 1
      then have "h = k \<or> dict_has (receipts q) h"
        by (auto simp: \<open>receipts q2 = _\<close> update_keys split: if_splits)
      then show ?thesis using \<open>k = _\<close> by auto
    next
      case 2
      then show ?thesis using create_receipt_handle_cong [OF \<open>queue_arn q2 = _\<close>, of ext "fresh (Suc i)" m]
        by (intro disjI2 exI [of _ "Suc i"]) auto
    qed
  qed
qed simp

lemma hand_out_all_frame:
  "hand_out_all put_message ext fresh rs q = (hs, q') \<Longrightarrow>
   set (inflight q) \<subseteq> set (inflight q') \<and> (\<forall>x. x \<notin> set rs \<longrightarrow> obj q' x = obj q x) \<and> (\<forall>x. mid q' x = mid q x) \<and>
   (\<forall>x. visibility_deadline (obj q' x) = visibility_deadline (obj q x))"
proof (induction rs arbitrary: q fresh hs)
  case (Cons r rs)
  from Cons.prems(1) show ?case
  proof (cases rule: hand_out_all_ConsE)
    case (1 k q2 hs')
    have "mid q2 x = mid q x \<and> visibility_deadline (obj q2 x) = visibility_deadline (obj q x)" for x
      using 1(7) [of x] 1(8) by (cases "x = r") simp_all
    then show ?thesis using Cons.IH [OF 1(3)] 1(6,7) by auto
  qed
qed simp

lemma hand_out_all_hidden:
  "hand_out_all put_message ext fresh rs q = (hs, q') \<Longrightarrow> \<forall>r \<in> set rs. visibility_timeout (obj q r) \<noteq> Some 0 \<Longrightarrow>
   waiting q' = waiting q"
proof (induction rs arbitrary: q fresh hs)
  case (Cons r rs)
  from Cons.prems(1) show ?case
  proof (cases rule: hand_out_all_ConsE)
    case (1 k q2 hs')
    have "visibility_timeout (obj q2 x) = visibility_timeout (obj q x)" for x
      using 1(7) [of x] 1(8) by (cases "x = r") simp_all
    then show ?thesis using Cons.IH [OF 1(3)] Cons.prems(2) 1(9) by simp
  qed
qed simp

end

lemma del_receipts_keys: "del_receipts hs d = (res, d') \<Longrightarrow> fst ` set d' \<subseteq> fst ` set d"
proof (induction hs arbitrary: d)
  case (Cons h hs)
  have "fst ` set (dict_del h d) \<subseteq> fst ` set d" by (auto simp: AList.delete_eq)
  moreover have "d' = d \<or> fst ` set d' \<subseteq> fst ` set (dict_del h d)"
    using Cons.prems Cons.IH [of "dict_del h d"] by (simp split: if_splits)
  ultimately show ?case by blast
qed simp

context removing_queue_class
begin

lemma remove_frame:
  assumes "queue_remove pre on_remove ext h q = (res, q')"
  shows "queue_arn q' = queue_arn q" "dict_has (receipts q') k \<Longrightarrow> dict_has (receipts q) k"
    "attributes q' = attributes q" "is_shutdown q' = is_shutdown q"
proof -
  have "queue_arn q' = queue_arn q \<and> (dict_has (receipts q') k \<longrightarrow> dict_has (receipts q) k) \<and>
      attributes q' = attributes q \<and> is_shutdown q' = is_shutdown q"
    using assms by (auto simp: queue_remove_def Let_def queue_arn_def
        split: sum.splits option.splits prod.splits dest!: del_receipts_keys) (metis fst_conv image_eqI subsetD)+
  then show "queue_arn q' = queue_arn q" "dict_has (receipts q') k \<Longrightarrow> dict_has (receipts q) k"
    "attributes q' = attributes q" "is_shutdown q' = is_shutdown q" by blast+
qed

end

subsection \<open>Events and steps\<close>

datatype standard_event =
    Put time api_message "int option" "string option" "string option" "int option"
  | Receive int "int option" "int option" bool
  | Remove string
  | ChangeVisibility string int
  | RequeueInflight
  | EnqueueDelayed
  | RemoveExpired
  | Clear
  | Shutdown

text \<open>
  A state is a queue with the number of identifiers drawn so far. An event gives the messages it returns
  to a consumer and the next state; only \<open>receive\<close> draws identifiers, one for each handle it makes.
\<close>

fun standard_exec ::
  "externals \<Rightarrow> (nat \<Rightarrow> string) \<Rightarrow> time \<Rightarrow> standard_event \<Rightarrow> standard_queue \<times> nat \<Rightarrow> ref list \<times> standard_queue \<times> nat" where
  "standard_exec ext uid now (Put later msg timeout dedup_id group_id delay) (q, n) =
     ([], snd (standard_put now later msg timeout dedup_id group_id delay q), n)"
| "standard_exec ext uid now (Receive num wait timeout poll) (q, n) =
     (case standard_receive ext (\<lambda>i. uid (n + i)) now num wait timeout poll q of
        (Inl _, q') \<Rightarrow> ([], q', n)
      | (Inr res, q') \<Rightarrow> (successful res, q', n + length (result_handles res)))"
| "standard_exec ext uid now (Remove h) (q, n) = ([], snd (standard_remove ext h q), n)"
| "standard_exec ext uid now (ChangeVisibility h v) (q, n) = ([], snd (standard_update_visibility_timeout ext now h v q), n)"
| "standard_exec ext uid now RequeueInflight (q, n) = ([], standard_requeue_inflight_messages now q, n)"
| "standard_exec ext uid now EnqueueDelayed (q, n) = ([], standard_enqueue_delayed_messages now q, n)"
| "standard_exec ext uid now RemoveExpired (q, n) = ([], snd (standard_remove_expired_messages now q), n)"
| "standard_exec ext uid now Clear (q, n) = ([], standard_clear q, n)"
| "standard_exec ext uid now Shutdown (q, n) = ([], queue_shutdown q, n)"

text \<open>The message ids of the API are fresh UUIDs.\<close>

fun admissible :: "standard_event \<Rightarrow> standard_queue \<Rightarrow> bool" where
  "admissible (Put later msg timeout dedup_id group_id delay) q \<longleftrightarrow>
     MessageId msg \<notin> mid q ` set (visible q @ inflight q @ delayed q)"
| "admissible _ q \<longleftrightarrow> True"

inductive standard_step ::
  "externals \<Rightarrow> (nat \<Rightarrow> string) \<Rightarrow> standard_queue \<times> nat \<times> time \<Rightarrow> standard_event \<Rightarrow> ref list \<Rightarrow>
   standard_queue \<times> nat \<times> time \<Rightarrow> bool" for ext uid where
  step: "t \<le> now \<Longrightarrow> admissible ev q \<Longrightarrow> standard_exec ext uid now ev (q, n) = (out, q', n') \<Longrightarrow>
    standard_step ext uid (q, n, t) ev out (q', n', now)"

inductive_cases standard_stepE: "standard_step ext uid s ev out s'"

inductive standard_reachable ::
  "externals \<Rightarrow> (nat \<Rightarrow> string) \<Rightarrow> standard_queue \<times> nat \<times> time \<Rightarrow> bool" for ext uid where
  init: "standard_queue_init now name reg account attrs tgs = Inr q \<Longrightarrow> standard_reachable ext uid (q, 0, now)"
| step: "standard_reachable ext uid s \<Longrightarrow> standard_step ext uid s ev out s' \<Longrightarrow> standard_reachable ext uid s'"

subsection \<open>The invariant of runs\<close>

definition uids_ok :: "(nat \<Rightarrow> string) \<Rightarrow> bool" where
  "uids_ok uid \<longleftrightarrow> inj uid \<and> (\<forall>i. CHR '' '' \<notin> set (uid i))"

definition handles_below :: "externals \<Rightarrow> (nat \<Rightarrow> string) \<Rightarrow> nat \<Rightarrow> 'a sqs_queue_scheme \<Rightarrow> bool" where
  "handles_below ext uid n q \<longleftrightarrow>
     (\<forall>h. dict_has (receipts q) h \<longrightarrow> (\<exists>i < n. \<exists>m. h = create_receipt_handle ext (uid i) q m))"

lemma handle_uid_inject:
  assumes "uids_ok uid" "create_receipt_handle ext (uid i) q m = create_receipt_handle ext (uid j) q m'"
  shows "i = j"
  using assms encode_receipt_handle_inject [of "uid i" "uid j"]
  unfolding create_receipt_handle_def uids_ok_def by (metis injD)

lemma handles_below_fresh:
  assumes "uids_ok uid" "handles_below ext uid n q"
  shows "fresh_handles ext (\<lambda>i. uid (n + i)) q"
  unfolding fresh_handles_def
proof (intro conjI allI impI)
  fix i m show "\<not> dict_has (receipts q) (create_receipt_handle ext (uid (n + i)) q m)"
  proof
    assume "dict_has (receipts q) (create_receipt_handle ext (uid (n + i)) q m)"
    then obtain j m' where "j < n" "create_receipt_handle ext (uid (n + i)) q m = create_receipt_handle ext (uid j) q m'"
      using assms(2) unfolding handles_below_def by blast
    then show False using handle_uid_inject [OF assms(1), of ext "n + i" q m j m'] by simp
  qed
  fix j m' assume "create_receipt_handle ext (uid (n + i)) q m = create_receipt_handle ext (uid (n + j)) q m'"
  then show "i = j" using handle_uid_inject [OF assms(1), of ext "n + i" q m "n + j" m'] by simp
qed

lemma handles_below_mono:
  assumes "handles_below ext uid n q" "n \<le> n'" "queue_arn q' = queue_arn q"
    and "\<And>h. dict_has (receipts q') h \<Longrightarrow> dict_has (receipts q) h \<or> (\<exists>i < n' - n. \<exists>m. h = create_receipt_handle ext (uid (n + i)) q m)"
  shows "handles_below ext uid n' q'"
  unfolding handles_below_def create_receipt_handle_cong [OF assms(3)]
proof (intro allI impI)
  fix h assume "dict_has (receipts q') h"
  from assms(4) [OF this] show "\<exists>i < n'. \<exists>m. h = create_receipt_handle ext (uid i) q m"
  proof
    assume "dict_has (receipts q) h"
    then show ?thesis using assms(1,2) unfolding handles_below_def by (meson less_le_trans)
  next
    assume "\<exists>i < n' - n. \<exists>m. h = create_receipt_handle ext (uid (n + i)) q m"
    then obtain i m where "i < n' - n" "h = create_receipt_handle ext (uid (n + i)) q m" by blast
    then show ?thesis by (intro exI [of _ "n + i"]) auto
  qed
qed

lemma standard_put_frame:
  assumes "standard_put now later msg timeout dedup_id group_id delay q = (res, q')"
  shows "receipts q' = receipts q" "queue_arn q' = queue_arn q" "inflight q' = inflight q"
    "x < next_ref q \<Longrightarrow> obj q' x = obj q x"
  using assms
  by (cases rule: standard_put_cases;
      auto simp: new_obj_def add_delayed_message_def standard_put_message_def queue_arn_def)+

lemma collects_frame:
  assumes inv: "standard_inv q" and c: "collects now v limit num q [] [] xs res q1"
  shows "queue_name q1 = queue_name q \<and> region q1 = region q \<and> account_id q1 = account_id q" "receipts q1 = receipts q"
    "inflight q1 = inflight q" "x \<in> set (inflight q) \<Longrightarrow> x \<notin> set xs \<and> obj q1 x = obj q x" "delayed q1 = delayed q"
    "set xs \<subseteq> set (visible q)"
proof -
  have q1: "q1 = q\<lparr>objs := (\<lambda>r. if r \<in> set xs then received now v limit (obj q r) else obj q r), visible := visible q1\<rparr>"
    using c by (simp add: collects_def)
  show "queue_name q1 = queue_name q \<and> region q1 = region q \<and> account_id q1 = account_id q" "receipts q1 = receipts q"
    "inflight q1 = inflight q" "delayed q1 = delayed q" by (subst q1, simp)+
  show sub: "set xs \<subseteq> set (visible q)"
    using c unfolding collects_def by (metis set_mset_mset set_mset_union sup_ge1)
  assume x: "x \<in> set (inflight q)"
  then have "x \<notin> set xs"
    using sub queue_wf_not_elsewhere(4) [of "visible q" q x] inv by (auto simp: standard_inv_def)
  then show "x \<notin> set xs \<and> obj q1 x = obj q x" by (subst q1) simp
qed

lemma standard_receive_frame:
  assumes inv: "standard_inv q" and fresh: "fresh_handles ext fresh q"
    and out: "standard_receive ext fresh now num wait_time timeout poll q = (res, q')"
  shows "queue_arn q' = queue_arn q"
    "dict_has (receipts q') h \<Longrightarrow> dict_has (receipts q) h \<or>
      (\<exists>r i m. res = Inr r \<and> i < length (result_handles r) \<and> h = create_receipt_handle ext (fresh i) q m)"
    "set (inflight q) \<subseteq> set (inflight q')" "x \<in> set (inflight q) \<Longrightarrow> obj q' x = obj q x"
proof -
  have "queue_arn q' = queue_arn q \<and> (dict_has (receipts q') h \<longrightarrow> dict_has (receipts q) h \<or>
      (\<exists>r i m. res = Inr r \<and> i < length (result_handles r) \<and> h = create_receipt_handle ext (fresh i) q m)) \<and>
      set (inflight q) \<subseteq> set (inflight q') \<and> (x \<in> set (inflight q) \<longrightarrow> obj q' x = obj q x)"
    using inv out
  proof (cases rule: standard_receive_cases)
    case (2 e v limit xs)
    then show ?thesis using collects_frame [OF inv 2(2)] by (simp add: queue_arn_def)
  next
    case (3 v limit xs ok dead q1 handles)
    note f1 = collects_frame [OF inv 3(3)]
    have ok: "ok = filter (\<lambda>r. \<not> exceeds_max_receive_count limit (received now v limit (obj q r))) xs"
      using 3(3) by (simp add: collects_def)
    have wf1: "queue_wf (visible q1 @ ok) q1" unfolding ok by (rule collects_wf(2) [OF inv 3(3)])
    note f2 = standard.hand_out_all_spec [OF wf1 collects_wf(1) [OF inv 3(3)] collects_fresh_handles(1) [OF 3(3) fresh] 3(4)]
    have arn1: "queue_arn q1 = queue_arn q" using collects_fresh_handles(2) [OF 3(3) fresh] .
    have "x \<notin> set ok" if "x \<in> set (inflight q)" using that f1(4) [of x] ok by auto
    then show ?thesis
      using f1 f2 standard.hand_out_all_frame [OF 3(4)] standard.hand_out_all_receipts [OF 3(4), of h]
        create_receipt_handle_cong [OF arn1] arn1 3(5) by auto
  qed simp
  then show "queue_arn q' = queue_arn q"
    "dict_has (receipts q') h \<Longrightarrow> dict_has (receipts q) h \<or>
      (\<exists>r i m. res = Inr r \<and> i < length (result_handles r) \<and> h = create_receipt_handle ext (fresh i) q m)"
    "set (inflight q) \<subseteq> set (inflight q')" "x \<in> set (inflight q) \<Longrightarrow> obj q' x = obj q x" by blast+
qed

lemma standard_exec_inv:
  assumes uid: "uids_ok uid" and inv: "standard_inv q" and below: "handles_below ext uid n q" and adm: "admissible ev q"
    and out: "standard_exec ext uid now ev (q, n) = (rs, q', n')"
  shows "standard_inv q' \<and> handles_below ext uid n' q'"
proof (cases ev)
  case (Put later msg timeout dedup_id group_id delay)
  then obtain res where p: "standard_put now later msg timeout dedup_id group_id delay q = (res, q')" "n' = n"
    using out by (cases "standard_put now later msg timeout dedup_id group_id delay q") auto
  have "standard_inv q'" using standard_inv_put [OF inv p(1)] adm Put by simp
  moreover have "handles_below ext uid n q'"
    by (rule handles_below_mono [OF below]) (use standard_put_frame [OF p(1)] in simp_all)
  ultimately show ?thesis using p by simp
next
  case (Receive num wait timeout poll)
  let ?fresh = "\<lambda>i. uid (n + i)"
  note fresh = handles_below_fresh [OF uid below]
  obtain res where r: "standard_receive ext ?fresh now num wait timeout poll q = (res, q')"
      and n': "n' = (case res of Inl _ \<Rightarrow> n | Inr x \<Rightarrow> n + length (result_handles x))"
    using out Receive by (auto split: prod.splits sum.splits)
  note frame = standard_receive_frame [OF inv fresh r]
  have "handles_below ext uid n' q'"
    by (rule handles_below_mono [OF below]) (use frame(1,2) n' in \<open>auto split: sum.splits\<close>)
  then show ?thesis using standard_receive_inv [OF inv fresh r] by blast
next
  case (Remove h)
  then obtain res where r: "standard_remove ext h q = (res, q')" "n' = n"
    using out by (cases "standard_remove ext h q") auto
  have "handles_below ext uid n q'"
    by (rule handles_below_mono [OF below]) (use standard.remove_frame [OF r(1) [unfolded standard_remove_def]] in simp_all)
  then show ?thesis using standard_inv_remove [OF inv r(1)] r(2) by blast
next
  case (ChangeVisibility h v)
  then obtain res where r: "standard_update_visibility_timeout ext now h v q = (res, q')" "n' = n"
    using out by (cases "standard_update_visibility_timeout ext now h v q") auto
  have "queue_arn q' = queue_arn q \<and> receipts q' = receipts q"
    using standard.update_visibility_spec [of q ext now h v res q'] inv r(1)
    by (simp add: standard_inv_def standard_update_visibility_timeout_def)
  then have "handles_below ext uid n q'" by (intro handles_below_mono [OF below]) simp_all
  then show ?thesis using standard_inv_update_visibility [OF inv r(1)] r(2) by blast
next
  case RequeueInflight
  have w: "queue_wf (visible q) q" "standard_ok q" using inv by (simp_all add: standard_inv_def)
  have q': "q' = requeue_inflight_messages standard_put_message now q" "n' = n"
    using out RequeueInflight by (simp_all add: standard_requeue_inflight_messages_def)
  have "handles_below ext uid n q'"
    by (rule handles_below_mono [OF below]) (use standard.requeue_spec [OF w q'(1)] in simp_all)
  then show ?thesis
    using standard_inv_requeue [OF inv, of now] q' by (simp add: standard_requeue_inflight_messages_def)
next
  case EnqueueDelayed
  have w: "queue_wf (visible q) q" "standard_ok q" using inv by (simp_all add: standard_inv_def)
  have q': "q' = enqueue_delayed_messages standard_put_message now q" "n' = n"
    using out EnqueueDelayed by (simp_all add: standard_enqueue_delayed_messages_def)
  have "handles_below ext uid n q'"
    by (rule handles_below_mono [OF below]) (use standard.enqueue_spec [OF w q'(1)] in simp_all)
  then show ?thesis
    using standard_inv_enqueue [OF inv, of now] q' by (simp add: standard_enqueue_delayed_messages_def)
next
  case RemoveExpired
  then obtain res where r: "standard_remove_expired_messages now q = (res, q')" "n' = n"
    using out by (cases "standard_remove_expired_messages now q") auto
  have "queue_arn q' = queue_arn q \<and> receipts q' = receipts q"
    using r(1) by (auto simp: standard_remove_expired_messages_def queue_arn_def split: sum.splits)
  then have "handles_below ext uid n q'" by (intro handles_below_mono [OF below]) simp_all
  then show ?thesis using standard_inv_expired [OF inv r(1)] r(2) by blast
next
  case Clear
  then show ?thesis
    using out standard_inv_clear [OF inv] by (auto simp: handles_below_def standard_clear_def clear_base_def)
next
  case Shutdown
  then have q': "q' = q\<lparr>is_shutdown := True\<rparr>" "n' = n" using out by (simp_all add: queue_shutdown_def)
  have "queue_wf (visible q) (q\<lparr>is_shutdown := True\<rparr>)"
    by (rule queue_wf_shuffle [of "visible q" q]) (use inv in \<open>auto simp: standard_inv_def queue_ids_def\<close>)
  moreover have "handles_below ext uid n q'"
    by (rule handles_below_mono [OF below]) (simp_all add: q' queue_arn_def)
  ultimately show ?thesis using inv by (simp add: standard_inv_def standard_ok_def q')
qed

lemma standard_init_inv:
  assumes "standard_queue_init now name reg account attrs tgs = Inr q"
  shows "standard_inv q" "handles_below ext uid 0 q"
proof -
  have e: "visible q = []" "inflight q = []" "delayed q = []" "receipts q = []"
    using assms by (auto simp: standard_queue_init_def Let_def bind_result_Inr_iff split: if_splits)
  have "queue_wf [] q" by (rule queue_wfI) (simp_all add: e receipts_ok_def)
  then show "standard_inv q" "handles_below ext uid 0 q"
    by (simp_all add: standard_inv_def standard_ok_def e heap_from_def handles_below_def)
qed

lemma standard_reachable_inv:
  assumes "standard_reachable ext uid s" "uids_ok uid"
  shows "standard_inv (fst s) \<and> handles_below ext uid (fst (snd s)) (fst s)"
  using assms
proof (induction rule: standard_reachable.induct)
  case (init now name reg account attrs tgs q)
  then show ?case using standard_init_inv by simp
next
  case (step s ev out s')
  from step.hyps(2) obtain t now q n q' n' where "s = (q, n, t)" "s' = (q', n', now)" "admissible ev q"
    "standard_exec ext uid now ev (q, n) = (out, q', n')" by (auto elim: standard_stepE)
  then show ?case using standard_exec_inv [OF step.prems, of q ext n ev now out q' n'] step.IH [OF step.prems] by simp
qed

subsection \<open>The visibility lock\<close>

text \<open>
  Message \<open>r\<close> is in flight until \<open>deadline\<close>. An event spares the message with id \<open>i\<close> unless it purges
  the queue or uses a receipt handle of that message.
\<close>

definition locked :: "standard_queue \<Rightarrow> ref \<Rightarrow> time \<Rightarrow> bool" where
  "locked q r deadline \<longleftrightarrow> r \<in> set (inflight q) \<and> visibility_deadline (obj q r) = Some deadline"

definition handle_of :: "standard_queue \<Rightarrow> string \<Rightarrow> string \<Rightarrow> bool" where
  "handle_of q h i \<longleftrightarrow> (case dict_get (receipts q) h of None \<Rightarrow> False | Some r \<Rightarrow> mid q r = i)"

fun spares :: "standard_event \<Rightarrow> standard_queue \<Rightarrow> string \<Rightarrow> bool" where
  "spares Clear q i = False"
| "spares (Remove h) q i = (\<not> handle_of q h i)"
| "spares (ChangeVisibility h v) q i = (\<not> handle_of q h i)"
| "spares _ q i = True"

lemma standard_receive_from_visible:
  assumes inv: "standard_inv q" and out: "standard_receive ext fresh now num wait_time timeout poll q = (Inr res, q')"
  shows "set (successful res) \<subseteq> set (visible q) \<and> set (dead_letter_messages res) \<subseteq> set (visible q)"
  using inv out
proof (cases rule: standard_receive_cases)
  case (3 v limit xs ok dead q1 handles)
  have "set ok \<subseteq> set xs" "set dead \<subseteq> set xs" using 3(3) by (auto simp: collects_def)
  then show ?thesis using collects_frame(6) [OF inv 3(3)] 3(5) by simp blast
qed simp_all

lemma remove_by_id_keeps: "r \<in> set rs \<Longrightarrow> mid q x \<noteq> mid q r \<Longrightarrow> r \<in> set (remove_by_id q x rs)"
  by (induction rs) auto

lemma queue_wf_inflight_id:
  assumes "queue_wf ws q" "r \<in> set (inflight q)" "set rs \<subseteq> set ws"
  shows "mid q r \<notin> mid q ` set rs"
proof -
  have "mid q r \<in> mid q ` set (inflight q)" using assms(2) by blast
  then have "mid q r \<notin> mid q ` set ws" using queue_wf_ids [OF assms(1)] by auto
  then show ?thesis using assms(3) by blast
qed

lemma locked_exec:
  assumes uid: "uids_ok uid" and inv: "standard_inv q" and below: "handles_below ext uid n q"
    and lock: "locked q r deadline" and early: "now < deadline" and spare: "spares ev q (mid q r)"
    and out: "standard_exec ext uid now ev (q, n) = (rs, q', n')"
  shows "locked q' r deadline \<and> mid q' r = mid q r \<and> mid q r \<notin> mid q ` set rs"
proof -
  have r: "r \<in> set (inflight q)" and dl: "visibility_deadline (obj q r) = Some deadline"
    using lock by (auto simp: locked_def)
  have wf: "queue_wf (visible q) q" and ok: "standard_ok q" using inv by (simp_all add: standard_inv_def)
  have rn: "r < next_ref q" using queue_wf_ref [OF wf, of r] r by simp
  show ?thesis
  proof (cases ev)
    case (Put later msg timeout dedup_id group_id delay)
    then obtain res where p: "standard_put now later msg timeout dedup_id group_id delay q = (res, q')" "rs = []"
      using out by (cases "standard_put now later msg timeout dedup_id group_id delay q") auto
    then show ?thesis using standard_put_frame [OF p(1)] r dl rn by (simp add: locked_def)
  next
    case (Receive num wait timeout poll)
    note fresh = handles_below_fresh [OF uid below]
    obtain res where o: "standard_receive ext (\<lambda>i. uid (n + i)) now num wait timeout poll q = (res, q')"
        and rs: "rs = (case res of Inl _ \<Rightarrow> [] | Inr x \<Rightarrow> successful x)"
      using out Receive by (auto split: prod.splits sum.splits)
    have "set rs \<subseteq> set (visible q)"
      using standard_receive_from_visible [OF inv] o rs by (simp split: sum.splits)
    then have "mid q r \<notin> mid q ` set rs" by (rule queue_wf_inflight_id [OF wf r])
    then show ?thesis
      using standard_receive_frame(3,4) [OF inv fresh o] r dl by (auto simp: locked_def)
  next
    case (Remove h)
    then obtain res where o: "queue_remove (\<lambda>_ _. Inr ()) standard_on_remove_message ext h q = (res, q')" "rs = []"
      using out by (cases "standard_remove ext h q") (auto simp: standard_remove_def)
    show ?thesis
    proof (cases "q' = q")
      case False
      then obtain x where x: "dict_get (receipts q) h = Some x" "validate_receipt_handle ext q h = Inr ()"
        using standard.queue_remove_noop [OF o(1)] by (cases "dict_get (receipts q) h") auto
      then have q': "q' = standard_on_remove_message x (forget_message x q)"
        using standard.queue_remove_cases [OF wf x, of "\<lambda>_ _. Inr ()"] o(1) by simp
      have ne: "mid q x \<noteq> mid q r" using spare Remove x(1) by (simp add: handle_of_def)
      then have "r \<in> set (remove_by_id (forget_message x q) x (inflight q))"
        by (intro remove_by_id_keeps [OF r]) auto
      moreover have "r \<noteq> x" using ne by auto
      ultimately have "r \<in> set (inflight q')" "obj q' r = obj q r"
        using r by (simp_all add: q' standard_on_remove_message_def)
      then show ?thesis using o(2) dl by (simp add: locked_def)
    qed (use lock o in simp)
  next
    case (ChangeVisibility h v)
    then obtain res where o: "queue_update_visibility_timeout standard_put_message ext now h v q = (res, q')" "rs = []"
      using out by (cases "standard_update_visibility_timeout ext now h v q")
        (auto simp: standard_update_visibility_timeout_def)
    show ?thesis
    proof (cases "dict_get (receipts q) h")
      case None
      then have "q' = q" using o(1) by (auto simp: queue_update_visibility_timeout_def split: sum.splits)
      then show ?thesis using lock o by simp
    next
      case (Some x)
      then have ne: "mid q x \<noteq> mid q r" using spare ChangeVisibility by (simp add: handle_of_def)
      let ?q1 = "upd_obj x (update_visibility_timeout now v) q"
      have "r \<in> set (remove_by_id ?q1 x (inflight q))"
        using ne by (intro remove_by_id_keeps [OF r]) (auto simp: update_visibility_timeout_def)
      moreover have "r \<noteq> x" using ne by auto
      moreover have "q' = q \<or> q' = ?q1 \<or>
          q' = standard_put_message x (?q1\<lparr>inflight := remove_by_id ?q1 x (inflight ?q1)\<rparr>)"
        using o(1) Some unfolding queue_update_visibility_timeout_def Let_def by (auto split: sum.splits if_splits)
      ultimately have "r \<in> set (inflight q') \<and> obj q' r = obj q r"
        using r by (elim disjE) (simp_all add: standard_put_message_def)
      then show ?thesis using o(2) dl by (simp add: locked_def)
    qed
  next
    case RequeueInflight
    have q': "q' = requeue_inflight_messages standard_put_message now q" "rs = []"
      using out RequeueInflight by (simp_all add: standard_requeue_inflight_messages_def)
    note s = standard.requeue_spec [OF wf ok q'(1)]
    show ?thesis using s(4,6) q'(2) r dl early by (simp add: locked_def is_visible_def)
  next
    case EnqueueDelayed
    have q': "q' = enqueue_delayed_messages standard_put_message now q" "rs = []"
      using out EnqueueDelayed by (simp_all add: standard_enqueue_delayed_messages_def)
    note s = standard.enqueue_spec [OF wf ok q'(1)]
    show ?thesis using s(5,6) q'(2) r dl by (simp add: locked_def)
  next
    case RemoveExpired
    then show ?thesis
      using out r dl by (auto simp: locked_def standard_remove_expired_messages_def split: sum.splits)
  qed (use out spare r dl in \<open>auto simp: locked_def queue_shutdown_def\<close>)
qed

inductive quiet_run ::
  "externals \<Rightarrow> (nat \<Rightarrow> string) \<Rightarrow> string \<Rightarrow> time \<Rightarrow> standard_queue \<times> nat \<times> time \<Rightarrow> string list \<Rightarrow>
   standard_queue \<times> nat \<times> time \<Rightarrow> bool" for ext uid i deadline where
  quiet: "quiet_run ext uid i deadline s [] s"
| more: "quiet_run ext uid i deadline s ids (q, n, t) \<Longrightarrow> standard_step ext uid (q, n, t) ev out (q', n', now) \<Longrightarrow>
    now < deadline \<Longrightarrow> spares ev q i \<Longrightarrow> quiet_run ext uid i deadline s (ids @ map (mid q) out) (q', n', now)"

lemma quiet_run_locked:
  assumes "quiet_run ext uid i deadline s ids s'" "uids_ok uid" "standard_inv (fst s)"
    "handles_below ext uid (fst (snd s)) (fst s)" "locked (fst s) r deadline" "mid (fst s) r = i"
  shows "standard_inv (fst s') \<and> handles_below ext uid (fst (snd s')) (fst s') \<and> locked (fst s') r deadline \<and>
    mid (fst s') r = i \<and> i \<notin> set ids"
  using assms
proof (induction rule: quiet_run.induct)
  case (more s ids q n t ev out q' n' now)
  from more.hyps(2) have ex: "admissible ev q" "standard_exec ext uid now ev (q, n) = (out, q', n')"
    by (auto elim: standard_stepE)
  from more.IH [OF more.prems] have I: "standard_inv q" "handles_below ext uid n q" "locked q r deadline" "mid q r = i" "i \<notin> set ids"
    by simp_all
  show ?case
    using standard_exec_inv [OF more.prems(1) I(1,2) ex]
      locked_exec [OF more.prems(1) I(1,2,3) more.hyps(3) _ ex(2)] more.hyps(4) I(4,5) by simp
qed simp

lemma standard_receive_locks:
  assumes inv: "standard_inv q" and fresh: "fresh_handles ext fresh q"
    and out: "standard_receive ext fresh now num wait_time timeout poll q = (Inr res, q')"
    and v: "(case timeout of Some v \<Rightarrow> Inr v | None \<Rightarrow> queue_visibility_timeout q) = Inr v" "v \<noteq> 0" and r: "r \<in> set (successful res)"
  shows "locked q' r (now + of_int v)" "mid q' r = mid q r"
proof -
  have "locked q' r (now + of_int v) \<and> mid q' r = mid q r"
    using inv out
  proof (cases rule: standard_receive_cases)
    case (3 v' limit xs ok dead q1 handles)
    have v': "v' = v" using 3(2) v(1) by simp
    have q1: "q1 = q\<lparr>objs := (\<lambda>r. if r \<in> set xs then received now v limit (obj q r) else obj q r), visible := visible q1\<rparr>"
      using 3(3) v' by (simp add: collects_def)
    have obj1: "obj q1 x = (if x \<in> set xs then received now v limit (obj q x) else obj q x)" for x by (subst q1) simp
    have ok: "ok = filter (\<lambda>r. \<not> exceeds_max_receive_count limit (received now v limit (obj q r))) xs"
      using 3(3) v' by (simp add: collects_def)
    have wf1: "queue_wf (visible q1 @ ok) q1" unfolding ok by (rule collects_wf(2) [OF inv 3(3)])
    note s = standard.hand_out_all_spec [OF wf1 collects_wf(1) [OF inv 3(3)] collects_fresh_handles(1) [OF 3(3) fresh] 3(4)]
    have "\<forall>r \<in> set ok. visibility_timeout (obj q1 r) \<noteq> Some 0" using ok v(2) by (auto simp: obj1)
    then have "visible q' = visible q1" by (rule standard.hand_out_all_hidden [OF 3(4)])
    then have "mset (inflight q') = mset (inflight q1) + mset ok" using s by simp
    then have i: "set (inflight q') = set (inflight q1) \<union> set ok" by (metis set_mset_mset set_mset_union)
    have r': "r \<in> set ok" using r 3(5) by simp
    then have "visibility_deadline (obj q1 r) = Some (now + of_int v)" "mid q1 r = mid q r" using ok by (auto simp: obj1)
    then show ?thesis using standard.hand_out_all_frame [OF 3(4)] r' i by (simp add: locked_def)
  qed simp_all
  then show "locked q' r (now + of_int v)" "mid q' r = mid q r" by blast+
qed

lemma mset_split_filter: "mset xs = mset (filter (\<lambda>x. \<not> P x) xs) + mset (filter P xs)"
  by (induction xs) auto

lemma standard_receive_conserves:
  assumes inv: "standard_inv q" and fresh: "fresh_handles ext fresh q"
    and out: "standard_receive ext fresh now num wait_time timeout poll q = (Inr res, q')"
  shows "mset (visible q') + mset (inflight q') + mset (delayed q') + mset (dead_letter_messages res) =
    mset (visible q) + mset (inflight q) + mset (delayed q)" "length (result_handles res) = length (successful res)"
proof -
  have "mset (visible q') + mset (inflight q') + mset (delayed q') + mset (dead_letter_messages res) =
    mset (visible q) + mset (inflight q) + mset (delayed q) \<and> length (result_handles res) = length (successful res)"
    using inv out
  proof (cases rule: standard_receive_cases)
    case (3 v limit xs ok dead q1 handles)
    let ?over = "\<lambda>r. exceeds_max_receive_count limit (received now v limit (obj q r))"
    have ok: "ok = filter (\<lambda>r. \<not> ?over r) xs" and dead: "dead = filter ?over xs"
      and ms: "mset (visible q) = mset xs + mset (visible q1)"
      using 3(3) by (simp_all add: collects_def)
    have wf1: "queue_wf (visible q1 @ ok) q1" unfolding ok by (rule collects_wf(2) [OF inv 3(3)])
    note s = standard.hand_out_all_spec [OF wf1 collects_wf(1) [OF inv 3(3)] collects_fresh_handles(1) [OF 3(3) fresh] 3(4)]
    have "mset xs = mset ok + mset dead" unfolding ok dead by (rule mset_split_filter)
    then show ?thesis
      using s ms collects_frame(3,5) [OF inv 3(3)] 3(5) by (simp add: ac_simps)
  qed simp_all
  then show "mset (visible q') + mset (inflight q') + mset (delayed q') + mset (dead_letter_messages res) =
    mset (visible q) + mset (inflight q) + mset (delayed q)" "length (result_handles res) = length (successful res)"
    by blast+
qed

lemma standard_receive_taken:
  assumes inv: "standard_inv q" and fresh: "fresh_handles ext fresh q" and limit: "max_receive_count q = Inr limit"
    and out: "standard_receive ext fresh now num wait_time timeout poll q = (Inr res, q')"
  defines "over \<equiv> \<lambda>r. exceeds_max_receive_count limit (mark_received now 0 (obj q r))"
  shows "\<exists>taken rest. mset (visible q) = mset taken + mset rest \<and> sorted (map (msg_priority q) taken) \<and>
    (\<forall>x \<in> set taken. \<forall>y \<in> set rest. msg_priority q x \<le> msg_priority q y) \<and>
    successful res = filter (\<lambda>r. \<not> over r) taken \<and> dead_letter_messages res = filter over taken \<and>
    (rest = [] \<or> is_shutdown q \<or> int (length (successful res)) = num)"
  using inv out
proof (cases rule: standard_receive_cases)
  case (3 v limit' xs ok dead q1 handles)
  have l: "limit' = limit" using 3(1) limit by simp
  have o: "exceeds_max_receive_count limit (received now v limit (obj q r)) = over r" for r
    by (simp add: over_def exceeds_max_receive_count_def split: option.splits)
  show ?thesis
    using 3(3,5) unfolding collects_def l o by (intro exI [of _ xs] exI [of _ "visible q1"]) auto
qed simp_all

lemma standard_receive_total:
  assumes inv: "standard_inv q" and "max_receive_count q = Inr limit"
    and "(case timeout of Some v \<Rightarrow> Inr v | None \<Rightarrow> queue_visibility_timeout q) = Inr v"
    and "\<forall>r \<in> set (visible q). countable_text (obj q r)" and "\<forall>w. wait_time = Some w \<longrightarrow> 0 \<le> w"
  shows "\<exists>res q'. standard_receive ext fresh now num wait_time timeout poll q = (Inr res, q')"
proof -
  let ?w = "case wait_time of Some w \<Rightarrow> w | None \<Rightarrow> 0"
  have w: "\<not> (?w \<noteq> 0 \<and> ?w < 0)" using assms(5) by (auto split: option.splits)
  note iv = standard_inv_visible [OF inv]
  from standard_collect_total [OF assms(4) conjunct1 [OF conjunct2 [OF iv]] w conjunct1 [OF iv],
    of now v limit num poll "[]" "[]"]
  obtain ok dead q1 where c: "standard_collect now v limit num poll (?w \<noteq> 0) ?w q [] [] = (Inr (ok, dead), q1)" by blast
  obtain hs q2 where "hand_out_all standard_put_message ext fresh ok q1 = (hs, q2)" by fastforce
  then show ?thesis
    by (intro exI) (simp only: standard_receive_def assms(2,3) sum.case Let_def c prod.case)
qed

end
