(* ===== verification/SqsStandardSpec.thy ===== *)
theory SqsStandardSpec
  imports SqsStandardRun
begin

text \<open>
  What a standard queue promises its users: every queue that can be reached is well formed, messages come
  out oldest first and none is lost, a received message is hidden until its visibility timeout ends and
  comes back afterwards, and a deleted message is gone.
\<close>

subsection \<open>A queue with two messages\<close>

definition demo_ext :: externals where
  "demo_ext = \<lparr>ext_parse_arn = split_arn, ext_md5 = id, ext_sha256 = id, ext_str_float = (\<lambda>t. str_of_int \<lfloor>t\<rfloor>)\<rparr>"

definition demo_uid :: "nat \<Rightarrow> string" where
  "demo_uid i = replicate (Suc i) CHR ''u''"

definition demo_message :: "string \<Rightarrow> api_message" where
  "demo_message i = \<lparr>MessageId = i, MD5OfBody = [], Body = ''hello'', Attributes = None, MD5OfMessageAttributes = None,
     MessageAttributes = None, ReceiptHandle = None\<rparr>"

definition demo_q0 :: standard_queue where
  "demo_q0 = projr (standard_queue_init 0 ''q'' ''us-east-1'' ''000000000000'' None None)"

definition demo_q1 :: standard_queue where
  "demo_q1 = snd (standard_put 1 (3/2) (demo_message ''m1'') None None None None demo_q0)"

definition demo_q2 :: standard_queue where
  "demo_q2 = snd (standard_put 2 (5/2) (demo_message ''m2'') None None None None demo_q1)"

definition demo_receive :: "receive_message_result result \<times> standard_queue" where
  "demo_receive = standard_receive demo_ext demo_uid 3 1 None None False demo_q2"

lemma demo_uids: "uids_ok demo_uid"
  by (auto simp: uids_ok_def demo_uid_def inj_def)

lemma demo_receive_result: "case fst demo_receive of Inr res \<Rightarrow> successful res = [0] \<and> length (result_handles res) = 1 | Inl _ \<Rightarrow> False"
  by code_simp

lemma demo_visible: "visible demo_q2 = [0, 1]" "inflight demo_q2 = []" "delayed demo_q2 = []" "is_shutdown demo_q2 = False"
    "max_receive_count demo_q2 = Inr None" "queue_visibility_timeout demo_q2 = Inr 30" "mid demo_q2 0 = ''m1''"
  by code_simp+

lemma demo_init: "standard_queue_init 0 ''q'' ''us-east-1'' ''000000000000'' None None = Inr demo_q0"
proof -
  have "\<not> isl (standard_queue_init 0 ''q'' ''us-east-1'' ''000000000000'' None None)" by code_simp
  then show ?thesis by (simp add: demo_q0_def)
qed

lemma demo_reachable: "standard_reachable demo_ext demo_uid (demo_q2, 0, 2)"
proof -
  have "standard_step demo_ext demo_uid (demo_q0, 0, 0) (Put (3/2) (demo_message ''m1'') None None None None) [] (demo_q1, 0, 1)"
    by (rule standard_step.step) (simp, code_simp, simp add: demo_q1_def)
  moreover have "standard_step demo_ext demo_uid (demo_q1, 0, 1) (Put (5/2) (demo_message ''m2'') None None None None) [] (demo_q2, 0, 2)"
    by (rule standard_step.step) (simp, code_simp, simp add: demo_q2_def)
  ultimately show ?thesis
    using standard_reachable.init [OF demo_init] standard_reachable.step by metis
qed

lemma demo_received:
  obtains res q1 where "standard_receive demo_ext (\<lambda>i. demo_uid (0 + i)) 3 1 None None False demo_q2 = (Inr res, q1)"
    "successful res = [0]"
proof (cases demo_receive)
  case (Pair a q1)
  show thesis
  proof (cases a)
    case (Inr res)
    then have "standard_receive demo_ext (\<lambda>i. demo_uid (0 + i)) 3 1 None None False demo_q2 = (Inr res, q1)"
      using Pair unfolding demo_receive_def add_0 by (simp only:)
    then show thesis using that demo_receive_result unfolding Pair Inr by (simp only: fst_conv sum.case)
  next
    case (Inl e)
    then show thesis using demo_receive_result unfolding Pair by (simp only: fst_conv sum.case)
  qed
qed

subsection \<open>The invariant\<close>

text \<open>
  C1: every standard queue that can be reached by sending, receiving, deleting, changing visibility, purging
  and the background workers is well formed: the visible messages are a heap, no message is in two
  places or deleted but still there, and the receipt handles are exactly those the messages remember.
\<close>

theorem standard_queue_invariant:
  assumes "standard_reachable ext uid (q, n, t)" "uids_ok uid"
  shows "standard_inv q"
  using standard_reachable_inv [OF assms] by simp

theorem standard_queue_invariant_witness: "standard_inv demo_q2 \<and> visible demo_q2 = [0, 1]"
  by (intro conjI standard_queue_invariant [OF demo_reachable demo_uids] demo_visible(1))

subsection \<open>Receiving\<close>

text \<open>
  C2: \<open>receive\<close> takes the oldest visible messages in the order of their sending; of these it moves the ones
  beyond the redrive policy's limit to the dead letters and returns the others, and it stops only when
  no visible message is left, the queue is shut down, or the requested number is reached.
\<close>

theorem standard_receive_in_order:
  assumes "standard_reachable ext uid (q, n, t)" "uids_ok uid" "max_receive_count q = Inr limit"
    and "standard_receive ext (\<lambda>i. uid (n + i)) now num wait_time timeout poll q = (Inr res, q')"
  shows "\<exists>taken rest. mset (visible q) = mset taken + mset rest \<and> sorted (map (msg_priority q) taken) \<and>
    (\<forall>x \<in> set taken. \<forall>y \<in> set rest. msg_priority q x \<le> msg_priority q y) \<and>
    successful res = filter (\<lambda>r. \<not> exceeds_max_receive_count limit (mark_received now 0 (obj q r))) taken \<and>
    dead_letter_messages res = filter (\<lambda>r. exceeds_max_receive_count limit (mark_received now 0 (obj q r))) taken \<and>
    (rest = [] \<or> is_shutdown q \<or> int (length (successful res)) = num)"
proof -
  have I: "standard_inv q" "handles_below ext uid n q" using standard_reachable_inv [OF assms(1,2)] by simp_all
  show ?thesis by (rule standard_receive_taken [OF I(1) handles_below_fresh [OF assms(2) I(2)] assms(3,4)])
qed

theorem standard_receive_in_order_witness:
  "\<exists>res q' taken rest. standard_receive demo_ext (\<lambda>i. demo_uid (0 + i)) 3 1 None None False demo_q2 = (Inr res, q') \<and>
     successful res = [0] \<and> mset [0, 1 :: ref] = mset taken + mset rest"
proof (rule demo_received)
  fix res q1 assume r: "standard_receive demo_ext (\<lambda>i. demo_uid (0 + i)) 3 1 None None False demo_q2 = (Inr res, q1)"
    "successful res = [0]"
  obtain taken rest where "mset (visible demo_q2) = mset taken + mset rest"
    using standard_receive_in_order [OF demo_reachable demo_uids demo_visible(5) r(1)] by (elim exE conjE) (rule that)
  then show ?thesis unfolding demo_visible(1) using r by (intro exI conjI)
qed

text \<open>
  C3: \<open>receive\<close> loses no message: each message of the queue is afterwards visible, in flight, delayed or
  among the dead letters it returns, and every returned message comes with its receipt handle.
\<close>

theorem standard_receive_loses_nothing:
  assumes "standard_reachable ext uid (q, n, t)" "uids_ok uid"
    and "standard_receive ext (\<lambda>i. uid (n + i)) now num wait_time timeout poll q = (Inr res, q')"
  shows "mset (visible q') + mset (inflight q') + mset (delayed q') + mset (dead_letter_messages res) =
      mset (visible q) + mset (inflight q) + mset (delayed q) \<and>
    length (result_handles res) = length (successful res)"
proof -
  have I: "standard_inv q" "handles_below ext uid n q" using standard_reachable_inv [OF assms(1,2)] by simp_all
  show ?thesis using standard_receive_conserves [OF I(1) handles_below_fresh [OF assms(2) I(2)] assms(3)] by blast
qed

theorem standard_receive_loses_nothing_witness:
  "\<exists>res q'. standard_receive demo_ext (\<lambda>i. demo_uid (0 + i)) 3 1 None None False demo_q2 = (Inr res, q') \<and>
     mset (visible q') + mset (inflight q') + mset (delayed q') + mset (dead_letter_messages res) = {#0, 1#}"
proof (rule demo_received)
  fix res q1 assume r: "standard_receive demo_ext (\<lambda>i. demo_uid (0 + i)) 3 1 None None False demo_q2 = (Inr res, q1)"
    "successful res = [0]"
  show ?thesis
    using standard_receive_loses_nothing [OF demo_reachable demo_uids r(1)] r by (auto simp: demo_visible)
qed

text \<open>
  C4: the visibility timeout. After a message is received with a non-zero timeout, no receive call before
  the deadline returns it again and it stays in flight, whatever else happens to the queue, as long as nobody
  purges it or uses a receipt handle of that message.
\<close>

theorem visibility_lock:
  assumes "standard_reachable ext uid (q, n, t)" "uids_ok uid"
    and "standard_receive ext (\<lambda>i. uid (n + i)) now num wait_time timeout poll q = (Inr res, q1)"
    and "(case timeout of Some v \<Rightarrow> Inr v | None \<Rightarrow> queue_visibility_timeout q) = Inr v" "v \<noteq> 0" "r \<in> set (successful res)"
    and "quiet_run ext uid (mid q r) (now + of_int v) (q1, n + length (result_handles res), now) ids (q2, n2, t2)"
  shows "mid q r \<notin> set ids \<and> r \<in> set (inflight q2)"
proof -
  from standard_reachable_inv [OF assms(1,2)] have I: "standard_inv q" "handles_below ext uid n q" by simp_all
  note fresh = handles_below_fresh [OF assms(2) I(2)]
  have "standard_inv q1 \<and> handles_below ext uid (n + length (result_handles res)) q1"
    using standard_exec_inv [OF assms(2) I, of "Receive num wait_time timeout poll" now] assms(3) by simp
  then show ?thesis
    using quiet_run_locked [OF assms(7,2), of r] standard_receive_locks [OF I(1) fresh assms(3-6)]
    by (simp add: locked_def)
qed

theorem visibility_lock_witness:
  "\<exists>res q1. standard_receive demo_ext (\<lambda>i. demo_uid (0 + i)) 3 1 None None False demo_q2 = (Inr res, q1) \<and>
     0 \<in> set (successful res) \<and> 0 \<in> set (inflight (standard_requeue_inflight_messages 5 q1))"
proof (rule demo_received)
  fix res q1 assume r: "standard_receive demo_ext (\<lambda>i. demo_uid (0 + i)) 3 1 None None False demo_q2 = (Inr res, q1)"
    "successful res = [0]"
  let ?n = "0 + length (result_handles res)"
  have "standard_step demo_ext demo_uid (q1, ?n, 3) RequeueInflight [] (standard_requeue_inflight_messages 5 q1, ?n, 5)"
    by (rule standard_step.step) simp_all
  then have "quiet_run demo_ext demo_uid (mid demo_q2 0) (3 + of_int 30) (q1, ?n, 3) ([] @ map (mid q1) [])
      (standard_requeue_inflight_messages 5 q1, ?n, 5)"
    by (rule quiet_run.more [OF quiet_run.quiet]) simp_all
  then show ?thesis
    using visibility_lock [OF demo_reachable demo_uids r(1), of 30 0] r(2) demo_visible(6) r(1) by auto
qed

end
