(* ===== verification/SqsStandardLife.thy ===== *)
theory SqsStandardLife
  imports SqsStandardSpec
begin

text \<open>
  The life of a message in a standard queue: every event moves a message along the edges of one state
  diagram, a deleted message never comes back, and a message that was received but not deleted is
  handed out again once its visibility timeout is over.
\<close>

subsection \<open>Receipt handles\<close>

text \<open>The receipt handle returned with a message leads to that message.\<close>

context queue_class
begin

lemma hand_out_all_keeps_receipt:
  "hand_out_all put_message ext fresh rs q = (hs, q') \<Longrightarrow> dict_get (receipts q) h = Some r \<Longrightarrow>
   (\<And>i m. create_receipt_handle ext (fresh i) q m \<noteq> h) \<Longrightarrow> dict_get (receipts q') h = Some r"
proof (induction rs arbitrary: q fresh hs)
  case (Cons x rs)
  from Cons.prems(1) show ?case
  proof (cases rule: hand_out_all_ConsE)
    case (1 k q2 hs')
    have "h \<noteq> k" using Cons.prems(3) 1(1) by blast
    then have "dict_get (receipts q2) h = Some r" using Cons.prems(2) 1(5) by simp
    moreover have "create_receipt_handle ext (fresh (Suc i)) q2 m \<noteq> h" for i m
      using Cons.prems(3) create_receipt_handle_cong [OF 1(4)] by metis
    ultimately show ?thesis using Cons.IH [OF 1(3)] by blast
  qed
qed simp

lemma hand_out_all_handles:
  "hand_out_all put_message ext fresh rs q = (hs, q') \<Longrightarrow> fresh_handles ext fresh q \<Longrightarrow> i < length rs \<Longrightarrow>
   (\<exists>m. message_id m = mid q (rs ! i) \<and> hs ! i = create_receipt_handle ext (fresh i) q m) \<and>
   dict_get (receipts q') (hs ! i) = Some (rs ! i)"
proof (induction rs arbitrary: q fresh hs i)
  case (Cons x rs)
  from Cons.prems(1) show ?case
  proof (cases rule: hand_out_all_ConsE)
    case (1 k q2 hs')
    note arn = create_receipt_handle_cong [OF 1(4)]
    have fresh2: "fresh_handles ext (\<lambda>i. fresh (Suc i)) q2"
      using fresh_handles_step [OF Cons.prems(2) 1(4)] 1(1,5) by blast
    show ?thesis
    proof (cases i)
      case 0
      have "create_receipt_handle ext (fresh (Suc j)) q2 m \<noteq> k" for j m
        using Cons.prems(2) unfolding fresh_handles_def arn 1(1) by blast
      then have "dict_get (receipts q') k = Some x"
        using hand_out_all_keeps_receipt [OF 1(3), of k x] 1(5) by simp
      then show ?thesis using 0 1(1,2) by auto
    next
      case (Suc j)
      have "mid q2 y = mid q y" for y using 1(7) [of y] 1(8) by (cases "y = x") simp_all
      then show ?thesis using Cons.IH [OF 1(3) fresh2, of j] Cons.prems(3) Suc 1(2) by (simp add: arn)
    qed
  qed
qed simp

end

text \<open>
  The fields of a receipt handle are ASCII words without spaces (identifiers, an ARN, a time) and the ARN
  can be parsed.
\<close>

definition handles_readable :: "externals \<Rightarrow> (nat \<Rightarrow> string) \<Rightarrow> 'a sqs_queue_scheme \<Rightarrow> bool" where
  "handles_readable ext uid q \<longleftrightarrow> (\<forall>i. handle_word (uid i)) \<and> handle_word (queue_arn q) \<and>
     (\<forall>t. handle_word (ext_str_float ext t)) \<and> \<not> isl (ext_parse_arn ext (queue_arn q))"

lemma created_handle_valid:
  assumes "handles_readable ext uid q" "handle_word (message_id m)" "queue_arn q' = queue_arn q"
  shows "validate_receipt_handle ext q' (create_receipt_handle ext (uid i) q m) = Inr ()"
proof -
  obtain d where d: "ext_parse_arn ext (queue_arn q) = Inr d"
    using assms(1) by (cases "ext_parse_arn ext (queue_arn q)") (auto simp: handles_readable_def)
  have "handle_word (case last_received m of Some t \<Rightarrow> ext_str_float ext t | None \<Rightarrow> ''None'')"
    using assms(1) by (auto simp: handles_readable_def handle_word_def is_ascii_def split: option.splits)
  then show ?thesis
    using assms d unfolding validate_receipt_handle_def create_receipt_handle_def
    by (subst receipt_handle_roundtrip) (auto simp: handles_readable_def)
qed

lemma standard_receive_handles:
  assumes inv: "standard_inv q" and fresh: "fresh_handles ext (\<lambda>i. uid (n + i)) q"
    and out: "standard_receive ext (\<lambda>i. uid (n + i)) now num wait_time timeout poll q = (Inr res, q')"
    and i: "i < length (successful res)"
  shows "dict_get (receipts q') (result_handles res ! i) = Some (successful res ! i)"
    "handles_readable ext uid q \<Longrightarrow> handle_word (mid q (successful res ! i)) \<Longrightarrow>
      validate_receipt_handle ext q' (result_handles res ! i) = Inr ()"
proof -
  have "dict_get (receipts q') (result_handles res ! i) = Some (successful res ! i) \<and>
    (handles_readable ext uid q \<longrightarrow> handle_word (mid q (successful res ! i)) \<longrightarrow>
      validate_receipt_handle ext q' (result_handles res ! i) = Inr ())"
    using inv out
  proof (cases rule: standard_receive_cases)
    case (3 v limit xs ok dead q1 handles)
    note f = collects_fresh_handles [OF 3(3) fresh]
    have q1: "q1 = q\<lparr>objs := (\<lambda>r. if r \<in> set xs then received now v limit (obj q r) else obj q r), visible := visible q1\<rparr>"
      using 3(3) by (simp add: collects_def)
    have mid1: "mid q1 x = mid q x" for x by (subst q1) simp
    have ok: "ok = filter (\<lambda>r. \<not> exceeds_max_receive_count limit (received now v limit (obj q r))) xs"
      using 3(3) by (simp add: collects_def)
    have wf1: "queue_wf (visible q1 @ ok) q1" unfolding ok by (rule collects_wf(2) [OF inv 3(3)])
    have arn: "queue_arn q' = queue_arn q"
      using standard.hand_out_all_spec [OF wf1 collects_wf(1) [OF inv 3(3)] f(1) 3(4)] f(2) by simp
    have "i < length ok" using i 3(5) by simp
    from standard.hand_out_all_handles [OF 3(4) f(1) this]
    obtain m where m: "message_id m = mid q (ok ! i)" "handles ! i = create_receipt_handle ext (uid (n + i)) q m"
      "dict_get (receipts q') (handles ! i) = Some (ok ! i)"
      unfolding mid1 create_receipt_handle_cong [OF f(2)] by blast
    then show ?thesis using created_handle_valid [OF _ _ arn, of ext uid m] 3(5) by simp
  qed simp_all
  then show "dict_get (receipts q') (result_handles res ! i) = Some (successful res ! i)"
    "handles_readable ext uid q \<Longrightarrow> handle_word (mid q (successful res ! i)) \<Longrightarrow>
      validate_receipt_handle ext q' (result_handles res ! i) = Inr ()" by blast+
qed

subsection \<open>Deletion\<close>

lemma hand_out_all_deleted:
  "hand_out_all standard_put_message ext fresh rs q = (hs, q') \<Longrightarrow>
   next_ref q' = next_ref q \<and> (\<forall>x. deleted (obj q' x) = deleted (obj q x))"
proof (induction rs arbitrary: q fresh hs)
  case (Cons r rs)
  obtain h q1 where h: "hand_out ext (fresh 0) r q = (h, q1)" by fastforce
  define q2 where "q2 = (if visibility_timeout (obj q1 r) = Some 0 then standard_put_message r q1 else add_inflight_message r q1)"
  obtain hs' where hs': "hand_out_all standard_put_message ext (\<lambda>i. fresh (Suc i)) rs q2 = (hs', q')"
    using Cons.prems h by (auto simp: q2_def Let_def split: prod.splits)
  show ?case using Cons.IH [OF hs'] hand_out_simps [OF h] by (simp add: q2_def add_inflight_message_def)
qed simp

lemma standard_remove_cases:
  assumes inv: "standard_inv q" and out: "standard_remove ext h q = (res, q')"
  obtains (nothing) "q' = q" "dict_get (receipts q) h = None \<or> res \<noteq> Inr ()"
  | (removed) r where "res = Inr ()" "dict_get (receipts q) h = Some r" "validate_receipt_handle ext q h = Inr ()"
      "q' = standard_on_remove_message r (forget_message r q)"
proof (cases "\<exists>r. dict_get (receipts q) h = Some r \<and> validate_receipt_handle ext q h = Inr ()")
  case True
  then obtain r where r: "dict_get (receipts q) h = Some r" "validate_receipt_handle ext q h = Inr ()" by blast
  have wf: "queue_wf (visible q) q" using inv by (simp add: standard_inv_def)
  show thesis
    using standard.queue_remove_cases [OF wf r, of "\<lambda>_ _. Inr ()"] out by (intro removed [OF _ r]) (simp_all add: standard_remove_def)
next
  case False
  then have "q' = q" "dict_get (receipts q) h = None \<or> res \<noteq> Inr ()"
    using out by (auto simp: standard_remove_def queue_remove_def split: sum.splits option.splits)
  then show thesis by (rule nothing)
qed

lemma standard_exec_deleted:
  assumes inv: "standard_inv q" and r: "r < next_ref q" "deleted (obj q r)"
    and out: "standard_exec ext uid now ev (q, n) = (rs, q', n')"
  shows "r < next_ref q' \<and> deleted (obj q' r) \<and> r \<notin> set rs"
proof -
  have wf: "queue_wf (visible q) q" and ok: "standard_ok q" using inv by (simp_all add: standard_inv_def)
  show ?thesis
  proof (cases ev)
    case (Put later msg timeout dedup_id group_id delay)
    then obtain res where p: "standard_put now later msg timeout dedup_id group_id delay q = (res, q')" "rs = []"
      using out by (cases "standard_put now later msg timeout dedup_id group_id delay q") auto
    have "next_ref q \<le> next_ref q'"
      using p(1) by (cases rule: standard_put_cases)
        (auto simp: new_obj_def add_delayed_message_def standard_put_message_def)
    then show ?thesis using standard_put_frame(4) [OF p(1) r(1)] r p(2) by simp
  next
    case (Receive num wait timeout poll)
    obtain res where o: "standard_receive ext (\<lambda>i. uid (n + i)) now num wait timeout poll q = (res, q')"
        and rs: "rs = (case res of Inl _ \<Rightarrow> [] | Inr x \<Rightarrow> successful x)"
      using out Receive by (auto split: prod.splits sum.splits)
    have "set rs \<subseteq> set (visible q)"
      using standard_receive_from_visible [OF inv] o rs by (simp split: sum.splits)
    then have "r \<notin> set rs" using queue_wf_ref [OF wf, of r] r by auto
    moreover have same: "next_ref q1 = next_ref q \<and> deleted (obj q1 x) = deleted (obj q x)"
      if "collects now v limit num q [] [] xs res' q1" for v limit xs res' q1 x
    proof -
      have q1: "q1 = q\<lparr>objs := (\<lambda>r. if r \<in> set xs then received now v limit (obj q r) else obj q r), visible := visible q1\<rparr>"
        using that by (simp add: collects_def)
      show ?thesis by (subst (1 2) q1) simp
    qed
    have "next_ref q' = next_ref q \<and> deleted (obj q' r) = deleted (obj q r)"
      using inv o
    proof (cases rule: standard_receive_cases)
      case (3 v limit xs ok dead q1 handles)
      then show ?thesis using same [OF 3(3)] hand_out_all_deleted [OF 3(4)] by simp
    qed (simp_all add: same)
    ultimately show ?thesis using r by simp
  next
    case (Remove h)
    then obtain res where o: "standard_remove ext h q = (res, q')" "rs = []"
      using out by (cases "standard_remove ext h q") auto
    from inv o(1) show ?thesis
      by (cases rule: standard_remove_cases) (use r o(2) in \<open>auto simp: standard_on_remove_message_def\<close>)
  next
    case (ChangeVisibility h v)
    then obtain res where o: "queue_update_visibility_timeout standard_put_message ext now h v q = (res, q')" "rs = []"
      using out by (cases "standard_update_visibility_timeout ext now h v q")
        (auto simp: standard_update_visibility_timeout_def)
    then show ?thesis using r
      by (auto simp: queue_update_visibility_timeout_def Let_def update_visibility_timeout_def
          split: sum.splits option.splits if_splits)
  next
    case RequeueInflight
    have q': "q' = requeue_inflight_messages standard_put_message now q" "rs = []"
      using out RequeueInflight by (simp_all add: standard_requeue_inflight_messages_def)
    show ?thesis using standard.requeue_spec(6,8) [OF wf ok q'(1)] q'(2) r by simp
  next
    case EnqueueDelayed
    have q': "q' = enqueue_delayed_messages standard_put_message now q" "rs = []"
      using out EnqueueDelayed by (simp_all add: standard_enqueue_delayed_messages_def)
    show ?thesis using standard.enqueue_spec(6,8) [OF wf ok q'(1)] q'(2) r by simp
  next
    case RemoveExpired
    then show ?thesis
      using out r by (auto simp: standard_remove_expired_messages_def split: sum.splits)
  qed (use out r in \<open>auto simp: standard_clear_def clear_base_def queue_shutdown_def\<close>)
qed

text \<open>A run of the queue with all the messages it returns to its consumers.\<close>

inductive standard_run ::
  "externals \<Rightarrow> (nat \<Rightarrow> string) \<Rightarrow> standard_queue \<times> nat \<times> time \<Rightarrow> ref list \<Rightarrow> standard_queue \<times> nat \<times> time \<Rightarrow> bool"
  for ext uid where
  stop: "standard_run ext uid s [] s"
| more: "standard_run ext uid s outs s1 \<Longrightarrow> standard_step ext uid s1 ev out s2 \<Longrightarrow> standard_run ext uid s (outs @ out) s2"

lemma standard_run_deleted:
  assumes "standard_run ext uid s outs s'" "uids_ok uid" "standard_inv (fst s)" "handles_below ext uid (fst (snd s)) (fst s)"
    and "r < next_ref (fst s)" "deleted (obj (fst s) r)"
  shows "standard_inv (fst s') \<and> handles_below ext uid (fst (snd s')) (fst s') \<and> r < next_ref (fst s') \<and>
    deleted (obj (fst s') r) \<and> r \<notin> set outs"
  using assms
proof (induction rule: standard_run.induct)
  case (more s outs s1 ev out s2)
  from more.hyps(2) obtain t now q n q' n' where ex: "s1 = (q, n, t)" "s2 = (q', n', now)" "admissible ev q"
    "standard_exec ext uid now ev (q, n) = (out, q', n')" by (auto elim: standard_stepE)
  from more.IH [OF more.prems] have I: "standard_inv q" "handles_below ext uid n q" "r < next_ref q" "deleted (obj q r)"
    "r \<notin> set outs" by (simp_all add: ex(1))
  show ?case
    using standard_exec_inv [OF more.prems(1) I(1,2) ex(3,4)] standard_exec_deleted [OF I(1,3,4) ex(4)] I(5) by (simp add: ex(2))
qed simp

lemma standard_remove_effect:
  assumes inv: "standard_inv q" and h: "dict_get (receipts q) h = Some r" "validate_receipt_handle ext q h = Inr ()"
  defines "q1 \<equiv> snd (standard_remove ext h q)"
  shows "standard_remove ext h q = (Inr (), q1)" "standard_inv q1" "r < next_ref q1" "deleted (obj q1 r)"
    "standard_remove ext h q1 = (Inr (), q1)"
proof -
  have wf: "queue_wf (visible q) q" using inv by (simp add: standard_inv_def)
  have rem: "standard_remove ext h q = (Inr (), standard_on_remove_message r (forget_message r q))"
    using standard.queue_remove_cases [OF wf h, of "\<lambda>_ _. Inr ()"] by (simp add: standard_remove_def)
  then have q1: "q1 = standard_on_remove_message r (forget_message r q)" by (simp add: q1_def)
  show "standard_remove ext h q = (Inr (), q1)" using rem q1 by simp
  then show "standard_inv q1" by (rule standard_inv_remove [OF inv])
  show "r < next_ref q1" "deleted (obj q1 r)"
    using receipts_okD(1) [OF queue_wf_receipts [OF wf] h(1)] by (simp_all add: q1 standard_on_remove_message_def)
  have "dict_get (receipts q1) h = None"
    using receipts_okD(3) [OF queue_wf_receipts [OF wf] h(1)]
    by (simp add: q1 standard_on_remove_message_def map_of_filter_keys)
  moreover have "validate_receipt_handle ext q1 h = Inr ()"
    using h(2) by (simp add: validate_receipt_handle_def q1 standard_on_remove_message_def queue_arn_def)
  ultimately show "standard_remove ext h q1 = (Inr (), q1)" by (simp add: standard_remove_def queue_remove_def)
qed

lemma standard_inv_deleted:
  "standard_inv q \<Longrightarrow> deleted (obj q r) \<Longrightarrow> r \<notin> set (visible q @ inflight q @ delayed q)"
  using queue_wf_ref [of "visible q" q r] by (auto simp: standard_inv_def)

text \<open>
  C17: acknowledgement. Deleting a received message with the receipt handle returned for it succeeds; from then
  on the message is in no container of the queue, no later receive returns it, whatever happens to the
  queue, and deleting it again succeeds without any effect.
\<close>

theorem acknowledged_message_is_gone:
  assumes "standard_reachable ext uid (q, n, t)" "uids_ok uid" "handles_readable ext uid q"
    and "standard_receive ext (\<lambda>i. uid (n + i)) now num wait_time timeout poll q = (Inr res, q1)"
    and "i < length (successful res)" "r = successful res ! i" "handle_word (mid q r)" "h = result_handles res ! i"
    and "q2 = snd (standard_remove ext h q1)"
    and "standard_run ext uid (q2, n + length (result_handles res), now) outs (q3, n3, t3)"
  shows "standard_remove ext h q1 = (Inr (), q2) \<and> r \<notin> set (visible q2 @ inflight q2 @ delayed q2) \<and>
    r \<notin> set outs \<and> r \<notin> set (visible q3 @ inflight q3 @ delayed q3) \<and> standard_remove ext h q2 = (Inr (), q2)"
proof -
  from standard_reachable_inv [OF assms(1,2)] have I: "standard_inv q" "handles_below ext uid n q" by simp_all
  note fresh = handles_below_fresh [OF assms(2) I(2)]
  let ?n = "n + length (result_handles res)"
  have I1: "standard_inv q1" "handles_below ext uid ?n q1"
    using standard_exec_inv [OF assms(2) I, of "Receive num wait_time timeout poll" now] assms(4) by simp_all
  note h = standard_receive_handles [OF I(1) fresh assms(4,5), folded assms(6,8)]
  note rem = standard_remove_effect [OF I1(1) h(1) h(2) [OF assms(3,7)], folded assms(9)]
  have "handles_below ext uid ?n q2"
    using standard_exec_inv [OF assms(2) I1, of "Remove h" now] rem(1) by simp
  then show ?thesis
    using standard_run_deleted [OF assms(10,2), of r] rem standard_inv_deleted [of q2 r] standard_inv_deleted [of q3 r] by auto
qed

lemma demo_readable: "handles_readable demo_ext demo_uid demo_q2" "handle_word (mid demo_q2 0)"
proof -
  have d: "is_ascii s" if "list_all is_digit_char s" for s
    using that by (auto simp: is_ascii_def list_all_iff is_digit_char_def in_range_def)
  have "CHR '' '' \<notin> set s" if "list_all is_digit_char s" for s
    using that by (auto simp: list_all_iff is_digit_char_def in_range_def)
  moreover have "list_all is_digit_char (str_of_nat k)" for k using set_str_of_nat by (auto simp: list_all_iff)
  ultimately have "handle_word (str_of_int k)" for k
    using d by (auto simp: handle_word_def str_of_int_def is_ascii_def)
  moreover have "handle_word (queue_arn demo_q2)" "\<not> isl (ext_parse_arn demo_ext (queue_arn demo_q2))" "handle_word (mid demo_q2 0)"
    by code_simp+
  moreover have "handle_word (demo_uid i)" for i by (auto simp: handle_word_def demo_uid_def is_ascii_def list_all_iff)
  ultimately show "handles_readable demo_ext demo_uid demo_q2" "handle_word (mid demo_q2 0)"
    by (auto simp: handles_readable_def demo_ext_def)
qed

theorem acknowledged_message_is_gone_witness:
  "\<exists>res q1. standard_receive demo_ext (\<lambda>i. demo_uid (0 + i)) 3 1 None None False demo_q2 = (Inr res, q1) \<and>
     successful res = [0] \<and> (\<exists>q2. standard_remove demo_ext (result_handles res ! 0) q1 = (Inr (), q2) \<and> 0 \<notin> set (inflight q2))"
proof (rule demo_received)
  fix res q1 assume r: "standard_receive demo_ext (\<lambda>i. demo_uid (0 + i)) 3 1 None None False demo_q2 = (Inr res, q1)"
    "successful res = [0]"
  have "0 < length (successful res)" "0 = successful res ! 0" using r(2) by simp_all
  from acknowledged_message_is_gone [OF demo_reachable demo_uids demo_readable(1) r(1) this demo_readable(2) refl refl standard_run.stop]
  show ?thesis using r by (intro exI conjI) auto
qed

subsection \<open>Redelivery\<close>


lemma demo_step3:
  "standard_step demo_ext demo_uid (demo_q2, 0, 2) (Receive 1 None None False) [0] (snd demo_receive, 1, 3)"
proof -
  obtain res q1 where r: "standard_receive demo_ext (\<lambda>i. demo_uid (0 + i)) 3 1 None None False demo_q2 = (Inr res, q1)"
    "successful res = [0]" by (rule demo_received)
  then have d: "demo_receive = (Inr res, q1)" unfolding demo_receive_def add_0 by simp
  have "length (result_handles res) = 1" using demo_receive_result unfolding d by simp
  then show ?thesis by (intro standard_step.step) (simp_all add: r [unfolded add_0] d)
qed


subsection \<open>The life cycle of a message\<close>

text \<open>
  The abstract view of a queue gives each message id the state its message is in. Each event may move a
  message only along these edges; a handle that an event uses belongs to one message, its \<open>owner\<close>.
\<close>

datatype message_state = Absent | Postponed | Ready | InFlight

definition message_state :: "standard_queue \<Rightarrow> string \<Rightarrow> message_state" where
  "message_state q i =
     (if i \<in> mid q ` set (visible q) then Ready else if i \<in> mid q ` set (inflight q) then InFlight
      else if i \<in> mid q ` set (delayed q) then Postponed else Absent)"

fun handle_owner :: "standard_queue \<Rightarrow> standard_event \<Rightarrow> string option" where
  "handle_owner q (Remove h) = map_option (mid q) (dict_get (receipts q) h)"
| "handle_owner q (ChangeVisibility h v) = map_option (mid q) (dict_get (receipts q) h)"
| "handle_owner q _ = None"

fun life_step :: "standard_event \<Rightarrow> string option \<Rightarrow> string \<Rightarrow> message_state \<Rightarrow> message_state \<Rightarrow> bool" where
  "life_step (Put _ msg _ _ _ _) own i a b \<longleftrightarrow> i = MessageId msg \<and> a = Absent \<and> (b = Ready \<or> b = Postponed)"
| "life_step (Receive _ _ _ _) own i a b \<longleftrightarrow> a = Ready \<and> (b = InFlight \<or> b = Absent)"
| "life_step (Remove h) own i a b \<longleftrightarrow> own = Some i \<and> (a = Ready \<or> a = InFlight) \<and> b = Absent"
| "life_step (ChangeVisibility h v) own i a b \<longleftrightarrow> own = Some i \<and> v = 0 \<and> a = InFlight \<and> b = Ready"
| "life_step RequeueInflight own i a b \<longleftrightarrow> a = InFlight \<and> b = Ready"
| "life_step EnqueueDelayed own i a b \<longleftrightarrow> a = Postponed \<and> b = Ready"
| "life_step RemoveExpired own i a b \<longleftrightarrow> a = Ready \<and> b = Absent"
| "life_step Clear own i a b \<longleftrightarrow> b = Absent"
| "life_step Shutdown own i a b \<longleftrightarrow> False"

text \<open>The containers of a well-formed queue share no message id, so the state of a message is its container.\<close>

lemma message_state_iff:
  assumes "standard_inv q"
  shows "message_state q i = Ready \<longleftrightarrow> i \<in> mid q ` set (visible q)"
    "message_state q i = InFlight \<longleftrightarrow> i \<in> mid q ` set (inflight q)"
    "message_state q i = Postponed \<longleftrightarrow> i \<in> mid q ` set (delayed q)"
    "message_state q i = Absent \<longleftrightarrow> i \<notin> mid q ` set (visible q @ inflight q @ delayed q)"
proof -
  have d: "distinct (map (mid q) (visible q) @ map (mid q) (inflight q) @ map (mid q) (delayed q))"
    using assms queue_wf_ids [of "visible q" q] unfolding standard_inv_def map_append by blast
  have dd: "mid q ` set (visible q) \<inter> mid q ` set (inflight q) = {}" "mid q ` set (visible q) \<inter> mid q ` set (delayed q) = {}"
    "mid q ` set (inflight q) \<inter> mid q ` set (delayed q) = {}"
    using d unfolding distinct_append set_append set_map by blast+
  have aux: "((if i \<in> A then Ready else if i \<in> B then InFlight else if i \<in> C then Postponed else Absent) = Ready \<longleftrightarrow> i \<in> A) \<and>
    ((if i \<in> A then Ready else if i \<in> B then InFlight else if i \<in> C then Postponed else Absent) = InFlight \<longleftrightarrow> i \<in> B) \<and>
    ((if i \<in> A then Ready else if i \<in> B then InFlight else if i \<in> C then Postponed else Absent) = Postponed \<longleftrightarrow> i \<in> C) \<and>
    ((if i \<in> A then Ready else if i \<in> B then InFlight else if i \<in> C then Postponed else Absent) = Absent \<longleftrightarrow> i \<notin> A \<union> (B \<union> C))"
    if "A \<inter> B = {}" "A \<inter> C = {}" "B \<inter> C = {}" for A B C :: "string set"
    using that by auto
  from aux [OF dd] show "message_state q i = Ready \<longleftrightarrow> i \<in> mid q ` set (visible q)"
    "message_state q i = InFlight \<longleftrightarrow> i \<in> mid q ` set (inflight q)"
    "message_state q i = Postponed \<longleftrightarrow> i \<in> mid q ` set (delayed q)"
    "message_state q i = Absent \<longleftrightarrow> i \<notin> mid q ` set (visible q @ inflight q @ delayed q)"
    unfolding message_state_def set_append image_Un by (simp_all only: simp_thms)
qed

abbreviation ids_in :: "(standard_queue \<Rightarrow> ref list) \<Rightarrow> standard_queue \<Rightarrow> string set" where
  "ids_in c q \<equiv> mid q ` set (c q)"

lemma life_put:
  assumes inv: "standard_inv q" and out: "standard_put now later msg timeout dedup_id group_id delay q = (res, q')"
    and fresh: "MessageId msg \<notin> mid q ` set (visible q @ inflight q @ delayed q)"
  shows "q' = q \<or> ids_in inflight q' = ids_in inflight q \<and>
     (ids_in visible q' = insert (MessageId msg) (ids_in visible q) \<and> ids_in delayed q' = ids_in delayed q \<or>
      ids_in visible q' = ids_in visible q \<and> ids_in delayed q' = insert (MessageId msg) (ids_in delayed q))"
  using out
proof (cases rule: standard_put_cases)
  case (2 v d m r q1)
  have m: "message_id m = MessageId msg" by (simp add: 2(4) sqs_message_init_def)
  have q1: "q1 = q\<lparr>objs := (objs q)(r := m), next_ref := Suc r\<rparr>" "r = next_ref q" using 2(5) by (auto simp: new_obj_def)
  have old: "x \<noteq> r" if "x \<in> set (visible q @ inflight q @ delayed q)" for x
    using inv that queue_wf_ref [of "visible q" q x] by (auto simp: standard_inv_def q1(2))
  have mids: "mid q1 ` set xs = mid q ` set xs" if "set xs \<subseteq> set (visible q @ inflight q @ delayed q)" for xs
    using old that by (intro image_cong) (auto simp: q1(1))
  have same: "mid q1 ` set (visible q) = ids_in visible q" "mid q1 ` set (inflight q) = ids_in inflight q"
    "mid q1 ` set (delayed q) = ids_in delayed q" by (rule mids; force)+
  have new: "mid q1 r = MessageId msg" by (simp add: q1(1) m)
  show ?thesis
  proof (cases "is_delayed later m")
    case True
    have "\<not> in_by_id q1 r (delayed q1)"
      using fresh same(3) new by (auto simp: in_by_id_iff q1(1) simp del: fun_upd_apply)
    then have "q' = q1\<lparr>delayed := delayed q @ [r]\<rparr>"
      using 2(7) True by (simp add: add_delayed_message_def add_by_id_def q1(1))
    then show ?thesis using same new q1(1) by (auto simp: image_Un simp del: fun_upd_apply)
  next
    case False
    then have q': "q' = standard_put_message r q1" using 2(7) by simp
    have "set (visible q') = insert r (set (visible q))" by (simp add: q' standard_put_message_def set_heappush q1(1))
    then show ?thesis using same new by (simp add: q' standard_put_message_def) (simp add: q1(1))
  qed
qed simp

lemma life_receive:
  assumes inv: "standard_inv q" and fresh: "fresh_handles ext fresh q"
    and out: "standard_receive ext fresh now num wait_time timeout poll q = (res, q')"
  shows "ids_in visible q' \<union> ids_in inflight q' \<subseteq> ids_in visible q \<union> ids_in inflight q"
    "ids_in inflight q \<subseteq> ids_in inflight q'" "ids_in delayed q' = ids_in delayed q"
proof -
  have first: "set (visible q1) \<union> set xs = set (visible q) \<and> inflight q1 = inflight q \<and> delayed q1 = delayed q \<and>
      (\<forall>x. mid q1 x = mid q x)" if "collects now v limit num q [] [] xs r q1" for v limit xs r q1
  proof -
    have q1: "q1 = q\<lparr>objs := (\<lambda>r. if r \<in> set xs then received now v limit (obj q r) else obj q r), visible := visible q1\<rparr>"
      and ms: "mset (visible q) = mset xs + mset (visible q1)" using that by (simp_all add: collects_def)
    have "set (visible q) = set xs \<union> set (visible q1)" using ms by (metis set_mset_mset set_mset_union)
    moreover have "inflight q1 = inflight q" "delayed q1 = delayed q" "\<forall>x. mid q1 x = mid q x" by (subst q1, simp)+
    ultimately show ?thesis by auto
  qed
  have "ids_in visible q' \<union> ids_in inflight q' \<subseteq> ids_in visible q \<union> ids_in inflight q \<and>
    ids_in inflight q \<subseteq> ids_in inflight q' \<and> ids_in delayed q' = ids_in delayed q"
    using inv out
  proof (cases rule: standard_receive_cases)
    case (2 e v limit xs)
    have m: "mid q' = mid q" using first [OF 2(2)] by auto
    show ?thesis unfolding m using first [OF 2(2)] by auto
  next
    case (3 v limit xs ok dead q1 handles)
    have ok: "ok = filter (\<lambda>r. \<not> exceeds_max_receive_count limit (received now v limit (obj q r))) xs"
      using 3(3) by (simp add: collects_def)
    have wf1: "queue_wf (visible q1 @ ok) q1" unfolding ok by (rule collects_wf(2) [OF inv 3(3)])
    note s = standard.hand_out_all_spec [OF wf1 collects_wf(1) [OF inv 3(3)] collects_fresh_handles(1) [OF 3(3) fresh] 3(4)]
    have "set (visible q') \<union> set (inflight q') = set (visible q1) \<union> set (inflight q1) \<union> set ok"
      using s by (metis set_mset_mset set_mset_union)
    moreover have "set ok \<subseteq> set xs" by (auto simp: ok)
    moreover have f: "set (visible q1) \<union> set xs = set (visible q)" "inflight q1 = inflight q" using first [OF 3(3)] by simp_all
    ultimately have sub: "set (visible q') \<union> set (inflight q') \<subseteq> set (visible q) \<union> set (inflight q)"
      unfolding f(1) [symmetric] f(2) by (simp only:) auto
    have inf: "set (inflight q) \<subseteq> set (inflight q')" "delayed q' = delayed q"
      using first [OF 3(3)] standard.hand_out_all_frame [OF 3(4)] s by simp_all
    have m: "mid q' = mid q" using first [OF 3(3)] standard.hand_out_all_frame [OF 3(4)] by auto
    show ?thesis unfolding m inf(2) image_Un [symmetric] using sub inf(1) by (intro conjI image_mono refl)
  qed simp
  then show "ids_in visible q' \<union> ids_in inflight q' \<subseteq> ids_in visible q \<union> ids_in inflight q"
    "ids_in inflight q \<subseteq> ids_in inflight q'" "ids_in delayed q' = ids_in delayed q" by blast+
qed

lemma life_remove:
  assumes inv: "standard_inv q" and h: "dict_get (receipts q) h = Some r"
    and q': "q' = standard_on_remove_message r (forget_message r q)"
  shows "ids_in visible q' = ids_in visible q - {mid q r}" "ids_in inflight q' = ids_in inflight q - {mid q r}"
    "ids_in delayed q' = ids_in delayed q"
proof -
  let ?q1 = "forget_message r q"
  have m: "mid ?q1 = mid q" "mid q' = mid q" by (auto simp: q' standard_on_remove_message_def)
  have d: "distinct (map (mid ?q1) (visible ?q1 @ inflight ?q1))"
    using inv queue_wf_ids [of "visible q" q] unfolding m by (simp add: standard_inv_def Int_Un_distrib)
  have gone: "mid q r \<notin> mid q ` (set (visible q') \<union> set (inflight q'))"
    using standard_on_remove_gone [OF d q'] unfolding m by simp
  have hp: "set (heapify f xs) = set xs" for f :: "ref \<Rightarrow> time" and xs
    using heapify_spec(2) [of f xs] by (metis set_mset_mset)
  have sub: "set (visible q') \<subseteq> set (visible q)" "set (inflight q') \<subseteq> set (inflight q)"
    using set_remove_by_id [of ?q1 r] by (auto simp: q' standard_on_remove_message_def hp)
  have keep: "x \<in> set (visible q) \<Longrightarrow> x \<in> set (visible q')" "x \<in> set (inflight q) \<Longrightarrow> x \<in> set (inflight q')"
    if "mid q x \<noteq> mid q r" for x
    using that remove_by_id_keeps [of x _ ?q1 r] fun_cong [OF m(1)] by (auto simp: q' standard_on_remove_message_def hp)
  show "ids_in visible q' = ids_in visible q - {mid q r}" "ids_in inflight q' = ids_in inflight q - {mid q r}"
    unfolding m using gone sub keep by (auto simp: image_Un) (metis imageI)+
  show "ids_in delayed q' = ids_in delayed q" unfolding m by (simp add: q' standard_on_remove_message_def)
qed

lemma life_visibility:
  assumes inv: "standard_inv q" and out: "standard_update_visibility_timeout ext now h v q = (res, q')"
  shows "ids_in visible q' = ids_in visible q \<and> ids_in inflight q' = ids_in inflight q \<and> ids_in delayed q' = ids_in delayed q \<or>
    (\<exists>r. dict_get (receipts q) h = Some r \<and> v = 0 \<and> mid q r \<in> ids_in inflight q \<and>
      ids_in visible q' = insert (mid q r) (ids_in visible q) \<and> ids_in inflight q' = ids_in inflight q - {mid q r} \<and>
      ids_in delayed q' = ids_in delayed q)"
proof (cases "q' = q")
  case False
  then obtain r where r: "dict_get (receipts q) h = Some r" "in_by_id q r (inflight q)"
    using out by (auto simp: standard_update_visibility_timeout_def queue_update_visibility_timeout_def
        split: sum.splits option.splits if_splits)
  define q1 where "q1 = upd_obj r (update_visibility_timeout now v) q"
  have m1: "mid q1 = mid q" by (auto simp: q1_def update_visibility_timeout_def)
  define q2 where "q2 = standard_put_message r (q1\<lparr>inflight := remove_by_id q1 r (inflight q1)\<rparr>)"
  have q': "q' = (if v = 0 then q2 else q1)"
    using out r False by (auto simp: standard_update_visibility_timeout_def queue_update_visibility_timeout_def Let_def
        q1_def q2_def split: sum.splits)
  have "distinct (map (mid q1) (inflight q1))"
    using inv queue_wf_ids [of "visible q" q] unfolding m1 by (simp add: standard_inv_def q1_def)
  note filter = remove_by_id_filter [OF this, of r]
  have mm: "mid q1 x = mid q x" for x by (rule fun_cong [OF m1])
  have rem: "remove_by_id q1 r (inflight q1) = filter (\<lambda>x. mid q x \<noteq> mid q r) (inflight q)"
    using filter unfolding mm by (simp add: q1_def)
  have m2: "mid q2 = mid q" using m1 by (simp add: q2_def standard_put_message_def)
  have vis: "set (visible q2) = insert r (set (visible q))" by (simp add: q2_def standard_put_message_def set_heappush q1_def upd_obj_def)
  have "inflight q2 = remove_by_id q1 r (inflight q1)" "delayed q2 = delayed q"
    by (simp_all add: q2_def standard_put_message_def) (simp add: q1_def)
  then have two: "ids_in visible q2 = insert (mid q r) (ids_in visible q)" "ids_in inflight q2 = ids_in inflight q - {mid q r}"
      "ids_in delayed q2 = ids_in delayed q"
    unfolding m2 vis rem by auto
  have one: "ids_in visible q1 = ids_in visible q" "ids_in inflight q1 = ids_in inflight q" "ids_in delayed q1 = ids_in delayed q"
    unfolding m1 by (simp_all add: q1_def upd_obj_def)
  show ?thesis
  proof (cases "v = 0")
    case True
    then show ?thesis using r(1) r(2) [unfolded in_by_id_iff] two by (intro disjI2 exI [of _ r]) (simp add: q')
  next
    case False
    then show ?thesis using one by (simp add: q')
  qed
qed simp

lemma life_expired:
  assumes inv: "standard_inv q" and out: "standard_remove_expired_messages now q = (res, q')"
  shows "ids_in visible q' \<subseteq> ids_in visible q \<and> ids_in inflight q' = ids_in inflight q \<and> ids_in delayed q' = ids_in delayed q"
proof (cases "message_retention_period q")
  case (Inr retention)
  obtain expired heap' where e: "remove_expired_messages_from_heap (objs q) now retention (visible q) = (expired, heap')"
    by fastforce
  have q': "q' = q\<lparr>visible := heap'\<rparr>" using out Inr e by (simp add: standard_remove_expired_messages_def)
  have "is_heap (msg_priority q) (visible q)" using inv by (simp add: standard_inv_def standard_ok_def)
  from remove_expired_loop_spec [OF this e [unfolded remove_expired_messages_from_heap_def]]
  have "mset (visible q) = mset expired + mset heap'" by auto
  then have "set heap' \<subseteq> set (visible q)" by (metis set_mset_mset set_mset_union sup_ge2)
  then show ?thesis by (auto simp: q')
qed (use out in \<open>simp add: standard_remove_expired_messages_def\<close>)

lemma life_exec:
  assumes uid: "uids_ok uid" and inv: "standard_inv q" and below: "handles_below ext uid n q" and adm: "admissible ev q"
    and out: "standard_exec ext uid now ev (q, n) = (rs, q', n')"
  shows "message_state q' i = message_state q i \<or>
    life_step ev (handle_owner q ev) i (message_state q i) (message_state q' i)"
proof -
  have inv': "standard_inv q'" using standard_exec_inv [OF uid inv below adm out] by simp
  define V F D V' F' D' where sets: "V = ids_in visible q" "F = ids_in inflight q" "D = ids_in delayed q"
    "V' = ids_in visible q'" "F' = ids_in inflight q'" "D' = ids_in delayed q'"
  note st = message_state_iff [OF inv, of i, unfolded set_append image_Un Un_iff, folded sets]
    message_state_iff [OF inv', of i, unfolded set_append image_Un Un_iff, folded sets]
  have wf: "queue_wf (visible q) q" and ok: "standard_ok q" using inv by (simp_all add: standard_inv_def)
  have same: "message_state q' i = message_state q i" if "V' = V" "F' = F" "D' = D"
    using that unfolding sets by (simp only: message_state_def)
  show ?thesis
  proof (cases ev)
    case (Put later msg timeout dedup_id group_id delay)
    then obtain res where p: "standard_put now later msg timeout dedup_id group_id delay q = (res, q')"
      using out by (cases "standard_put now later msg timeout dedup_id group_id delay q") auto
    have fresh: "MessageId msg \<notin> mid q ` set (visible q @ inflight q @ delayed q)" using adm Put by simp
    then have "MessageId msg \<notin> V \<union> (F \<union> D)" unfolding sets set_append image_Un by simp
    then show ?thesis
      using life_put [OF inv p fresh, folded sets] Put
      by (cases "message_state q i"; cases "message_state q' i"; use st in auto)
  next
    case (Receive num wait timeout poll)
    obtain res where o: "standard_receive ext (\<lambda>i. uid (n + i)) now num wait timeout poll q = (res, q')"
      using out Receive by (auto split: prod.splits sum.splits)
    show ?thesis
      using life_receive [OF inv handles_below_fresh [OF uid below] o, folded sets] Receive
      by (cases "message_state q i"; cases "message_state q' i"; use st in auto)
  next
    case (Remove h)
    then obtain res where o: "standard_remove ext h q = (res, q')"
      using out by (cases "standard_remove ext h q") auto
    from inv o show ?thesis
    proof (cases rule: standard_remove_cases)
      case (removed r)
      show ?thesis
        using life_remove [OF inv removed(2,4), folded sets] removed(2) Remove
        by (cases "message_state q i"; cases "message_state q' i"; use st in auto)
    qed simp
  next
    case (ChangeVisibility h v)
    then obtain res where o: "standard_update_visibility_timeout ext now h v q = (res, q')"
      using out by (cases "standard_update_visibility_timeout ext now h v q") auto
    show ?thesis
      using life_visibility [OF inv o, folded sets] ChangeVisibility same
      by (cases "message_state q i"; cases "message_state q' i"; use st in auto)
  next
    case RequeueInflight
    have q': "q' = requeue_inflight_messages standard_put_message now q"
      using out RequeueInflight by (simp add: standard_requeue_inflight_messages_def)
    note r = standard.requeue_spec(3-6) [OF wf ok q']
    have "set (visible q') = set (visible q) \<union> set (filter (\<lambda>r. is_visible now (obj q r)) (inflight q))"
      using r(1) by (metis set_mset_mset set_mset_union)
    then have "V \<subseteq> V'" "V' \<subseteq> V \<union> F" "F' \<subseteq> F" "V \<union> F \<subseteq> V' \<union> F'" "D' = D"
      unfolding sets r(2-4) by auto
    then show ?thesis
      using RequeueInflight by (cases "message_state q i"; cases "message_state q' i"; use st in auto)
  next
    case EnqueueDelayed
    have q': "q' = enqueue_delayed_messages standard_put_message now q"
      using out EnqueueDelayed by (simp add: standard_enqueue_delayed_messages_def)
    note r = standard.enqueue_spec(3-6) [OF wf ok q']
    have "set (visible q') = set (visible q) \<union> set (filter (\<lambda>r. \<not> is_delayed now (obj q r)) (delayed q))"
      using r(1) by (metis set_mset_mset set_mset_union)
    then have "V \<subseteq> V'" "V' \<subseteq> V \<union> D" "D' \<subseteq> D" "V \<union> D \<subseteq> V' \<union> D'" "F' = F"
      unfolding sets r(2-4) by auto
    then show ?thesis
      using EnqueueDelayed by (cases "message_state q i"; cases "message_state q' i"; use st in auto)
  next
    case RemoveExpired
    then obtain res where o: "standard_remove_expired_messages now q = (res, q')"
      using out by (cases "standard_remove_expired_messages now q") auto
    have "V' \<subseteq> V \<and> F' = F \<and> D' = D" unfolding sets by (rule life_expired [OF inv o])
    then show ?thesis
      using RemoveExpired by (cases "message_state q i"; cases "message_state q' i"; use st in auto)
  next
    case Clear
    then have "V' = {}" "F' = {}" "D' = {}" using out unfolding sets by (auto simp: standard_clear_def clear_base_def)
    then show ?thesis using Clear st by auto
  next
    case Shutdown
    then show ?thesis using out same unfolding sets by (auto simp: queue_shutdown_def)
  qed
qed

text \<open>
  C19: refinement. Seen through the states of its messages, every step of a standard queue is a step of the
  life cycle: each message either stays where it is or moves along an edge that the event allows, and every
  message a step returns was ready.
\<close>

theorem standard_queue_refines_life_cycle:
  assumes "standard_reachable ext uid (q, n, t)" "uids_ok uid" "standard_step ext uid (q, n, t) ev out (q', n', now)"
  shows "(message_state q' i = message_state q i \<or>
      life_step ev (handle_owner q ev) i (message_state q i) (message_state q' i)) \<and>
    list_all (\<lambda>r. message_state q (mid q r) = Ready) out"
proof -
  from standard_reachable_inv [OF assms(1,2)] have I: "standard_inv q" "handles_below ext uid n q" by simp_all
  from assms(3) have ex: "admissible ev q" "standard_exec ext uid now ev (q, n) = (out, q', n')" by (auto elim: standard_stepE)
  have "set out \<subseteq> set (visible q)"
  proof (cases ev)
    case (Receive num wait timeout poll)
    then obtain res where "standard_receive ext (\<lambda>i. uid (n + i)) now num wait timeout poll q = (res, q')"
        "out = (case res of Inl _ \<Rightarrow> [] | Inr x \<Rightarrow> successful x)"
      using ex(2) by (auto split: prod.splits sum.splits)
    then show ?thesis using standard_receive_from_visible [OF I(1)] by (simp split: sum.splits)
  qed (use ex(2) in auto)
  then have "list_all (\<lambda>r. message_state q (mid q r) = Ready) out" by (auto simp: list_all_iff message_state_def)
  then show ?thesis using life_exec [OF assms(2) I ex] by simp
qed

theorem standard_queue_refines_life_cycle_witness:
  "message_state demo_q2 ''m1'' = Ready \<and>
   message_state (snd demo_receive) ''m1'' \<in> {Ready, InFlight, Absent}"
proof -
  have "message_state demo_q2 ''m1'' = Ready" unfolding message_state_def demo_visible(1) by (simp add: demo_visible(7))
  then show ?thesis
    using standard_queue_refines_life_cycle [OF demo_reachable demo_uids demo_step3, of "''m1''"] by auto
qed

end
