(* ===== verification/SqsFifo.thy ===== *)
theory SqsFifo
  imports SqsStandard
begin

text \<open>
  \<open>services/sqs/models.py\<close>, classes \<open>MessageGroup\<close> and \<open>FifoQueue\<close>. A FIFO queue keeps one heap of
  messages for each message group; a group that has messages ready is in \<open>message_group_queue\<close>, a group
  that has messages in flight is in \<open>inflight_groups\<close>. Groups compare by their id, so the containers hold
  group ids and the messages of a group are looked up in \<open>message_groups\<close>.
\<close>

subsection \<open>State\<close>

type_synonym group_id = "string option"

record fifo_queue = sqs_queue +
  deduplication :: "(string, ref) dict"
  message_groups :: "(group_id, ref list) dict"
  inflight_groups :: "group_id list"
  message_group_queue :: "group_id list"
  deduplication_scope :: string

definition is_fifo_queue :: "'a sqs_queue_scheme \<Rightarrow> bool" where
  "is_fifo_queue q \<longleftrightarrow>
     ''true'' = py_lower (case dict_get (attributes q) ''FifoQueue'' of Some v \<Rightarrow> v | None \<Rightarrow> ''false'')"

definition is_message_deduplication_id_required :: "'a sqs_queue_scheme \<Rightarrow> bool" where
  "is_message_deduplication_id_required q \<longleftrightarrow>
     is_fifo_queue q \<and>
     ''false'' = py_lower (case dict_get (attributes q) ''ContentBasedDeduplication'' of Some v \<Rightarrow> v | None \<Rightarrow> ''false'')"

definition group_messages :: "fifo_queue \<Rightarrow> group_id \<Rightarrow> ref list" where
  "group_messages q g = (case dict_get (message_groups q) g of Some h \<Rightarrow> h | None \<Rightarrow> [])"

definition fifo_waiting :: "fifo_queue \<Rightarrow> ref list" where
  "fifo_waiting q = concat (map snd (message_groups q))"

definition get_message_group :: "group_id \<Rightarrow> fifo_queue \<Rightarrow> fifo_queue" where
  "get_message_group g q =
     (if dict_has (message_groups q) g then q else q\<lparr>message_groups := dict_set g [] (message_groups q)\<rparr>)"

subsubsection \<open>Message groups\<close>

definition group_empty :: "fifo_queue \<Rightarrow> group_id \<Rightarrow> bool" where
  "group_empty q g \<longleftrightarrow> group_messages q g = []"

definition group_pop :: "group_id \<Rightarrow> fifo_queue \<Rightarrow> (ref \<times> fifo_queue) option" where
  "group_pop g q =
     (case heappop (msg_priority q) (group_messages q g) of
        None \<Rightarrow> None
      | Some (r, rest) \<Rightarrow> Some (r, q\<lparr>message_groups := dict_set g rest (message_groups q)\<rparr>))"

definition group_push :: "group_id \<Rightarrow> ref \<Rightarrow> fifo_queue \<Rightarrow> fifo_queue" where
  "group_push g r q =
     q\<lparr>message_groups := dict_set g (heappush (msg_priority q) (group_messages q g) r) (message_groups q)\<rparr>"

subsection \<open>Creation and attributes\<close>

definition fifo_default_attributes :: "time \<Rightarrow> string \<Rightarrow> (string, string) dict" where
  "fifo_default_attributes now arn =
     dict_update (default_attributes now arn)
       [(''ContentBasedDeduplication'', ''false''), (''DeduplicationScope'', ''queue''), (''FifoThroughputLimit'', ''perQueue'')]"

definition fifo_assert_queue_name :: "string \<Rightarrow> unit result" where
  "fifo_assert_queue_name name =
     (if \<not> py_endswith name ''.fifo''
      then Inl (InvalidParameterValueException
        (''The name of a FIFO queue can only include alphanumeric characters, hyphens, or underscores, '' @
         ''must end with .fifo suffix and be 1 to 80 in length''))
      else assert_queue_name (take (length name - 5) name @ ''_fifo''))"

text \<open>
  The list of valid names is meant to leave out the internal attributes, but the test compares the
  (name, value) pair of an enum member with the names and so never excludes one.
\<close>

definition fifo_validate_queue_attributes :: "(string, string) dict \<Rightarrow> unit result" where
  "fifo_validate_queue_attributes attrs =
     bind_result (validate_receive_message_wait_time attrs) (\<lambda>_.
       case find (\<lambda>k. k \<notin> set QUEUE_ATTRIBUTE_NAMES) (map fst attrs) of
         Some k \<Rightarrow> Inl (InvalidAttributeName (''Unknown Attribute '' @ k @ ''.''))
       | None \<Rightarrow>
           (let fifo = dict_get attrs ''FifoQueue'' in
            if truthy fifo \<and> py_lower (the fifo) \<noteq> ''true''
            then Inl (InvalidAttributeValue
              ''Invalid value for the parameter FifoQueue. Reason: Modifying queue type is not supported.'')
            else Inr ()))"

definition fifo_queue_init ::
  "time \<Rightarrow> string \<Rightarrow> string \<Rightarrow> string \<Rightarrow> (string, string) dict option \<Rightarrow> (string, string) dict option \<Rightarrow>
   fifo_queue result" where
  "fifo_queue_init now name reg account attrs tgs =
     bind_result (fifo_assert_queue_name name) (\<lambda>_.
       let q = \<lparr>queue_name = name, region = reg, account_id = account, attributes = [],
                queue_tags = (case tgs of Some t \<Rightarrow> t | None \<Rightarrow> []), delayed = [], inflight = [], receipts = [],
                purge_timestamp = None, is_shutdown = False, objs = (\<lambda>_. no_message), next_ref = 0,
                deduplication = [], message_groups = [], inflight_groups = [], message_group_queue = [],
                deduplication_scope = []\<rparr>;
           defaults = fifo_default_attributes now (queue_arn q);
           finish = (\<lambda>q. case dict_get (attributes q) ''DeduplicationScope'' of
                           None \<Rightarrow> Inl (KeyError ''DeduplicationScope'')
                         | Some scope \<Rightarrow> Inr (q\<lparr>deduplication_scope := scope\<rparr>))
       in if truthy attrs
          then bind_result (fifo_validate_queue_attributes (the attrs)) (\<lambda>_.
                 finish (q\<lparr>attributes := dict_update defaults (the attrs)\<rparr>))
          else finish (q\<lparr>attributes := defaults\<rparr>))"

definition fifo_clear :: "fifo_queue \<Rightarrow> fifo_queue" where
  "fifo_clear q =
     (clear_base q)\<lparr>message_groups := [], inflight_groups := [], message_group_queue := [], deduplication := []\<rparr>"

definition fifo_approximate_number_of_messages :: "fifo_queue \<Rightarrow> nat" where
  "fifo_approximate_number_of_messages q = sum_list (map (\<lambda>g. length (snd g)) (message_groups q))"

definition fifo_update_delay_seconds :: "int \<Rightarrow> fifo_queue \<Rightarrow> fifo_queue" where
  "fifo_update_delay_seconds v q =
     fold (\<lambda>r. upd_obj r (\<lambda>m. m\<lparr>delay_seconds := Some v\<rparr>)) (delayed q) (update_delay_seconds_base v q)"

subsection \<open>Sending\<close>

definition fifo_put_message :: "ref \<Rightarrow> fifo_queue \<Rightarrow> fifo_queue" where
  "fifo_put_message r q =
     (let g = message_group_id (obj q r);
          q1 = get_message_group g q;
          previously_empty = group_empty q1 g;
          q2 = group_push g r q1
      in if receive_count (obj q r) < 1 \<and> g \<in> set (inflight_groups q2) then q2
         else if g \<in> set (inflight_groups q2)
         then q2\<lparr>inflight_groups := removeAll g (inflight_groups q2),
                 message_group_queue := message_group_queue q2 @ [g]\<rparr>
         else if previously_empty then q2\<lparr>message_group_queue := message_group_queue q2 @ [g]\<rparr>
         else q2)"

text \<open>A message with the same deduplication id was accepted less than five minutes ago, in the same scope.\<close>

definition is_duplicate :: "fifo_queue \<Rightarrow> string \<Rightarrow> sqs_message \<Rightarrow> ref option" where
  "is_duplicate q dedup_id m =
     (case dict_get (deduplication q) dedup_id of
        None \<Rightarrow> None
      | Some r \<Rightarrow>
          (if priority (obj q r) + DEDUPLICATION_INTERVAL_IN_SEC > priority m \<and>
              (deduplication_scope q \<noteq> ''messageGroup'' \<or> message_group_id m = message_group_id (obj q r))
           then Some r else None))"

text \<open>
  \<open>seq\<close> is the next number of the global message sequence, which every accepted request advances, and \<open>later\<close> is the
  clock when \<open>put\<close> asks whether the message is delayed.
\<close>

definition fifo_put ::
  "externals \<Rightarrow> time \<Rightarrow> time \<Rightarrow> int \<Rightarrow> api_message \<Rightarrow> int option \<Rightarrow> string option \<Rightarrow> string option \<Rightarrow> int option \<Rightarrow> fifo_queue \<Rightarrow>
   (ref result \<times> fifo_queue) \<times> int" where
  "fifo_put ext now later seq msg timeout dedup grp delay q =
     (if delay \<noteq> None \<and> delay \<noteq> Some 0
      then ((Inl (InvalidParameterValueException (''Value '' @ str_of_int (the delay) @
              '' for parameter DelaySeconds is invalid. Reason: The request include parameter '' @
              ''that is not valid for this queue type.'')), q), seq)
      else if \<not> truthy grp
      then ((Inl (MissingRequiredParameterException ''The request must contain the parameter MessageGroupId.''), q), seq)
      else
        let dedup_id = (if truthy dedup then the dedup
                        else if \<not> is_message_deduplication_id_required q then ext_sha256 ext (Body msg) else [])
        in if dedup_id = []
           then ((Inl (InvalidParameterValueException (''The queue should either have ContentBasedDeduplication '' @
                   ''enabled or MessageDeduplicationId provided explicitly'')), q), seq)
           else
             let m = sqs_message_init now now msg (Some dedup_id) grp (Some (str_of_int seq)) in
             (case (case timeout of Some v \<Rightarrow> Inr v | None \<Rightarrow> queue_visibility_timeout q) of
                Inl e \<Rightarrow> ((Inl e, q), seq + 1)
              | Inr v \<Rightarrow>
                  (case queue_delay_seconds q of
                     Inl e \<Rightarrow> ((Inl e, q), seq + 1)
                   | Inr d \<Rightarrow>
                       let m1 = m\<lparr>visibility_timeout := Some v, delay_seconds := Some d\<rparr> in
                       (case is_duplicate q dedup_id m1 of
                          Some orig \<Rightarrow>
                            (let (r, q1) = new_obj (m1\<lparr>message := (message m1)\<lparr>MessageId := mid q orig\<rparr>\<rparr>) q
                             in ((Inr r, q1), seq + 1))
                        | None \<Rightarrow>
                            (let (r, q1) = new_obj m1 q;
                                 q2 = (if is_delayed later m1 then add_delayed_message r q1 else fifo_put_message r q1)
                             in ((Inr r, q2\<lparr>deduplication := dict_set dedup_id r (deduplication q2)\<rparr>), seq + 1))))))"

fun fifo_requeue_loop :: "time \<Rightarrow> ref list \<Rightarrow> fifo_queue \<Rightarrow> fifo_queue" where
  "fifo_requeue_loop now [] q = q"
| "fifo_requeue_loop now (r # rs) q =
     (if \<not> is_visible now (obj q r) then q
      else fifo_requeue_loop now rs (fifo_put_message r (q\<lparr>inflight := remove_by_id q r (inflight q)\<rparr>)))"

definition fifo_requeue_inflight_messages :: "time \<Rightarrow> fifo_queue \<Rightarrow> fifo_queue" where
  "fifo_requeue_inflight_messages now q = fifo_requeue_loop now (inflight q) q"

definition fifo_enqueue_delayed_messages :: "time \<Rightarrow> fifo_queue \<Rightarrow> fifo_queue" where
  "fifo_enqueue_delayed_messages = enqueue_delayed_messages fifo_put_message"

definition fifo_remove_expired_messages :: "time \<Rightarrow> fifo_queue \<Rightarrow> unit result \<times> fifo_queue" where
  "fifo_remove_expired_messages now q =
     (case message_retention_period q of
        Inl e \<Rightarrow> (Inl e, q)
      | Inr retention \<Rightarrow>
          (Inr (), q\<lparr>message_groups :=
             map (\<lambda>(g, h). (g, snd (remove_expired_messages_from_heap (objs q) now retention h))) (message_groups q)\<rparr>))"

subsection \<open>Receiving\<close>

text \<open>The inner loop of \<open>receive\<close>: messages of one group, until it is empty or enough are found.\<close>

lemma group_pop_length:
  "group_pop g q = Some (r, q') \<Longrightarrow> length (group_messages q' g) < length (group_messages q g)"
  by (auto simp: group_pop_def group_messages_def split: option.splits dest: heappop_length)

lemma group_messages_upd_obj [simp]: "group_messages (upd_obj r f q) g = group_messages q g"
  by (simp add: group_messages_def upd_obj_def)

function fifo_collect_group ::
  "time \<Rightarrow> int \<Rightarrow> int option \<Rightarrow> int \<Rightarrow> group_id \<Rightarrow> fifo_queue \<Rightarrow> ref list \<Rightarrow> ref list \<Rightarrow>
   (ref list \<times> ref list) result \<times> fifo_queue" where
  "fifo_collect_group now timeout limit num g q ok dead =
     (case group_pop g q of
        None \<Rightarrow> (Inr (ok, dead), q)
      | Some (r, q1) \<Rightarrow>
          (if deleted (obj q1 r) then fifo_collect_group now timeout limit num g q1 ok dead
           else
             let q2 = upd_obj r (mark_received now timeout) q1 in
             if exceeds_max_receive_count limit (obj q2 r)
             then fifo_collect_group now timeout limit num g q2 ok (dead @ [r])
             else
               (case increment_approximate_receive_count (obj q2 r) of
                  Inl e \<Rightarrow> (Inl e, q2)
                | Inr m \<Rightarrow>
                    let q3 = upd_obj r (\<lambda>_. m) q2; ok' = ok @ [r] in
                    if int (length ok') = num then (Inr (ok', dead), q3)
                    else fifo_collect_group now timeout limit num g q3 ok' dead)))"
  by pat_completeness auto
termination
  by (relation "measure (\<lambda>(now, timeout, limit, num, g, q, ok, dead). length (group_messages q g))")
    (auto dest: group_pop_length)

declare fifo_collect_group.simps [simp del]

definition queue_popleft :: "'x list \<Rightarrow> ('x \<times> 'x list) option" where
  "queue_popleft xs = (case xs of [] \<Rightarrow> None | x # rest \<Rightarrow> Some (x, rest))"

lemma group_pop_queue: "group_pop g q = Some (r, q') \<Longrightarrow> message_group_queue q' = message_group_queue q"
  by (auto simp: group_pop_def split: option.splits)

lemma collect_group_queue:
  "fifo_collect_group now timeout limit num g q ok dead = (res, q') \<Longrightarrow> message_group_queue q' = message_group_queue q"
proof (induction "length (group_messages q g)" arbitrary: q ok dead rule: less_induct)
  case less
  note out = less.prems [unfolded fifo_collect_group.simps [of now timeout limit num g q ok dead]]
  show ?case
  proof (cases "group_pop g q")
    case None
    then show ?thesis using out by simp
  next
    case (Some rq)
    obtain r q1 where p: "group_pop g q = Some (r, q1)" using Some by (cases rq) simp
    note len = group_pop_length [OF p] and q1 = group_pop_queue [OF p]
    let ?q2 = "upd_obj r (mark_received now timeout) q1"
    have upd: "message_group_queue (upd_obj r f q1) = message_group_queue q" for f by (simp add: upd_obj_def q1)
    have IH: "fifo_collect_group now timeout limit num g (upd_obj r f q1) ok' dead' = (res, q') \<Longrightarrow>
        message_group_queue q' = message_group_queue q" for f ok' dead'
      using less.hyps [of "upd_obj r f q1" ok' dead'] len upd by simp
    have twice: "upd_obj r (\<lambda>_. m) ?q2 = upd_obj r (\<lambda>_. m) q1" for m by (simp add: upd_obj_def)
    consider "deleted (obj q1 r)" | "\<not> deleted (obj q1 r)" "exceeds_max_receive_count limit (obj ?q2 r)"
      | "\<not> deleted (obj q1 r)" "\<not> exceeds_max_receive_count limit (obj ?q2 r)" by blast
    then show ?thesis
    proof cases
      case 1
      then show ?thesis using out less.hyps [OF len] q1 by (simp add: p)
    next
      case 2
      then show ?thesis using out IH by (simp add: p)
    next
      case 3
      show ?thesis
      proof (cases "increment_approximate_receive_count (obj ?q2 r)")
        case (Inl e)
        then show ?thesis using out 3 q1 by (auto simp: p upd_obj_def)
      next
        case (Inr m)
        show ?thesis
          using out 3 Inr IH [of "\<lambda>_. m" "ok @ [r]" dead] upd [of "\<lambda>_. m"]
          by (simp only: p option.case prod.case if_False Let_def sum.case twice) (auto split: if_splits)
      qed
    qed
  qed
qed

text \<open>The outer loop: the groups in the order of \<open>message_group_queue\<close>.\<close>

function fifo_collect ::
  "time \<Rightarrow> int \<Rightarrow> int option \<Rightarrow> int \<Rightarrow> bool \<Rightarrow> bool \<Rightarrow> int \<Rightarrow> fifo_queue \<Rightarrow> ref list \<Rightarrow> ref list \<Rightarrow>
   (ref list \<times> ref list) result \<times> fifo_queue" where
  "fifo_collect now timeout limit num poll block wait q ok dead =
     (case interruptible_get queue_popleft (is_shutdown q) block wait (message_group_queue q) of
        Inl e \<Rightarrow> (Inl e, q)
      | Inr None \<Rightarrow> (Inr (ok, dead), q)
      | Inr (Some (g, rest)) \<Rightarrow>
          (let q1 = q\<lparr>message_group_queue := rest\<rparr> in
           if group_empty q1 g then fifo_collect now timeout limit num poll block (max 0 wait) q1 ok dead
           else
             let q2 = q1\<lparr>inflight_groups := List.insert g (inflight_groups q1)\<rparr> in
             (case fifo_collect_group now timeout limit num g q2 ok dead of
                (Inl e, q3) \<Rightarrow> (Inl e, q3)
              | (Inr (ok', dead'), q3) \<Rightarrow>
                  if int (length ok') = num then (Inr (ok', dead'), q3)
                  else fifo_collect now timeout limit num poll (block \<and> poll) wait q3 ok' dead')))"
  by pat_completeness auto
termination
proof (relation "measure (\<lambda>(now, timeout, limit, num, poll, block, wait, q, ok, dead). length (message_group_queue q))",
    goal_cases)
  case 1
  show ?case by simp
next
  case (2 now timeout limit num poll block wait q ok dead b x g rest q1)
  then show ?case by (auto simp: interruptible_get_def queue_popleft_def split: if_splits list.splits)
next
  case (3 now timeout limit num poll block wait q ok dead b x g rest q1 q2 c d)
  then have "message_group_queue d = message_group_queue q2" by (metis collect_group_queue)
  then show ?case using 3(1-6) by (auto simp: interruptible_get_def queue_popleft_def split: if_splits list.splits)
qed

declare fifo_collect.simps [simp del]

definition fifo_receive ::
  "externals \<Rightarrow> (nat \<Rightarrow> string) \<Rightarrow> time \<Rightarrow> int \<Rightarrow> int option \<Rightarrow> int option \<Rightarrow> bool \<Rightarrow> fifo_queue \<Rightarrow>
   receive_message_result result \<times> fifo_queue" where
  "fifo_receive ext fresh now num wait_time timeout poll q =
     (case max_receive_count q of
        Inl e \<Rightarrow> (Inl e, q)
      | Inr limit \<Rightarrow>
          (case (case timeout of Some v \<Rightarrow> Inr v | None \<Rightarrow> queue_visibility_timeout q) of
             Inl e \<Rightarrow> (Inl e, q)
           | Inr v \<Rightarrow>
               let wait = (case wait_time of Some w \<Rightarrow> w | None \<Rightarrow> 0) in
               (case fifo_collect now v limit num poll (wait \<noteq> 0) wait q [] [] of
                  (Inl e, q1) \<Rightarrow> (Inl e, q1)
                | (Inr (ok, dead), q1) \<Rightarrow>
                    let (handles, q2) = hand_out_all fifo_put_message ext fresh ok q1
                    in (Inr \<lparr>successful = ok, result_handles = handles, dead_letter_messages = dead\<rparr>, q2))))"

subsection \<open>Removing\<close>

definition fifo_pre_delete_checks :: "time \<Rightarrow> sqs_message \<Rightarrow> string \<Rightarrow> unit result" where
  "fifo_pre_delete_checks now m receipt_handle =
     (if is_visible now m
      then Inl (InvalidParameterValueException (''Value '' @ receipt_handle @
             '' for parameter ReceiptHandle is invalid. Reason: The receipt handle has expired.''))
      else Inr ())"

definition update_message_group_visibility :: "group_id \<Rightarrow> fifo_queue \<Rightarrow> fifo_queue" where
  "update_message_group_visibility g q =
     (if g \<in> set (inflight_groups q)
      then if list_ex (\<lambda>r. message_group_id (obj q r) = g) (inflight q) then q
           else let q1 = q\<lparr>inflight_groups := removeAll g (inflight_groups q)\<rparr>
                in if group_empty q1 g then q1 else q1\<lparr>message_group_queue := message_group_queue q1 @ [g]\<rparr>
      else q)"

definition fifo_on_remove_message :: "ref \<Rightarrow> fifo_queue \<Rightarrow> fifo_queue" where
  "fifo_on_remove_message r q =
     (let g = message_group_id (obj q r);
          q1 = get_message_group g q;
          q2 = q1\<lparr>inflight := remove_by_id q1 r (inflight q1)\<rparr>
      in update_message_group_visibility g q2)"

text \<open>\<open>FifoQueue.remove\<close> checks the handle and calls the base class, which checks it again.\<close>

definition fifo_remove :: "externals \<Rightarrow> time \<Rightarrow> string \<Rightarrow> fifo_queue \<Rightarrow> unit result \<times> fifo_queue" where
  "fifo_remove ext now receipt_handle q =
     (case validate_receipt_handle ext q receipt_handle of
        Inl e \<Rightarrow> (Inl e, q)
      | Inr _ \<Rightarrow> queue_remove (fifo_pre_delete_checks now) fifo_on_remove_message ext receipt_handle q)"

definition fifo_update_visibility_timeout ::
  "externals \<Rightarrow> time \<Rightarrow> string \<Rightarrow> int \<Rightarrow> fifo_queue \<Rightarrow> unit result \<times> fifo_queue" where
  "fifo_update_visibility_timeout = queue_update_visibility_timeout fifo_put_message"

end
