(* ===== verification/SqsChecks.thy ===== *)
theory SqsChecks
  imports SqsModels
begin

text \<open>
  \<open>services/sqs/provider.py\<close>: the request checks, as functions to \<open>unit result\<close> that give the exception
  the code raises. Sizes are in bytes; the regular expressions of \<open>constants.py\<close> are written out on
  the code points of the text. \<open>re.match\<close> with a final \<open>$\<close> also accepts one trailing newline.
\<close>

abbreviation MissingParameter :: "string \<Rightarrow> exn" where
  "MissingParameter \<equiv> MissingRequiredParameterException"

abbreviation InvalidMessageContents :: "string \<Rightarrow> exn" where
  "InvalidMessageContents msg \<equiv> ServiceException ''InvalidMessageContents'' msg False"

abbreviation InvalidBatchEntryId :: "string \<Rightarrow> exn" where
  "InvalidBatchEntryId msg \<equiv> ServiceException ''InvalidBatchEntryId'' msg False"

definition code_points :: "string \<Rightarrow> nat list" where
  "code_points s = (case utf8_decode s of Some cs \<Rightarrow> cs | None \<Rightarrow> [])"

text \<open>\<open>^[class]{lo,hi}$\<close> on code points; \<open>None\<close> is no upper bound.\<close>

definition re_points_match :: "(nat \<Rightarrow> bool) \<Rightarrow> nat \<Rightarrow> nat option \<Rightarrow> string \<Rightarrow> bool" where
  "re_points_match cls lo hi s =
     (let ok = (\<lambda>cs. list_all cls cs \<and> lo \<le> length cs \<and> (case hi of Some h \<Rightarrow> length cs \<le> h | None \<Rightarrow> True));
          cs = code_points s
      in ok cs \<or> (cs \<noteq> [] \<and> last cs = 10 \<and> ok (butlast cs)))"

subsection \<open>Names and sizes\<close>

definition is_provider_name_char :: "char \<Rightarrow> bool" where
  "is_provider_name_char c \<longleftrightarrow> is_queue_name_char c \<or> c = CHR ''/''"

definition provider_assert_queue_name :: "string \<Rightarrow> bool \<Rightarrow> unit result" where
  "provider_assert_queue_name qname fifo =
     (let err = Inl (InvalidParameterValueException
            ''Can only include alphanumeric characters, hyphens, or underscores. 1 to 80 in length'')
      in if py_endswith qname ''.fifo'' \<and> \<not> fifo then err
         else
           let name = (if py_endswith qname ''.fifo'' then take (length qname - 5) qname @ ''_fifo''
                       else qname)
           in if re_class_match is_provider_name_char 1 80 name then Inr () else err)"

definition message_body_size :: "string \<Rightarrow> nat" where
  "message_body_size body = length body"

definition attr_value_size :: "attr_value \<Rightarrow> nat" where
  "attr_value_size a =
     sum_list (map (\<lambda>v. case v of Some s \<Rightarrow> length s | None \<Rightarrow> 0) [DataType a, StringValue a, BinaryValue a])"

definition message_attributes_size :: "attr_map option \<Rightarrow> nat" where
  "message_attributes_size attrs =
     (case attrs of
        None \<Rightarrow> 0
      | Some m \<Rightarrow> sum_list (map (\<lambda>(k, v). length k) m) + sum_list (map (\<lambda>(k, v). attr_value_size v) m))"

definition check_message_min_size :: "string \<Rightarrow> unit result" where
  "check_message_min_size body =
     (if message_body_size body = 0
      then Inl (MissingParameter ''The request must contain the parameter MessageBody.'') else Inr ())"

definition check_message_max_size :: "string \<Rightarrow> attr_map option \<Rightarrow> int \<Rightarrow> unit result" where
  "check_message_max_size body attrs max_size =
     (if int (message_body_size body + message_attributes_size attrs) > max_size
      then Inl (InvalidParameterValueException (''One or more parameters are invalid. '' @
             ''Reason: Message must be shorter than '' @ str_of_int max_size @ '' bytes.''))
      else Inr ())"

subsection \<open>Contents\<close>

definition is_content_point :: "nat \<Rightarrow> bool" where
  "is_content_point c \<longleftrightarrow>
     c = 0x9 \<or> c = 0xA \<or> c = 0xD \<or> (0x20 \<le> c \<and> c \<le> 0xD7FF) \<or> (0xE000 \<le> c \<and> c \<le> 0xFFFD) \<or>
     (0x10000 \<le> c \<and> c \<le> 0x10FFFF)"

lemma is_content_point_code [code]:
  "is_content_point c =
     (let i = int c in i = 0x9 \<or> i = 0xA \<or> i = 0xD \<or> (0x20 \<le> i \<and> i \<le> 0xD7FF) \<or> (0xE000 \<le> i \<and> i \<le> 0xFFFD) \<or>
      (0x10000 \<le> i \<and> i \<le> 0x10FFFF))"
  by (simp add: is_content_point_def Let_def)

definition content_error :: string where
  "content_error = ''Invalid characters found. Valid unicode characters are #x9 | #xA | #xD | #x20 to #xD7FF | '' @
     ''#xE000 to #xFFFD | #x10000 to #x10FFFF''"

definition check_message_content :: "string \<Rightarrow> unit result" where
  "check_message_content body =
     (if re_points_match is_content_point 0 None body then Inr () else Inl (InvalidMessageContents content_error))"

text \<open>
  \<open>ATTR_NAME_CHAR_REGEX\<close> is applied to the lower-cased name. Lower-casing maps the class
  \<open>[\u00c0-\u017fa-zA-Z0-9_.-]\<close> into itself except for U+0130, which becomes two characters of which the second is
  outside; the Kelvin sign, the Angstrom sign and the capital sharp s are the code points it maps into the class.
\<close>

definition is_attr_name_point :: "nat \<Rightarrow> bool" where
  "is_attr_name_point c \<longleftrightarrow>
     (0xC0 \<le> c \<and> c \<le> 0x17F \<and> c \<noteq> 0x130) \<or> (97 \<le> c \<and> c \<le> 122) \<or> (65 \<le> c \<and> c \<le> 90) \<or> (48 \<le> c \<and> c \<le> 57) \<or>
     c = 95 \<or> c = 46 \<or> c = 45 \<or> c = 0x212A \<or> c = 0x212B \<or> c = 0x1E9E"

lemma is_attr_name_point_code [code]:
  "is_attr_name_point c =
     (let i = int c in (0xC0 \<le> i \<and> i \<le> 0x17F \<and> i \<noteq> 0x130) \<or> (97 \<le> i \<and> i \<le> 122) \<or> (65 \<le> i \<and> i \<le> 90) \<or>
      (48 \<le> i \<and> i \<le> 57) \<or> i = 95 \<or> i = 46 \<or> i = 45 \<or> i = 0x212A \<or> i = 0x212B \<or> i = 0x1E9E)"
  by (simp add: is_attr_name_point_def Let_def)

text \<open>\<open>ATTR_NAME_PREFIX_SUFFIX_REGEX\<close>, on names that passed the first expression.\<close>

definition attr_name_affixes_ok :: "string \<Rightarrow> bool" where
  "attr_name_affixes_ok name =
     (let s = py_lower name;
          t = (if s \<noteq> [] \<and> last s = newline then butlast s else s)
      in \<not> py_startswith s ''aws.'' \<and> \<not> py_startswith s ''amazon.'' \<and> \<not> py_startswith s ''.'' \<and>
         (t = [] \<or> last t \<noteq> CHR ''.''))"

definition attr_type_ok :: "string \<Rightarrow> bool" where
  "attr_type_ok s =
     list_ex (\<lambda>p. py_startswith s p \<and> newline \<notin> set (butlast (drop (length p) s))) [''String'', ''Number'', ''Binary'']"

definition check_attribute :: "string \<Rightarrow> attr_value \<Rightarrow> unit result" where
  "check_attribute attribute_name attribute =
     (if py_len attribute_name \<ge> 256
      then Inl (InvalidParameterValueException ''Message (user) attribute names must be shorter than 256 Bytes'')
      else if \<not> re_points_match is_attr_name_point 0 None attribute_name
      then Inl (InvalidParameterValueException (''Message (user) attributes name can only contain upper and lower score '' @
             ''characters, digits, periods, hyphens and underscores. ''))
      else if \<not> attr_name_affixes_ok attribute_name
      then Inl (InvalidParameterValueException (''You can'' @ [CHR 39] @ ''t use message attribute names beginning with '' @
             [CHR 39] @ ''AWS.'' @ [CHR 39] @ '' or '' @ [CHR 39] @ ''Amazon.'' @ [CHR 39] @
             ''. These strings are reserved for internal use. Additionally, they cannot start or end with '' @
             [CHR 39] @ ''.'' @ [CHR 39] @ ''.''))
      else if \<not> truthy (DataType attribute)
      then Inl (InvalidParameterValueException ''Missing required parameter DataType'')
      else
        let attribute_type = the (DataType attribute) in
        if \<not> attr_type_ok attribute_type
        then Inl (InvalidParameterValueException (''Type for parameter MessageAttributes.Attribute_name.DataType must be '' @
               ''prefixedwith '' @ dq @ ''String'' @ dq @ '', '' @ dq @ ''Binary'' @ dq @ '', or '' @ dq @ ''Number'' @ dq @
               '', but was: '' @ attribute_type))
        else if py_len attribute_type \<ge> 256
        then Inl (InvalidParameterValueException ''Message (user) attribute types must be shorter than 256 Bytes'')
        else if attribute_type = ''String'' then
          (if \<not> truthy (StringValue attribute)
           then Inl (InvalidParameterValueException (''Message (user) attribute '' @ [CHR 39] @ attribute_name @ [CHR 39] @
                  '' must contain a non-empty value of type '' @ [CHR 39] @ ''String'' @ [CHR 39] @ ''.''))
           else case check_message_content (the (StringValue attribute)) of
                  Inl e \<Rightarrow> Inl (InvalidParameterValueException (exn_message e))
                | Inr _ \<Rightarrow> Inr ())
        else Inr ())"

fun check_attributes_loop :: "attr_map \<Rightarrow> unit result" where
  "check_attributes_loop [] = Inr ()"
| "check_attributes_loop ((k, v) # rest) = bind_result (check_attribute k v) (\<lambda>_. check_attributes_loop rest)"

definition check_attributes :: "attr_map option \<Rightarrow> unit result" where
  "check_attributes attrs = (case attrs of None \<Rightarrow> Inr () | Some m \<Rightarrow> check_attributes_loop m)"

text \<open>\<open>FIFO_MSG_REGEX\<close>: with the range \<open>A-z\<close> the class is every printable ASCII character but the space.\<close>

definition is_fifo_id_point :: "nat \<Rightarrow> bool" where
  "is_fifo_id_point c \<longleftrightarrow> 0x21 \<le> c \<and> c \<le> 0x7E"

definition check_fifo_id :: "string option \<Rightarrow> string \<Rightarrow> unit result" where
  "check_fifo_id fifo_id parameter =
     (case fifo_id of
        None \<Rightarrow> Inr ()
      | Some s \<Rightarrow>
          (if re_points_match is_fifo_id_point 1 (Some 128) s then Inr ()
           else Inl (InvalidParameterValueException (''Value '' @ s @ '' for parameter '' @ parameter @ '' is invalid. Reason: '' @
                  parameter @ '' can only include alphanumeric and punctuation characters. 1 to 128 in length.''))))"

subsection \<open>Batches\<close>

record batch_item =
  item_id :: string
  item_deduplication_id :: "string option"
  item_group_id :: "string option"

definition MAX_NUMBER_OF_MESSAGES :: int where
  "MAX_NUMBER_OF_MESSAGES = 10"

text \<open>\<open>\w\<close>: ASCII letters, digits, the underscore, and the letters and digits of other alphabets (a parameter).\<close>

definition is_entry_id_point :: "(nat \<Rightarrow> bool) \<Rightarrow> nat \<Rightarrow> bool" where
  "is_entry_id_point unicode_word c \<longleftrightarrow>
     (48 \<le> c \<and> c \<le> 57) \<or> (65 \<le> c \<and> c \<le> 90) \<or> (97 \<le> c \<and> c \<le> 122) \<or> c = 95 \<or> c = 45 \<or> (128 \<le> c \<and> unicode_word c)"

definition batch_id_error :: exn where
  "batch_id_error = InvalidBatchEntryId (''A batch entry id can only contain alphanumeric characters, '' @
     ''hyphens and underscores. It can be at most 80 letters long.'')"

fun assert_batch_entries :: "(nat \<Rightarrow> bool) \<Rightarrow> bool \<Rightarrow> bool \<Rightarrow> string list \<Rightarrow> batch_item list \<Rightarrow> unit result" where
  "assert_batch_entries unicode_word fifo dedup visited [] = Inr ()"
| "assert_batch_entries unicode_word fifo dedup visited (entry # entries) =
     (if \<not> re_points_match (is_entry_id_point unicode_word) 1 None (item_id entry) \<or> py_len (item_id entry) > 80
      then Inl batch_id_error
      else if dedup \<and> \<not> truthy (item_deduplication_id entry)
      then Inl (InvalidParameterValueException (''The queue should either have ContentBasedDeduplication enabled or '' @
             ''MessageDeduplicationId provided explicitly''))
      else if fifo \<and> \<not> truthy (item_group_id entry)
      then Inl (InvalidParameterValueException ''The request must contain the parameter MessageGroupId.'')
      else if item_id entry \<in> set visited then Inl (ServiceException ''BatchEntryIdsNotDistinct'' [] False)
      else assert_batch_entries unicode_word fifo dedup (item_id entry # visited) entries)"

definition assert_batch :: "(nat \<Rightarrow> bool) \<Rightarrow> bool \<Rightarrow> bool \<Rightarrow> int option \<Rightarrow> batch_item list \<Rightarrow> unit result" where
  "assert_batch unicode_word fifo dedup override batch =
     (if batch = [] then Inl (ServiceException ''EmptyBatchRequest'' [] False)
      else
        let limit = (case override of Some n \<Rightarrow> if n = 0 then MAX_NUMBER_OF_MESSAGES else n | None \<Rightarrow> MAX_NUMBER_OF_MESSAGES)
        in if int (length batch) > limit
           then Inl (ServiceException ''TooManyEntriesInBatchRequest'' (''Maximum number of entries per request are '' @
                  str_of_int limit @ ''. You have sent '' @ str_of_nat (length batch) @ ''.'') False)
           else assert_batch_entries unicode_word fifo dedup [] batch)"

definition assert_valid_batch_size :: "(string \<times> attr_map option) list \<Rightarrow> int \<Rightarrow> unit result" where
  "assert_valid_batch_size batch max_size =
     (let sent = int (sum_list (map (\<lambda>(body, attrs). message_body_size body + message_attributes_size attrs) batch))
      in if sent > max_size
         then Inl (ServiceException ''BatchRequestTooLong'' (''Batch requests cannot be longer than '' @ str_of_int max_size @
                '' bytes. You have sent '' @ str_of_int sent @ '' bytes.'') False)
         else Inr ())"

definition assert_valid_message_ids :: "(nat \<Rightarrow> bool) \<Rightarrow> string list \<Rightarrow> unit result" where
  "assert_valid_message_ids unicode_word ids =
     (if list_all (re_points_match (is_entry_id_point unicode_word) 1 (Some 80)) ids then Inr () else Inl batch_id_error)"

definition validate_actions :: "string list \<Rightarrow> string list \<Rightarrow> unit result" where
  "validate_actions operation_names actions =
     (case find (\<lambda>a. a \<notin> set (operation_names @ [''*''])) actions of
        None \<Rightarrow> Inr ()
      | Some a \<Rightarrow> Inl (InvalidParameterValueException (''Value SQS:'' @ a @
            '' for parameter ActionName is invalid. Reason: Please refer to the appropriate WSDL for a list of valid actions. '')))"

end
