(* ===== verification/Stores.thy ===== *)
theory Stores
  imports PyStr
begin

text \<open>
  \<open>services/stores.py\<close>: the stores of a service, one per account and region. A
  \<open>RegionBundle\<close> holds the stores of an account and the data its regions share, an
  \<open>AccountRegionBundle\<close> the bundles of all accounts and the data all accounts share. The type parameters are
  the data of one store, of one account and of the whole bundle. The three attribute descriptors are
  modelled on stores whose data are the attribute dicts Python keeps.

  The regions botocore knows for a service and the decimal digits beyond ASCII, which
  \<open>\d\<close> also matches, are parameters.
\<close>

record stores_config =
  allow_nonstandard_regions :: bool
  valid_regions_for_service :: "string \<Rightarrow> string list"
  unicode_digit :: "nat \<Rightarrow> bool"

text \<open>What \<open>self.store()\<close> creates, and the contents of \<open>_global\<close> and \<open>_universal\<close> before any use.\<close>

record ('l, 'g, 'u) store_class =
  new_store :: 'l
  new_global :: 'g
  new_universal :: 'u

record ('l, 'g) region_bundle =
  rb_account_id :: string
  rb_service_name :: string
  rb_validate :: bool
  rb_stores :: "(string, 'l) dict"
  rb_global :: 'g

record ('l, 'g, 'u) account_region_bundle =
  arb_service_name :: string
  arb_validate :: bool
  arb_bundles :: "(string, ('l, 'g) region_bundle) dict"
  arb_universal :: 'u

subsection \<open>Subscription\<close>

definition region_bundle_init :: "('l, 'g, 'u) store_class \<Rightarrow> string \<Rightarrow> string \<Rightarrow> bool \<Rightarrow> ('l, 'g) region_bundle" where
  "region_bundle_init cls service account validate =
     \<lparr>rb_account_id = account, rb_service_name = service, rb_validate = validate, rb_stores = [],
      rb_global = new_global cls\<rparr>"

definition region_ok :: "stores_config \<Rightarrow> bool \<Rightarrow> string \<Rightarrow> string \<Rightarrow> bool" where
  "region_ok cfg validate service region \<longleftrightarrow>
     allow_nonstandard_regions cfg \<or> \<not> validate \<or> region \<in> set (valid_regions_for_service cfg service)"

definition region_getitem ::
  "stores_config \<Rightarrow> ('l, 'g, 'u) store_class \<Rightarrow> string \<Rightarrow> ('l, 'g) region_bundle \<Rightarrow> 'l result \<times> ('l, 'g) region_bundle"
where
  "region_getitem cfg cls region rb =
     (if \<not> region_ok cfg (rb_validate rb) (rb_service_name rb) region
      then (Inl (ValueError ([CHR 39] @ region @ [CHR 39] @ '' is not a valid AWS region name for '' @ rb_service_name rb)), rb)
      else
        let stores = dict_setdefault region (new_store cls) (rb_stores rb)
        in (case dict_get stores region of
              Some st \<Rightarrow> Inr st
            | None \<Rightarrow> Inl (KeyError region), rb\<lparr>rb_stores := stores\<rparr>))"

text \<open>\<open>re.match(r"\d{12}", account_id)\<close> looks at the first twelve characters only.\<close>

definition account_id_ok :: "stores_config \<Rightarrow> string \<Rightarrow> bool" where
  "account_id_ok cfg account =
     (case utf8_decode account of
        None \<Rightarrow> False
      | Some cs \<Rightarrow>
          length cs \<ge> 12 \<and> (\<forall>c \<in> set (take 12 cs). (48 \<le> c \<and> c \<le> 57) \<or> (128 \<le> c \<and> unicode_digit cfg c)))"

definition account_getitem ::
  "stores_config \<Rightarrow> ('l, 'g, 'u) store_class \<Rightarrow> string \<Rightarrow> ('l, 'g, 'u) account_region_bundle
    \<Rightarrow> ('l, 'g) region_bundle result \<times> ('l, 'g, 'u) account_region_bundle"
where
  "account_getitem cfg cls account b =
     (if arb_validate b \<and> \<not> account_id_ok cfg account
      then (Inl (ValueError ([CHR 39] @ account @ [CHR 39] @ '' is not a valid AWS account ID'')), b)
      else
        let bundles = dict_setdefault account
              (region_bundle_init cls (arb_service_name b) account (arb_validate b)) (arb_bundles b)
        in (case dict_get bundles account of
              Some rb \<Rightarrow> Inr rb
            | None \<Rightarrow> Inl (KeyError account), b\<lparr>arb_bundles := bundles\<rparr>))"

text \<open>The expression \<open>stores[account_id][region_name]\<close> of the providers.\<close>

definition get_store ::
  "stores_config \<Rightarrow> ('l, 'g, 'u) store_class \<Rightarrow> string \<Rightarrow> string \<Rightarrow> ('l, 'g, 'u) account_region_bundle
    \<Rightarrow> 'l result \<times> ('l, 'g, 'u) account_region_bundle"
where
  "get_store cfg cls account region b =
     (case account_getitem cfg cls account b of
        (Inl e, b') \<Rightarrow> (Inl e, b')
      | (Inr rb, b') \<Rightarrow>
          (case region_getitem cfg cls region rb of
             (r, rb') \<Rightarrow> (r, b'\<lparr>arb_bundles := dict_set account rb' (arb_bundles b')\<rparr>)))"

text \<open>A store is an object: a change through one reference is seen by all. \<open>set_store\<close> writes it back.\<close>

definition find_store :: "string \<Rightarrow> string \<Rightarrow> ('l, 'g, 'u) account_region_bundle \<Rightarrow> 'l option" where
  "find_store account region b =
     (case dict_get (arb_bundles b) account of
        None \<Rightarrow> None
      | Some rb \<Rightarrow> dict_get (rb_stores rb) region)"

definition set_store :: "string \<Rightarrow> string \<Rightarrow> 'l \<Rightarrow> ('l, 'g, 'u) account_region_bundle \<Rightarrow> ('l, 'g, 'u) account_region_bundle" where
  "set_store account region st b =
     (case dict_get (arb_bundles b) account of
        None \<Rightarrow> b
      | Some rb \<Rightarrow>
          b\<lparr>arb_bundles := dict_set account (rb\<lparr>rb_stores := dict_set region st (rb_stores rb)\<rparr>) (arb_bundles b)\<rparr>)"

definition arb_init :: "('l, 'g, 'u) store_class \<Rightarrow> string \<Rightarrow> bool \<Rightarrow> ('l, 'g, 'u) account_region_bundle" where
  "arb_init cls service validate =
     \<lparr>arb_service_name = service, arb_validate = validate, arb_bundles = [], arb_universal = new_universal cls\<rparr>"

subsection \<open>Iteration\<close>

definition iter_stores :: "('l, 'g, 'u) account_region_bundle \<Rightarrow> (string \<times> string \<times> 'l) list" where
  "iter_stores b =
     concat (map (\<lambda>(account, rb). map (\<lambda>(region, st). (account, region, st)) (rb_stores rb)) (arb_bundles b))"

subsection \<open>Attribute descriptors\<close>

type_synonym 'v attrs = "(string, 'v) dict"
type_synonym 'v attr_bundles = "('v attrs, 'v attrs, 'v attrs) account_region_bundle"

definition attr_store_class :: "('v attrs, 'v attrs, 'v attrs) store_class" where
  "attr_store_class = \<lparr>new_store = [], new_global = [], new_universal = []\<rparr>"

lemma attr_store_class_simps [simp]:
  "new_store attr_store_class = []" "new_global attr_store_class = []" "new_universal attr_store_class = []"
  by (simp_all add: attr_store_class_def)

definition LOCAL_ATTR_PREFIX :: string where
  "LOCAL_ATTR_PREFIX = ''attr_''"

datatype attr_scope = LocalAttribute | CrossRegionAttribute | CrossAccountAttribute

definition local_get :: "string \<Rightarrow> 'v \<Rightarrow> 'v attrs \<Rightarrow> 'v \<times> 'v attrs" where
  "local_get name dflt obj =
     (let obj' = dict_setdefault (LOCAL_ATTR_PREFIX @ name) dflt obj
      in (case dict_get obj' (LOCAL_ATTR_PREFIX @ name) of Some v \<Rightarrow> v | None \<Rightarrow> dflt, obj'))"

definition local_set :: "string \<Rightarrow> 'v \<Rightarrow> 'v attrs \<Rightarrow> 'v attrs" where
  "local_set name v obj = dict_set (LOCAL_ATTR_PREFIX @ name) v obj"

definition shared_get :: "string \<Rightarrow> 'v \<Rightarrow> 'v attrs \<Rightarrow> 'v \<times> 'v attrs" where
  "shared_get name dflt d =
     (let d' = (if dict_has d name then d else dict_set name dflt d)
      in (case dict_get d' name of Some v \<Rightarrow> v | None \<Rightarrow> dflt, d'))"

definition global_of :: "string \<Rightarrow> 'v attr_bundles \<Rightarrow> 'v attrs" where
  "global_of account b = (case dict_get (arb_bundles b) account of Some rb \<Rightarrow> rb_global rb | None \<Rightarrow> [])"

definition set_global :: "string \<Rightarrow> 'v attrs \<Rightarrow> 'v attr_bundles \<Rightarrow> 'v attr_bundles" where
  "set_global account g b =
     (case dict_get (arb_bundles b) account of
        None \<Rightarrow> b
      | Some rb \<Rightarrow> b\<lparr>arb_bundles := dict_set account (rb\<lparr>rb_global := g\<rparr>) (arb_bundles b)\<rparr>)"

text \<open>\<open>stores[account][region].name\<close> and \<open>stores[account][region].name = v\<close>, by the descriptor of the attribute.\<close>

definition attr_get ::
  "stores_config \<Rightarrow> attr_scope \<Rightarrow> string \<Rightarrow> 'v \<Rightarrow> string \<Rightarrow> string \<Rightarrow> 'v attr_bundles \<Rightarrow> 'v result \<times> 'v attr_bundles"
where
  "attr_get cfg scope name dflt account region b =
     (case get_store cfg attr_store_class account region b of
        (Inl e, b') \<Rightarrow> (Inl e, b')
      | (Inr obj, b') \<Rightarrow>
          (case scope of
             LocalAttribute \<Rightarrow>
               (case local_get name dflt obj of (v, obj') \<Rightarrow> (Inr v, set_store account region obj' b'))
           | CrossRegionAttribute \<Rightarrow>
               (case shared_get name dflt (global_of account b') of (v, g) \<Rightarrow> (Inr v, set_global account g b'))
           | CrossAccountAttribute \<Rightarrow>
               (case shared_get name dflt (arb_universal b') of (v, u) \<Rightarrow> (Inr v, b'\<lparr>arb_universal := u\<rparr>))))"

definition attr_set ::
  "stores_config \<Rightarrow> attr_scope \<Rightarrow> string \<Rightarrow> 'v \<Rightarrow> string \<Rightarrow> string \<Rightarrow> 'v attr_bundles \<Rightarrow> unit result \<times> 'v attr_bundles"
where
  "attr_set cfg scope name v account region b =
     (case get_store cfg attr_store_class account region b of
        (Inl e, b') \<Rightarrow> (Inl e, b')
      | (Inr obj, b') \<Rightarrow>
          (Inr (),
           (case scope of
              LocalAttribute \<Rightarrow> set_store account region (local_set name v obj) b'
            | CrossRegionAttribute \<Rightarrow> set_global account (dict_set name v (global_of account b')) b'
            | CrossAccountAttribute \<Rightarrow> b'\<lparr>arb_universal := dict_set name v (arb_universal b')\<rparr>)))"

subsection \<open>Reset\<close>

text \<open>
  \<open>RegionBundle.reset\<close> clears every store instance before it drops them, for those who still hold one: the shared
  dicts an instance refers to are emptied and its local attributes deleted. A held instance is its \<open>__dict__\<close>
  together with the \<open>_global\<close> dict of the region bundle it was made by.
\<close>

definition clear_local :: "'v attrs \<Rightarrow> 'v attrs" where
  "clear_local obj = filter (\<lambda>(k, v). \<not> py_startswith k LOCAL_ATTR_PREFIX) obj"

fun reset_instances ::
  "bool \<Rightarrow> (string, 'v attrs) dict \<Rightarrow> 'v attrs \<Rightarrow> 'v attrs \<Rightarrow> (string, 'v attrs) dict \<times> 'v attrs \<times> 'v attrs" where
  "reset_instances reset_universal [] global universal = ([], global, universal)"
| "reset_instances reset_universal ((region, obj) # rest) global universal =
     (case reset_instances reset_universal rest [] (if reset_universal then [] else universal) of
        (held, global', universal') \<Rightarrow> ((region, clear_local obj) # held, global', universal'))"

definition region_reset ::
  "bool \<Rightarrow> ('v attrs, 'v attrs) region_bundle \<Rightarrow> 'v attrs \<Rightarrow>
   (string, 'v attrs) dict \<times> ('v attrs, 'v attrs) region_bundle \<times> 'v attrs" where
  "region_reset reset_universal rb universal =
     (case reset_instances reset_universal (rb_stores rb) (rb_global rb) universal of
        (held, global, universal') \<Rightarrow> (held, rb\<lparr>rb_stores := [], rb_global := []\<rparr>, universal'))"

type_synonym 'v held_store = "'v attrs \<times> 'v attrs"

fun reset_bundles ::
  "(string, ('v attrs, 'v attrs) region_bundle) dict \<Rightarrow> 'v attrs \<Rightarrow> (string \<times> string \<times> 'v held_store) list \<times> 'v attrs" where
  "reset_bundles [] universal = ([], universal)"
| "reset_bundles ((account, rb) # rest) universal =
     (case region_reset True rb universal of
        (held, rb', universal') \<Rightarrow>
          (case reset_bundles rest universal' of
             (held', universal'') \<Rightarrow> (map (\<lambda>(region, obj). (account, region, obj, rb_global rb')) held @ held', universal'')))"

definition bundles_reset :: "'v attr_bundles \<Rightarrow> (string \<times> string \<times> 'v held_store) list \<times> 'v attr_bundles" where
  "bundles_reset b =
     (case reset_bundles (arb_bundles b) (arb_universal b) of
        (held, universal) \<Rightarrow> (held, b\<lparr>arb_bundles := [], arb_universal := []\<rparr>))"

text \<open>Reading an attribute of a store instance that was kept over a reset.\<close>

definition held_get :: "attr_scope \<Rightarrow> string \<Rightarrow> 'v \<Rightarrow> 'v held_store \<Rightarrow> 'v attr_bundles \<Rightarrow> 'v" where
  "held_get scope name dflt st b =
     (case scope of
        LocalAttribute \<Rightarrow> fst (local_get name dflt (fst st))
      | CrossRegionAttribute \<Rightarrow> fst (shared_get name dflt (snd st))
      | CrossAccountAttribute \<Rightarrow> fst (shared_get name dflt (arb_universal b)))"

subsection \<open>Laws of the bundles\<close>

text \<open>A key that passes validation in a bundle whose parts agree on the service and on validation.\<close>

definition bundle_uniform :: "('l, 'g, 'u) account_region_bundle \<Rightarrow> bool" where
  "bundle_uniform b \<longleftrightarrow>
     (\<forall>(a, rb) \<in> set (arb_bundles b).
        rb_account_id rb = a \<and> rb_service_name rb = arb_service_name b \<and> rb_validate rb = arb_validate b)"

definition key_ok :: "stores_config \<Rightarrow> ('l, 'g, 'u) account_region_bundle \<Rightarrow> string \<Rightarrow> string \<Rightarrow> bool" where
  "key_ok cfg b account region \<longleftrightarrow>
     (arb_validate b \<longrightarrow> account_id_ok cfg account) \<and>
     region_ok cfg (arb_validate b) (arb_service_name b) region"

lemma dict_get_setdefault_iff [simp]:
  "dict_get (dict_setdefault k v d) k' = (case dict_get d k' of Some x \<Rightarrow> Some x | None \<Rightarrow> if k' = k then Some v else None)"
proof (cases "dict_get d k")
  case None
  then have "\<not> dict_has d k" by (simp add: dict_get_None)
  then show ?thesis using None by (auto simp: dict_setdefault_def map_add_def split: option.splits)
next
  case (Some x)
  then have "dict_has d k" by (simp add: dict_has_get del: set_map)
  then show ?thesis using Some by (auto simp: dict_setdefault_def split: option.splits)
qed

lemma set_dict_set_subset: "set (dict_set k v d) \<subseteq> insert (k, v) (set d)"
  by (induction d) (auto split: if_splits)

lemma bundle_uniform_get:
  "bundle_uniform b \<Longrightarrow> dict_get (arb_bundles b) a = Some rb \<Longrightarrow>
    rb_account_id rb = a \<and> rb_service_name rb = arb_service_name b \<and> rb_validate rb = arb_validate b"
  unfolding bundle_uniform_def using map_of_SomeD by fastforce

lemma bundle_uniform_put:
  assumes "bundle_uniform b"
    and "rb_account_id rb = a" "rb_service_name rb = arb_service_name b" "rb_validate rb = arb_validate b"
  shows "bundle_uniform (b\<lparr>arb_bundles := dict_set a rb (arb_bundles b)\<rparr>)"
  using assms set_dict_set_subset [of a rb "arb_bundles b"] unfolding bundle_uniform_def by fastforce


lemma get_store_ok:
  assumes b: "bundle_uniform b" and k: "key_ok cfg b a r"
  obtains b' where
    "get_store cfg cls a r b = (Inr (case find_store a r b of Some st \<Rightarrow> st | None \<Rightarrow> new_store cls), b')"
    "bundle_uniform b'" "arb_validate b' = arb_validate b" "arb_service_name b' = arb_service_name b"
    "arb_universal b' = arb_universal b"
    "\<And>a' r'. find_store a' r' b' =
       (if a' = a \<and> r' = r then Some (case find_store a r b of Some st \<Rightarrow> st | None \<Rightarrow> new_store cls)
        else find_store a' r' b)"
    "dict_get (arb_bundles b') a \<noteq> None"
    "\<And>a'. map_option rb_global (dict_get (arb_bundles b') a') =
       (if a' = a \<and> dict_get (arb_bundles b) a = None then Some (new_global cls)
        else map_option rb_global (dict_get (arb_bundles b) a'))"
proof -
  define rb where "rb = (case dict_get (arb_bundles b) a of Some rb \<Rightarrow> rb
     | None \<Rightarrow> region_bundle_init cls (arb_service_name b) a (arb_validate b))"
  define b1 where "b1 = b\<lparr>arb_bundles := dict_setdefault a
     (region_bundle_init cls (arb_service_name b) a (arb_validate b)) (arb_bundles b)\<rparr>"
  define rb' where "rb' = rb\<lparr>rb_stores := dict_setdefault r (new_store cls) (rb_stores rb)\<rparr>"
  define b' where "b' = b1\<lparr>arb_bundles := dict_set a rb' (arb_bundles b1)\<rparr>"
  have acc: "account_getitem cfg cls a b = (Inr rb, b1)"
    using k by (auto simp: account_getitem_def key_ok_def rb_def b1_def Let_def split: option.splits)
  have rb: "rb_account_id rb = a" "rb_service_name rb = arb_service_name b" "rb_validate rb = arb_validate b"
    using bundle_uniform_get [OF b] by (auto simp: rb_def region_bundle_init_def split: option.splits)
  have find: "dict_get (rb_stores rb) r = find_store a r b"
    by (simp add: rb_def find_store_def region_bundle_init_def split: option.splits)
  have reg: "region_getitem cfg cls r rb =
      (Inr (case find_store a r b of Some st \<Rightarrow> st | None \<Rightarrow> new_store cls), rb')"
    using k rb find
    by (auto simp: region_getitem_def key_ok_def rb'_def Let_def split: option.splits)
  have get: "get_store cfg cls a r b = (Inr (case find_store a r b of Some st \<Rightarrow> st | None \<Rightarrow> new_store cls), b')"
    by (simp add: get_store_def acc reg b'_def)
  have lookup: "dict_get (arb_bundles b') a' = (if a' = a then Some rb' else dict_get (arb_bundles b) a')" for a'
    by (auto simp: b'_def b1_def split: option.splits)
  have uni: "bundle_uniform b1"
  proof (cases "dict_has (arb_bundles b) a")
    case True
    then show ?thesis using b by (simp add: b1_def dict_setdefault_def bundle_uniform_def)
  next
    case False
    then show ?thesis using b by (auto simp: b1_def dict_setdefault_def bundle_uniform_def region_bundle_init_def)
  qed
  show thesis
  proof (rule that [OF get])
    show "bundle_uniform b'"
      unfolding b'_def by (rule bundle_uniform_put [OF uni]) (simp_all add: rb'_def rb b1_def)
    show "dict_get (arb_bundles b') a \<noteq> None" using lookup [of a] by simp
    show "find_store a' r' b' =
       (if a' = a \<and> r' = r then Some (case find_store a r b of Some st \<Rightarrow> st | None \<Rightarrow> new_store cls)
        else find_store a' r' b)" for a' r'
      using find by (auto simp: find_store_def lookup rb'_def rb_def region_bundle_init_def split: option.splits)
    show "map_option rb_global (dict_get (arb_bundles b') a') =
       (if a' = a \<and> dict_get (arb_bundles b) a = None then Some (new_global cls)
        else map_option rb_global (dict_get (arb_bundles b) a'))" for a'
      by (auto simp: lookup rb'_def rb_def region_bundle_init_def split: option.splits)
  qed (simp_all add: b'_def b1_def)
qed

lemma get_store_invalid:
  assumes b: "bundle_uniform b" and k: "\<not> key_ok cfg b a r"
  shows "\<exists>msg. fst (get_store cfg cls a r b) = Inl (ValueError msg)"
proof (cases "arb_validate b \<and> \<not> account_id_ok cfg a")
  case True
  then show ?thesis by (simp add: get_store_def account_getitem_def)
next
  case False
  define rb where "rb = (case dict_get (arb_bundles b) a of Some rb \<Rightarrow> rb
     | None \<Rightarrow> region_bundle_init cls (arb_service_name b) a (arb_validate b))"
  have rb: "rb_service_name rb = arb_service_name b" "rb_validate rb = arb_validate b"
    using bundle_uniform_get [OF b] by (auto simp: rb_def region_bundle_init_def split: option.splits)
  have "fst (account_getitem cfg cls a b) = Inr rb"
    using False by (auto simp: account_getitem_def rb_def Let_def split: option.splits)
  moreover have "\<not> region_ok cfg (arb_validate b) (arb_service_name b) r" using k False by (auto simp: key_ok_def)
  ultimately show ?thesis
    by (cases "account_getitem cfg cls a b") (simp add: get_store_def region_getitem_def rb)
qed

lemma get_store_invalid_keeps:
  assumes b: "bundle_uniform b" and k: "\<not> key_ok cfg b a r"
  shows "find_store a' r' (snd (get_store cfg cls a r b)) = find_store a' r' b"
proof (cases "arb_validate b \<and> \<not> account_id_ok cfg a")
  case True
  then show ?thesis by (simp add: get_store_def account_getitem_def)
next
  case False
  define rb where "rb = (case dict_get (arb_bundles b) a of Some rb \<Rightarrow> rb
     | None \<Rightarrow> region_bundle_init cls (arb_service_name b) a (arb_validate b))"
  have rb: "rb_service_name rb = arb_service_name b" "rb_validate rb = arb_validate b"
    using bundle_uniform_get [OF b] by (auto simp: rb_def region_bundle_init_def split: option.splits)
  have "account_getitem cfg cls a b = (Inr rb, b\<lparr>arb_bundles := dict_setdefault a
       (region_bundle_init cls (arb_service_name b) a (arb_validate b)) (arb_bundles b)\<rparr>)"
    using False by (auto simp: account_getitem_def rb_def Let_def split: option.splits)
  moreover have "\<not> region_ok cfg (arb_validate b) (arb_service_name b) r" using k False by (auto simp: key_ok_def)
  ultimately have "snd (get_store cfg cls a r b) = b\<lparr>arb_bundles := dict_set a rb (dict_setdefault a
       (region_bundle_init cls (arb_service_name b) a (arb_validate b)) (arb_bundles b))\<rparr>"
    by (simp add: get_store_def region_getitem_def rb)
  then show ?thesis
    by (auto simp: find_store_def rb_def region_bundle_init_def split: option.splits)
qed

lemma find_set_store:
  "dict_get (arb_bundles b) a = Some rb \<Longrightarrow>
    find_store a' r' (set_store a r st b) = (if a' = a \<and> r' = r then Some st else find_store a' r' b)"
  by (auto simp: find_store_def set_store_def split: option.splits)

lemma bundle_uniform_set_store: "bundle_uniform b \<Longrightarrow> bundle_uniform (set_store a r st b)"
  using bundle_uniform_get by (fastforce simp: set_store_def intro!: bundle_uniform_put split: option.splits)

lemma set_store_simps [simp]:
  "arb_validate (set_store a r st b) = arb_validate b"
  "arb_service_name (set_store a r st b) = arb_service_name b"
  "arb_universal (set_store a r st b) = arb_universal b"
  by (simp_all add: set_store_def split: option.splits)

lemma key_ok_cong:
  "arb_validate b' = arb_validate b \<Longrightarrow> arb_service_name b' = arb_service_name b \<Longrightarrow> key_ok cfg b' = key_ok cfg b"
  by (simp add: key_ok_def fun_eq_iff)

text \<open>A bundle that holds no store for the key is as good as one that holds an empty one.\<close>

definition attr_value_at ::
  "attr_scope \<Rightarrow> string \<Rightarrow> 'v \<Rightarrow> string \<Rightarrow> string \<Rightarrow> 'v attr_bundles \<Rightarrow> 'v"
where
  "attr_value_at scope name dflt a r b =
     (case (case scope of
              LocalAttribute \<Rightarrow>
                (case find_store a r b of Some st \<Rightarrow> dict_get st (LOCAL_ATTR_PREFIX @ name) | None \<Rightarrow> None)
            | CrossRegionAttribute \<Rightarrow> dict_get (global_of a b) name
            | CrossAccountAttribute \<Rightarrow> dict_get (arb_universal b) name) of
        Some v \<Rightarrow> v
      | None \<Rightarrow> dflt)"

fun same_scope :: "attr_scope \<Rightarrow> string \<times> string \<Rightarrow> string \<times> string \<Rightarrow> bool" where
  "same_scope LocalAttribute (a, r) (a', r') = (a = a' \<and> r = r')"
| "same_scope CrossRegionAttribute (a, r) (a', r') = (a = a')"
| "same_scope CrossAccountAttribute (a, r) (a', r') = True"

lemma global_of_alt: "global_of a b = (case map_option rb_global (dict_get (arb_bundles b) a) of Some g \<Rightarrow> g | None \<Rightarrow> [])"
  by (simp add: global_of_def split: option.splits)

lemma shared_get_value: "fst (shared_get name dflt d) = (case dict_get d name of Some v \<Rightarrow> v | None \<Rightarrow> dflt)"
proof (cases "dict_get d name")
  case None
  then have "\<not> dict_has d name" by (simp add: dict_get_None)
  then show ?thesis using None by (simp add: shared_get_def Let_def)
next
  case (Some v)
  then have "dict_has d name" by (simp add: dict_has_get del: set_map)
  then show ?thesis using Some by (simp add: shared_get_def Let_def)
qed

lemma bundle_uniform_set_global: "bundle_uniform b \<Longrightarrow> bundle_uniform (set_global a g b)"
  using bundle_uniform_get by (fastforce simp: set_global_def intro!: bundle_uniform_put split: option.splits)

lemma set_global_simps [simp]:
  "arb_validate (set_global a g b) = arb_validate b"
  "arb_service_name (set_global a g b) = arb_service_name b"
  "arb_universal (set_global a g b) = arb_universal b"
  "find_store a' r' (set_global a g b) = find_store a' r' b"
  by (auto simp: set_global_def find_store_def split: option.splits)

lemma global_of_set_store [simp]: "global_of a' (set_store a r st b) = global_of a' b"
  by (auto simp: global_of_def set_store_def split: option.splits)

lemma global_of_set_global:
  "dict_get (arb_bundles b) a = Some rb \<Longrightarrow> global_of a' (set_global a g b) = (if a' = a then g else global_of a' b)"
  by (auto simp: global_of_def set_global_def split: option.splits)

lemma universal_update_simps [simp]:
  "find_store a r (b\<lparr>arb_universal := u\<rparr>) = find_store a r b"
  "global_of a (b\<lparr>arb_universal := u\<rparr>) = global_of a b"
  "bundle_uniform (b\<lparr>arb_universal := u\<rparr>) = bundle_uniform b"
  by (simp_all add: find_store_def global_of_def bundle_uniform_def)

lemma attr_get_value:
  assumes "bundle_uniform b" "key_ok cfg b a r"
  shows "fst (attr_get cfg scope name dflt a r b) = Inr (attr_value_at scope name dflt a r b)"
proof -
  obtain b' where g: "get_store cfg attr_store_class a r b =
      (Inr (case find_store a r b of Some st \<Rightarrow> st | None \<Rightarrow> new_store attr_store_class), b')"
    and u: "arb_universal b' = arb_universal b"
    and gl: "\<And>a'. map_option rb_global (dict_get (arb_bundles b') a') =
       (if a' = a \<and> dict_get (arb_bundles b) a = None then Some (new_global attr_store_class)
        else map_option rb_global (dict_get (arb_bundles b) a'))"
    by (rule get_store_ok [OF assms, where cls = attr_store_class]) (rule that)
  have gb: "global_of a b' = global_of a b" by (simp add: global_of_alt gl)
  show ?thesis
  proof (cases scope)
    case LocalAttribute
    then show ?thesis
      by (simp add: attr_get_def g attr_value_at_def local_get_def Let_def split: option.splits)
  next
    case CrossRegionAttribute
    then show ?thesis by (simp add: attr_get_def g gb attr_value_at_def shared_get_value split_beta)
  next
    case CrossAccountAttribute
    then show ?thesis by (simp add: attr_get_def g u attr_value_at_def shared_get_value split_beta)
  qed
qed

lemma attr_set_spec:
  assumes b: "bundle_uniform b" and k: "key_ok cfg b a r"
    and e: "b'' = snd (attr_set cfg scope name v a r b)"
  shows "bundle_uniform b''" "key_ok cfg b'' = key_ok cfg b"
    "attr_value_at scope' name' dflt a' r' b'' =
      (if scope' = scope \<and> name' = name \<and> same_scope scope (a, r) (a', r') then v
       else attr_value_at scope' name' dflt a' r' b)"
proof -
  obtain b' where g: "get_store cfg attr_store_class a r b =
      (Inr (case find_store a r b of Some st \<Rightarrow> st | None \<Rightarrow> []), b')"
    and un: "bundle_uniform b'" and eq: "arb_validate b' = arb_validate b" "arb_service_name b' = arb_service_name b"
    and u: "arb_universal b' = arb_universal b"
    and fs: "\<And>a' r'. find_store a' r' b' =
       (if a' = a \<and> r' = r then Some (case find_store a r b of Some st \<Rightarrow> st | None \<Rightarrow> []) else find_store a' r' b)"
    and h0: "dict_get (arb_bundles b') a \<noteq> None"
    and gl: "\<And>a'. map_option rb_global (dict_get (arb_bundles b') a') =
       (if a' = a \<and> dict_get (arb_bundles b) a = None then Some []
        else map_option rb_global (dict_get (arb_bundles b) a'))"
    by (rule get_store_ok [OF b k, where cls = attr_store_class, unfolded attr_store_class_simps]) (rule that)
  obtain rb where h: "dict_get (arb_bundles b') a = Some rb" using h0 by blast
  have gb: "global_of a' b' = global_of a' b" for a' by (simp add: global_of_alt gl)
  have b'': "b'' = (case scope of
              LocalAttribute \<Rightarrow> set_store a r (local_set name v (case find_store a r b of Some st \<Rightarrow> st | None \<Rightarrow> [])) b'
            | CrossRegionAttribute \<Rightarrow> set_global a (dict_set name v (global_of a b')) b'
            | CrossAccountAttribute \<Rightarrow> b'\<lparr>arb_universal := dict_set name v (arb_universal b')\<rparr>)"
    by (simp add: e attr_set_def g)
  show "bundle_uniform b''"
    using un by (simp add: b'' bundle_uniform_set_store bundle_uniform_set_global split: attr_scope.split)
  show "key_ok cfg b'' = key_ok cfg b"
    by (rule key_ok_cong) (simp_all add: b'' eq split: attr_scope.splits)
  show "attr_value_at scope' name' dflt a' r' b'' =
      (if scope' = scope \<and> name' = name \<and> same_scope scope (a, r) (a', r') then v
       else attr_value_at scope' name' dflt a' r' b)"
  proof (cases scope)
    case LocalAttribute
    then have "b'' = set_store a r (local_set name v (case find_store a r b of Some st \<Rightarrow> st | None \<Rightarrow> [])) b'"
      by (simp add: b'')
    then show ?thesis using LocalAttribute
      by (cases scope') (simp_all add: attr_value_at_def local_set_def find_set_store [OF h] fs gb u split: option.split)
  next
    case CrossRegionAttribute
    then have "b'' = set_global a (dict_set name v (global_of a b')) b'" by (simp add: b'')
    then show ?thesis using CrossRegionAttribute
      by (cases scope') (simp_all add: attr_value_at_def global_of_set_global [OF h] fs gb u split: option.split)
  next
    case CrossAccountAttribute
    then have "b'' = b'\<lparr>arb_universal := dict_set name v (arb_universal b')\<rparr>" by (simp add: b'')
    then show ?thesis using CrossAccountAttribute
      by (cases scope') (simp_all add: attr_value_at_def fs gb u split: option.split)
  qed
qed

subsection \<open>Laws of the reset\<close>

lemma dict_get_clear_local: "py_startswith k LOCAL_ATTR_PREFIX \<Longrightarrow> dict_get (clear_local obj) k = None"
  by (auto simp: clear_local_def dict_get_None)

lemma reset_instances_held: "fst (reset_instances u stores g v) = map (\<lambda>(region, obj). (region, clear_local obj)) stores"
  by (induction u stores g v rule: reset_instances.induct) (auto split: prod.splits)

lemma region_reset_held: "fst (region_reset u rb v) = map (\<lambda>(region, obj). (region, clear_local obj)) (rb_stores rb)"
  "rb_global (fst (snd (region_reset u rb v))) = []"
  using reset_instances_held [of u "rb_stores rb" "rb_global rb" v] by (simp_all add: region_reset_def split_beta)

lemma reset_bundles_held:
  "fst (reset_bundles bs v) =
    concat (map (\<lambda>(account, rb). map (\<lambda>(region, obj). (account, region, clear_local obj, [])) (rb_stores rb)) bs)"
proof (induction bs arbitrary: v)
  case (Cons p bs)
  then show ?case
    by (cases p) (simp add: split_beta region_reset_held comp_def)
qed simp

lemma bundles_reset_held:
  fixes b :: "'v attr_bundles"
  shows "fst (bundles_reset b) = map (\<lambda>(account, region, obj). (account, region, clear_local obj, [])) (iter_stores b)"
proof -
  have "concat (map (\<lambda>(account, rb). map (\<lambda>(region, obj). (account, region, clear_local obj, [])) (rb_stores rb)) bs) =
      map (\<lambda>(account, region, obj). (account, region, clear_local obj, []))
        (concat (map (\<lambda>(account, rb). map (\<lambda>(region, st). (account, region, st)) (rb_stores rb)) bs))"
    for bs :: "(string, ('v attrs, 'v attrs) region_bundle) dict"
    by (induction bs) (auto simp: comp_def split_beta)
  then show ?thesis
    using reset_bundles_held [of "arb_bundles b" "arb_universal b"] by (simp add: bundles_reset_def split_beta iter_stores_def)
qed

lemma bundles_reset_bundles: "snd (bundles_reset b) = b\<lparr>arb_bundles := [], arb_universal := []\<rparr>"
  by (simp add: bundles_reset_def split_beta)

lemma account_getitem_uniform:
  assumes "bundle_uniform b"
  shows "bundle_uniform (snd (account_getitem cfg cls a b))"
    "arb_validate (snd (account_getitem cfg cls a b)) = arb_validate b"
    "arb_service_name (snd (account_getitem cfg cls a b)) = arb_service_name b"
    "fst (account_getitem cfg cls a b) = Inr rb \<Longrightarrow>
      rb_account_id rb = a \<and> rb_service_name rb = arb_service_name b \<and> rb_validate rb = arb_validate b"
proof -
  let ?b = "b\<lparr>arb_bundles := dict_setdefault a
     (region_bundle_init cls (arb_service_name b) a (arb_validate b)) (arb_bundles b)\<rparr>"
  have u: "bundle_uniform ?b"
    using assms by (auto simp: dict_setdefault_def bundle_uniform_def region_bundle_init_def)
  then show "bundle_uniform (snd (account_getitem cfg cls a b))" using assms by (simp add: account_getitem_def Let_def)
  show "arb_validate (snd (account_getitem cfg cls a b)) = arb_validate b"
    "arb_service_name (snd (account_getitem cfg cls a b)) = arb_service_name b"
    by (simp_all add: account_getitem_def Let_def)
  assume "fst (account_getitem cfg cls a b) = Inr rb"
  then have "dict_get (arb_bundles ?b) a = Some rb"
    by (auto simp: account_getitem_def Let_def split: if_splits option.splits)
  then show "rb_account_id rb = a \<and> rb_service_name rb = arb_service_name b \<and> rb_validate rb = arb_validate b"
    using bundle_uniform_get [OF u] by simp
qed

lemma get_store_uniform:
  assumes "bundle_uniform b"
  shows "bundle_uniform (snd (get_store cfg cls a r b))" "arb_validate (snd (get_store cfg cls a r b)) = arb_validate b"
    "arb_service_name (snd (get_store cfg cls a r b)) = arb_service_name b"
proof -
  obtain res b1 where g: "account_getitem cfg cls a b = (res, b1)" by fastforce
  have b1: "bundle_uniform b1" "arb_validate b1 = arb_validate b" "arb_service_name b1 = arb_service_name b"
    using account_getitem_uniform(1-3) [OF assms, of cfg cls a] g by simp_all
  have "bundle_uniform (snd (get_store cfg cls a r b)) \<and> arb_validate (snd (get_store cfg cls a r b)) = arb_validate b \<and>
    arb_service_name (snd (get_store cfg cls a r b)) = arb_service_name b"
  proof (cases res)
    case (Inl e)
    then show ?thesis using g b1 by (simp add: get_store_def)
  next
    case (Inr rb)
    have rb: "rb_account_id rb = a \<and> rb_service_name rb = arb_service_name b \<and> rb_validate rb = arb_validate b"
      using account_getitem_uniform(4) [OF assms, of cfg cls a rb] g Inr by simp
    obtain r2 rb' where r: "region_getitem cfg cls r rb = (r2, rb')" by fastforce
    then have "rb_account_id rb' = a \<and> rb_service_name rb' = arb_service_name b \<and> rb_validate rb' = arb_validate b"
      using rb by (auto simp: region_getitem_def Let_def split: if_splits)
    then show ?thesis using g b1 Inr r bundle_uniform_put [OF b1(1), of rb' a] by (simp add: get_store_def)
  qed
  then show "bundle_uniform (snd (get_store cfg cls a r b))" "arb_validate (snd (get_store cfg cls a r b)) = arb_validate b"
    "arb_service_name (snd (get_store cfg cls a r b)) = arb_service_name b" by blast+
qed

end
