(* ===== verification/Tagging.thy ===== *)
theory Tagging
  imports Prelude
begin

text \<open>
  \<open>utils/tagging.py\<close>: the \<open>Tags\<close> dataclass that provider stores hold, the deprecated
  \<open>TaggingService\<close>, and the conversions between the two formats of the AWS APIs.
\<close>

type_synonym tag_map = "(string, string) dict"
type_synonym tags_store = "(string, tag_map) dict"
type_synonym tag_obj = "(string, string) dict"

subsection \<open>Tags\<close>

definition tags_update :: "string \<Rightarrow> tag_map \<Rightarrow> tags_store \<Rightarrow> tags_store" where
  "tags_update arn tags st =
     (let st' = dict_setdefault arn [] st;
          stored_tags = (case dict_get st' arn of Some m \<Rightarrow> m | None \<Rightarrow> [])
      in dict_set arn (dict_update stored_tags tags) st')"

definition tags_get :: "string \<Rightarrow> tags_store \<Rightarrow> tag_map" where
  "tags_get arn st = (case dict_get st arn of None \<Rightarrow> [] | Some m \<Rightarrow> m)"

text \<open>\<open>if tags := self._tags.get(arn)\<close>: a missing and an empty map are both skipped.\<close>

definition tags_delete :: "string \<Rightarrow> string list \<Rightarrow> tags_store \<Rightarrow> tags_store" where
  "tags_delete arn keys st =
     (case dict_get st arn of
        None \<Rightarrow> st
      | Some m \<Rightarrow> if m = [] then st else dict_set arn (fold dict_del keys m) st)"

definition tags_delete_all :: "string \<Rightarrow> tags_store \<Rightarrow> tags_store" where
  "tags_delete_all arn st = dict_del arn st"

definition get_resource_tag_map :: "tags_store \<Rightarrow> tags_store" where
  "get_resource_tag_map st = st"

subsection \<open>TaggingService\<close>

record tagging_service =
  key_field :: string
  value_field :: string
  svc_tags :: tags_store

definition tagging_service_init :: "string \<Rightarrow> string \<Rightarrow> tagging_service" where
  "tagging_service_init kf vf = \<lparr>key_field = kf, value_field = vf, svc_tags = []\<rparr>"

definition list_tags_for_resource :: "string \<Rightarrow> string option \<Rightarrow> tagging_service \<Rightarrow> (string \<times> tag_obj list)" where
  "list_tags_for_resource arn root_name svc =
     ((case root_name of Some r \<Rightarrow> if r = '''' then ''Tags'' else r | None \<Rightarrow> ''Tags''),
      (case dict_get (svc_tags svc) arn of
         None \<Rightarrow> []
       | Some m \<Rightarrow> map (\<lambda>(k, v). dict_update [] [(key_field svc, k), (value_field svc, v)]) m))"

fun tag_resource_loop :: "string \<Rightarrow> string \<Rightarrow> tag_map \<Rightarrow> tag_obj list \<Rightarrow> exn option \<times> tag_map" where
  "tag_resource_loop kf vf m [] = (None, m)"
| "tag_resource_loop kf vf m (t # ts) =
     (case (dict_get t vf, dict_get t kf) of
        (Some v, Some k) \<Rightarrow> tag_resource_loop kf vf (dict_set k v m) ts
      | (None, _) \<Rightarrow> (Some (KeyError vf), m)
      | (_, None) \<Rightarrow> (Some (KeyError kf), m))"

definition tag_resource :: "string \<Rightarrow> tag_obj list \<Rightarrow> tagging_service \<Rightarrow> exn option \<times> tagging_service" where
  "tag_resource arn tags svc =
     (if tags = [] then (None, svc)
      else
        let st = (if dict_has (svc_tags svc) arn then svc_tags svc else dict_set arn [] (svc_tags svc));
            (e, m) = tag_resource_loop (key_field svc) (value_field svc)
                       (case dict_get st arn of Some m \<Rightarrow> m | None \<Rightarrow> []) tags
        in (e, svc\<lparr>svc_tags := dict_set arn m st\<rparr>))"

definition untag_resource :: "string \<Rightarrow> string list \<Rightarrow> tagging_service \<Rightarrow> tagging_service" where
  "untag_resource arn tag_names svc =
     (case dict_get (svc_tags svc) arn of
        None \<Rightarrow> svc
      | Some m \<Rightarrow> svc\<lparr>svc_tags := dict_set arn (fold dict_del tag_names m) (svc_tags svc)\<rparr>)"

definition del_resource :: "string \<Rightarrow> tagging_service \<Rightarrow> tagging_service" where
  "del_resource arn svc = svc\<lparr>svc_tags := dict_del arn (svc_tags svc)\<rparr>"

subsection \<open>Conversions\<close>

fun tag_list_to_map_loop :: "string \<Rightarrow> string \<Rightarrow> tag_map \<Rightarrow> tag_obj list \<Rightarrow> tag_map result" where
  "tag_list_to_map_loop kf vf m [] = Inr m"
| "tag_list_to_map_loop kf vf m (t # ts) =
     (case (dict_get t kf, dict_get t vf) of
        (Some k, Some v) \<Rightarrow> tag_list_to_map_loop kf vf (dict_set k v m) ts
      | (None, _) \<Rightarrow> Inl (KeyError kf)
      | (_, None) \<Rightarrow> Inl (KeyError vf))"

definition tag_list_to_map :: "tag_obj list \<Rightarrow> string \<Rightarrow> string \<Rightarrow> tag_map result" where
  "tag_list_to_map tag_list kf vf = tag_list_to_map_loop kf vf [] tag_list"

definition tag_map_to_list :: "tag_map \<Rightarrow> string \<Rightarrow> string \<Rightarrow> tag_obj list" where
  "tag_map_to_list tag_map kf vf = map (\<lambda>(key, val). dict_update [] [(kf, key), (vf, val)]) tag_map"

subsection \<open>The contract of a tag store\<close>

text \<open>
  What providers rely on: a lookup after an update, a deletion of keys, a deletion of the resource,
  and that every operation touches one resource only.
\<close>

locale tag_store =
  fixes update :: "string \<Rightarrow> tag_map \<Rightarrow> 's \<Rightarrow> 's"
    and delete :: "string \<Rightarrow> string list \<Rightarrow> 's \<Rightarrow> 's"
    and delete_all :: "string \<Rightarrow> 's \<Rightarrow> 's"
    and get :: "string \<Rightarrow> 's \<Rightarrow> tag_map"
    and invar :: "'s \<Rightarrow> bool"
  assumes invar_update: "invar s \<Longrightarrow> dict_wf m \<Longrightarrow> invar (update a m s)"
    and invar_delete: "invar s \<Longrightarrow> invar (delete a ks s)"
    and invar_delete_all: "invar s \<Longrightarrow> invar (delete_all a s)"
    and get_update: "invar s \<Longrightarrow> dict_wf m \<Longrightarrow>
      dict_get (get b (update a m s)) k =
        (if b = a then (case dict_get m k of Some v \<Rightarrow> Some v | None \<Rightarrow> dict_get (get a s) k)
         else dict_get (get b s) k)"
    and get_delete: "invar s \<Longrightarrow>
      dict_get (get b (delete a ks s)) k =
        (if b = a \<and> k \<in> set ks then None else dict_get (get b s) k)"
    and get_delete_all: "invar s \<Longrightarrow>
      dict_get (get b (delete_all a s)) k = (if b = a then None else dict_get (get b s) k)"
begin

lemma update_delete_roundtrip:
  assumes "invar s" "dict_wf m" "\<forall>k \<in> set (map fst m). dict_get (get a s) k = None"
  shows "dict_get (get b (delete a (map fst m) (update a m s))) k = dict_get (get b s) k"
proof -
  have i: "invar (update a m s)" using assms invar_update by blast
  show ?thesis
  proof (cases "b = a \<and> k \<in> set (map fst m)")
    case True
    then show ?thesis using assms(3) get_delete [OF i] by auto
  next
    case False
    then have "b = a \<Longrightarrow> dict_get m k = None" by (simp add: map_of_eq_None_iff)
    with False show ?thesis unfolding get_delete [OF i] get_update [OF assms(1,2)] by auto
  qed
qed

lemma tag_after_delete_all:
  assumes "invar s" "dict_wf m"
  shows "dict_get (get a (update a m (delete_all a s))) k = dict_get m k"
  using assms by (simp add: get_update get_delete_all invar_delete_all split: option.splits)

end

definition tags_wf :: "tags_store \<Rightarrow> bool" where
  "tags_wf st \<longleftrightarrow> dict_wf st \<and> (\<forall>(a, m) \<in> set st. dict_wf m)"

lemma dict_get_fold_del: "dict_get (fold dict_del ks m) k = (if k \<in> set ks then None else dict_get m k)"
  by (induction ks arbitrary: m) auto

lemma dict_wf_fold_del: "dict_wf m \<Longrightarrow> dict_wf (fold dict_del ks m)"
  by (induction ks arbitrary: m) auto

lemma dict_get_setdefault: "dict_get (dict_setdefault k v d) k' = (if k' = k \<and> \<not> dict_has d k then Some v else dict_get d k')"
proof (cases "dict_has d k")
  case False
  then have "dict_get d k = None" by (simp add: map_of_eq_None_iff)
  with False show ?thesis by (auto simp: dict_setdefault_def map_add_def split: option.splits)
qed (auto simp: dict_setdefault_def)

lemma dict_wf_setdefault: "dict_wf d \<Longrightarrow> dict_wf (dict_setdefault k v d)"
  by (auto simp: dict_setdefault_def)

lemma set_dict_set: "p \<in> set (dict_set k v d) \<Longrightarrow> p = (k, v) \<or> p \<in> set d"
  by (induction d) (auto split: if_splits)

lemma set_dict_del: "p \<in> set (dict_del k d) \<Longrightarrow> p \<in> set d"
  by (simp add: AList.delete_eq)

lemma tags_wf_get: "tags_wf st \<Longrightarrow> dict_get st a = Some m \<Longrightarrow> dict_wf m"
  by (auto simp: tags_wf_def dest: map_of_SomeD)

lemma tags_wf_set: "tags_wf st \<Longrightarrow> dict_wf m \<Longrightarrow> tags_wf (dict_set a m st)"
  by (auto simp: tags_wf_def dest!: set_dict_set)

lemma tags_wf_setdefault: "tags_wf st \<Longrightarrow> tags_wf (dict_setdefault a [] st)"
  by (auto simp: tags_wf_def dict_wf_setdefault) (auto simp: dict_setdefault_def split: if_splits)

lemma tags_get_update:
  "tags_get b (tags_update a m st) = (if b = a then dict_update (tags_get a st) m else tags_get b st)"
proof (cases "dict_has st a")
  case False
  then have "dict_get st a = None" by (simp add: map_of_eq_None_iff)
  with False show ?thesis
    by (simp add: tags_get_def tags_update_def Let_def dict_get_setdefault)
qed (auto simp: tags_get_def tags_update_def Let_def dict_get_setdefault)

interpretation tags: tag_store tags_update tags_delete tags_delete_all tags_get tags_wf
proof unfold_locales
  fix s m a
  assume s: "tags_wf s" and m: "dict_wf (m :: tag_map)"
  show "tags_wf (tags_update a m s)"
    unfolding tags_update_def Let_def
    by (rule tags_wf_set [OF tags_wf_setdefault [OF s]], rule dict_wf_update)
      (auto split: option.splits dest: tags_wf_get [OF tags_wf_setdefault [OF s]])
next
  fix s a ks
  assume "tags_wf s"
  then show "tags_wf (tags_delete a ks s)"
    by (auto simp: tags_delete_def intro!: tags_wf_set dict_wf_fold_del dest: tags_wf_get split: option.splits)
next
  fix s a
  assume "tags_wf s"
  then show "tags_wf (tags_delete_all a s)"
    by (auto simp: tags_delete_all_def tags_wf_def dest: set_dict_del)
next
  fix s m a b k
  assume "tags_wf s" and "dict_wf (m :: tag_map)"
  then show "dict_get (tags_get b (tags_update a m s)) k =
      (if b = a then (case dict_get m k of Some v \<Rightarrow> Some v | None \<Rightarrow> dict_get (tags_get a s) k)
       else dict_get (tags_get b s) k)"
    by (simp add: tags_get_update dict_get_update_wf)
qed (auto simp: tags_get_def tags_delete_def tags_delete_all_def dict_get_fold_del split: option.splits)

lemma tag_list_map_loop:
  assumes "kf \<noteq> vf" "dict_wf (acc @ m)"
  shows "tag_list_to_map_loop kf vf acc (tag_map_to_list m kf vf) = Inr (acc @ m)"
  using assms(2)
proof (induction m arbitrary: acc)
  case (Cons p m)
  obtain k v where p: "p = (k, v)" by fastforce
  have "dict_set k v acc = acc @ [(k, v)]"
    using Cons.prems p by (induction acc) auto
  then show ?case
    using Cons.IH [of "acc @ [(k, v)]"] Cons.prems p assms(1)
    by (simp add: tag_map_to_list_def dict_update_def)
qed (simp add: tag_map_to_list_def)

end
