(* ===== verification/SqsWorld.thy ===== *)
theory SqsWorld
  imports SqsFifo SqsChecks Stores Tagging
begin

text \<open>
  The state of the SQS service and how requests reach it: \<open>models.py\<close>, class \<open>SqsStore\<close>, and the
  lookup functions of \<open>provider.py\<close>. A handler is a function from the state to a result and a state,
  so that an exception leaves behind what was changed before it. The time of a request is read once.

  A queue object is identified by the place it is registered at: account, region and name.
\<close>

named_theorems run_op \<open>execution of handlers\<close>

subsection \<open>Queues of either type\<close>

datatype queue = Std standard_queue | Fifo fifo_queue

definition q_name :: "queue \<Rightarrow> string" where
  "q_name q = (case q of Std s \<Rightarrow> queue_name s | Fifo f \<Rightarrow> queue_name f)"

definition q_account :: "queue \<Rightarrow> string" where
  "q_account q = (case q of Std s \<Rightarrow> account_id s | Fifo f \<Rightarrow> account_id f)"

definition q_region :: "queue \<Rightarrow> string" where
  "q_region q = (case q of Std s \<Rightarrow> region s | Fifo f \<Rightarrow> region f)"

definition q_arn :: "queue \<Rightarrow> string" where
  "q_arn q = (case q of Std s \<Rightarrow> queue_arn s | Fifo f \<Rightarrow> queue_arn f)"

definition q_url :: "url_context \<Rightarrow> queue \<Rightarrow> string" where
  "q_url ctx q = (case q of Std s \<Rightarrow> queue_url ctx s | Fifo f \<Rightarrow> queue_url ctx f)"

definition q_attributes :: "queue \<Rightarrow> (string, string) dict" where
  "q_attributes q = (case q of Std s \<Rightarrow> attributes s | Fifo f \<Rightarrow> attributes f)"

definition q_set_attributes :: "(string, string) dict \<Rightarrow> queue \<Rightarrow> queue" where
  "q_set_attributes a q = (case q of Std s \<Rightarrow> Std (s\<lparr>attributes := a\<rparr>) | Fifo f \<Rightarrow> Fifo (f\<lparr>attributes := a\<rparr>))"

definition q_obj :: "queue \<Rightarrow> ref \<Rightarrow> sqs_message" where
  "q_obj q r = (case q of Std s \<Rightarrow> objs s r | Fifo f \<Rightarrow> objs f r)"

definition q_upd_obj :: "ref \<Rightarrow> (sqs_message \<Rightarrow> sqs_message) \<Rightarrow> queue \<Rightarrow> queue" where
  "q_upd_obj r g q = (case q of Std s \<Rightarrow> Std (upd_obj r g s) | Fifo f \<Rightarrow> Fifo (upd_obj r g f))"

definition q_int_attribute :: "string \<Rightarrow> queue \<Rightarrow> int result" where
  "q_int_attribute k q = (case q of Std s \<Rightarrow> int_attribute s k | Fifo f \<Rightarrow> int_attribute f k)"

definition q_redrive_policy :: "queue \<Rightarrow> json option result" where
  "q_redrive_policy q = (case q of Std s \<Rightarrow> redrive_policy s | Fifo f \<Rightarrow> redrive_policy f)"

definition q_purge_timestamp :: "queue \<Rightarrow> time option" where
  "q_purge_timestamp q = (case q of Std s \<Rightarrow> purge_timestamp s | Fifo f \<Rightarrow> purge_timestamp f)"

definition q_approximate_number_of_messages :: "queue \<Rightarrow> nat" where
  "q_approximate_number_of_messages q =
     (case q of Std s \<Rightarrow> standard_approximate_number_of_messages s | Fifo f \<Rightarrow> fifo_approximate_number_of_messages f)"

definition q_not_visible :: "queue \<Rightarrow> nat" where
  "q_not_visible q =
     (case q of Std s \<Rightarrow> approximate_number_of_messages_not_visible s | Fifo f \<Rightarrow> approximate_number_of_messages_not_visible f)"

definition q_delayed :: "queue \<Rightarrow> nat" where
  "q_delayed q =
     (case q of Std s \<Rightarrow> approximate_number_of_messages_delayed s | Fifo f \<Rightarrow> approximate_number_of_messages_delayed f)"

definition q_validate_queue_attributes :: "(string, string) dict \<Rightarrow> queue \<Rightarrow> unit result" where
  "q_validate_queue_attributes attrs q =
     (case q of Std s \<Rightarrow> standard_validate_queue_attributes attrs | Fifo f \<Rightarrow> fifo_validate_queue_attributes attrs)"

definition q_get_queue_attributes :: "string list option \<Rightarrow> queue \<Rightarrow> (string, string) dict result" where
  "q_get_queue_attributes names q =
     (case q of
        Std s \<Rightarrow> queue_get_queue_attributes (standard_approximate_number_of_messages s) names s
      | Fifo f \<Rightarrow> queue_get_queue_attributes (fifo_approximate_number_of_messages f) names f)"

definition q_is_fifo :: "queue \<Rightarrow> bool" where
  "q_is_fifo q = (case q of Std s \<Rightarrow> is_fifo_queue s | Fifo f \<Rightarrow> is_fifo_queue f)"

definition q_dedup_required :: "queue \<Rightarrow> bool" where
  "q_dedup_required q =
     (case q of Std s \<Rightarrow> is_message_deduplication_id_required s | Fifo f \<Rightarrow> is_message_deduplication_id_required f)"

definition q_shutdown :: "queue \<Rightarrow> queue" where
  "q_shutdown q = (case q of Std s \<Rightarrow> Std (queue_shutdown s) | Fifo f \<Rightarrow> Fifo (queue_shutdown f))"

definition q_clear :: "time \<Rightarrow> queue \<Rightarrow> queue" where
  "q_clear now q =
     (case q of
        Std s \<Rightarrow> Std (standard_clear (s\<lparr>purge_timestamp := Some now\<rparr>))
      | Fifo f \<Rightarrow> Fifo (fifo_clear (f\<lparr>purge_timestamp := Some now\<rparr>)))"

definition lift_std :: "'a \<times> standard_queue \<Rightarrow> 'a \<times> queue" where
  "lift_std p = (fst p, Std (snd p))"

definition lift_fifo :: "'a \<times> fifo_queue \<Rightarrow> 'a \<times> queue" where
  "lift_fifo p = (fst p, Fifo (snd p))"

definition q_put ::
  "externals \<Rightarrow> time \<Rightarrow> time \<Rightarrow> int \<Rightarrow> api_message \<Rightarrow> string option \<Rightarrow> string option \<Rightarrow> int option \<Rightarrow> queue \<Rightarrow>
   (ref result \<times> queue) \<times> int"
where
  "q_put ext now later seq msg dedup grp delay q =
     (case q of
        Std s \<Rightarrow> (lift_std (standard_put now later msg None dedup grp delay s), seq)
      | Fifo f \<Rightarrow> (case fifo_put ext now later seq msg None dedup grp delay f of (p, seq') \<Rightarrow> (lift_fifo p, seq')))"

definition q_receive ::
  "externals \<Rightarrow> (nat \<Rightarrow> string) \<Rightarrow> time \<Rightarrow> int \<Rightarrow> int option \<Rightarrow> int option \<Rightarrow> bool \<Rightarrow> queue \<Rightarrow>
   receive_message_result result \<times> queue"
where
  "q_receive ext fresh now num wait_time timeout poll q =
     (case q of
        Std s \<Rightarrow> lift_std (standard_receive ext fresh now num wait_time timeout poll s)
      | Fifo f \<Rightarrow> lift_fifo (fifo_receive ext fresh now num wait_time timeout poll f))"

definition q_remove :: "externals \<Rightarrow> time \<Rightarrow> string \<Rightarrow> queue \<Rightarrow> unit result \<times> queue" where
  "q_remove ext now handle q =
     (case q of Std s \<Rightarrow> lift_std (standard_remove ext handle s) | Fifo f \<Rightarrow> lift_fifo (fifo_remove ext now handle f))"

definition q_update_visibility_timeout :: "externals \<Rightarrow> time \<Rightarrow> string \<Rightarrow> int \<Rightarrow> queue \<Rightarrow> unit result \<times> queue" where
  "q_update_visibility_timeout ext now handle timeout q =
     (case q of
        Std s \<Rightarrow> lift_std (standard_update_visibility_timeout ext now handle timeout s)
      | Fifo f \<Rightarrow> lift_fifo (fifo_update_visibility_timeout ext now handle timeout f))"

definition q_requeue_inflight_messages :: "time \<Rightarrow> queue \<Rightarrow> queue" where
  "q_requeue_inflight_messages now q =
     (case q of
        Std s \<Rightarrow> Std (standard_requeue_inflight_messages now s)
      | Fifo f \<Rightarrow> Fifo (fifo_requeue_inflight_messages now f))"

definition q_enqueue_delayed_messages :: "time \<Rightarrow> queue \<Rightarrow> queue" where
  "q_enqueue_delayed_messages now q =
     (case q of
        Std s \<Rightarrow> Std (standard_enqueue_delayed_messages now s)
      | Fifo f \<Rightarrow> Fifo (fifo_enqueue_delayed_messages now f))"

definition q_remove_expired_messages :: "time \<Rightarrow> queue \<Rightarrow> unit result \<times> queue" where
  "q_remove_expired_messages now q =
     (case q of
        Std s \<Rightarrow> lift_std (standard_remove_expired_messages now s)
      | Fifo f \<Rightarrow> lift_fifo (fifo_remove_expired_messages now f))"

definition q_add_permission :: "externals \<Rightarrow> string \<Rightarrow> string list \<Rightarrow> string list \<Rightarrow> queue \<Rightarrow> queue result" where
  "q_add_permission ext label actions accounts q =
     (case q of
        Std s \<Rightarrow> map_sum id Std (add_permission ext label actions accounts s)
      | Fifo f \<Rightarrow> map_sum id Fifo (add_permission ext label actions accounts f))"

definition q_remove_permission :: "externals \<Rightarrow> string \<Rightarrow> queue \<Rightarrow> queue result" where
  "q_remove_permission ext label q =
     (case q of
        Std s \<Rightarrow> map_sum id Std (remove_permission ext label s)
      | Fifo f \<Rightarrow> map_sum id Fifo (remove_permission ext label f))"

lemmas q_defs = q_name_def q_account_def q_region_def q_arn_def q_url_def q_attributes_def

subsection \<open>Stores and the state of the service\<close>

record sqs_store =
  store_queues :: "(string, queue) dict"
  store_deleted :: "(string, time) dict"
  store_move_tasks :: "(string, message_move_task) dict"
  store_tags :: tags_store

definition sqs_store_class :: "(sqs_store, unit, unit) store_class" where
  "sqs_store_class =
     \<lparr>new_store = \<lparr>store_queues = [], store_deleted = [], store_move_tasks = [], store_tags = []\<rparr>,
      new_global = (), new_universal = ()\<rparr>"

definition expire_deleted :: "time \<Rightarrow> sqs_store \<Rightarrow> sqs_store" where
  "expire_deleted now st =
     st\<lparr>store_deleted := filter (\<lambda>(k, t). \<not> t \<le> now - RECENTLY_DELETED_TIMEOUT) (store_deleted st)\<rparr>"

text \<open>What \<open>CloudwatchDispatcher\<close> hands to its thread pool.\<close>

record metric =
  metric_account :: string
  metric_region :: string
  metric_queue :: string
  metric_name :: string
  metric_value :: int
  metric_unit :: string

record sqs_world =
  stores :: "(sqs_store, unit, unit) account_region_bundle"
  uid_count :: nat
  msg_seq :: int
  manager_tasks :: "(string, string \<times> string) dict"
  dispatcher_running :: bool
  metrics :: "metric list"

text \<open>
  Configuration and code outside the service: \<open>env_uid\<close> is the sequence of values \<open>long_uid()\<close> returns,
  \<open>env_operation_names\<close> the operations of botocore's service model, \<open>env_tick\<close> the time that passes in \<open>put\<close> between
  making a message and testing its delay.
\<close>

record sqs_env =
  env_ext :: externals
  env_uid :: "nat \<Rightarrow> string"
  env_stores :: stores_config
  env_protocol :: string
  env_host_and_port :: string
  env_strategy :: endpoint_strategy
  env_delay_recently_deleted :: bool
  env_delay_purge_retry :: bool
  env_disable_max_number_of_messages :: bool
  env_enable_retention_period :: bool
  env_cloudwatch_disabled :: bool
  env_tick :: time
  env_operation_names :: "string list"
  env_unicode_word :: "nat \<Rightarrow> bool"

record request_context =
  ctx_account_id :: string
  ctx_region :: string
  ctx_is_query :: bool
  ctx_base_url :: string
  ctx_scheme :: string
  ctx_host :: string
  ctx_trace_id :: "string option"
  ctx_message_count :: "string option"
  ctx_wait_time :: "string option"

definition url_ctx :: "sqs_env \<Rightarrow> request_context \<Rightarrow> url_context" where
  "url_ctx env ctx =
     \<lparr>cfg_protocol = env_protocol env, cfg_host_and_port = env_host_and_port env, cfg_strategy = env_strategy env,
      request_scheme = ctx_scheme ctx, request_host = ctx_host ctx\<rparr>"

definition sqs_world_init :: "time \<Rightarrow> sqs_world" where
  "sqs_world_init now =
     \<lparr>stores = arb_init sqs_store_class ''sqs'' True, uid_count = 0, msg_seq = \<lfloor>now\<rfloor> * 2 ^ 33,
      manager_tasks = [], dispatcher_running = True, metrics = []\<rparr>"

subsection \<open>Handlers\<close>

type_synonym 'a op = "sqs_world \<Rightarrow> 'a result \<times> sqs_world"

definition ret :: "'a \<Rightarrow> 'a op" where
  "ret x w = (Inr x, w)"

definition lift_op :: "'a result \<Rightarrow> 'a op" where
  "lift_op r w = (r, w)"

definition bind_op :: "'a op \<Rightarrow> ('a \<Rightarrow> 'b op) \<Rightarrow> 'b op" where
  "bind_op m f w = (case m w of (Inl e, w') \<Rightarrow> (Inl e, w') | (Inr x, w') \<Rightarrow> f x w')"

definition read_op :: "(sqs_world \<Rightarrow> 'a) \<Rightarrow> 'a op" where
  "read_op f w = (Inr (f w), w)"

definition modify_op :: "(sqs_world \<Rightarrow> sqs_world) \<Rightarrow> unit op" where
  "modify_op f w = (Inr (), f w)"

text \<open>\<open>try: m except E as e: raise ...\<close> where \<open>h\<close> gives the replacement for the exceptions it handles.\<close>

definition rethrow :: "'a op \<Rightarrow> (exn \<Rightarrow> exn) \<Rightarrow> 'a op" where
  "rethrow m h w = (case m w of (Inl e, w') \<Rightarrow> (Inl (h e), w') | (Inr x, w') \<Rightarrow> (Inr x, w'))"

lemma run_ops [run_op]:
  "ret x w = (Inr x, w)" "lift_op r w = (r, w)" "read_op f w = (Inr (f w), w)" "modify_op g w = (Inr (), g w)"
  by (simp_all add: ret_def lift_op_def read_op_def modify_op_def)

lemma run_bind_Inr [run_op]: "m w = (Inr x, w') \<Longrightarrow> bind_op m f w = f x w'"
  by (simp add: bind_op_def)

lemma run_bind_Inl [run_op]: "m w = (Inl e, w') \<Longrightarrow> bind_op m f w = (Inl e, w')"
  by (simp add: bind_op_def)

lemma run_bind_ops [run_op, simp]:
  "bind_op (ret x) f w = f x w" "bind_op (lift_op (Inr y)) g w = g y w" "bind_op (lift_op (Inl e)) g w = (Inl e, w)"
  "bind_op (read_op h) k w = k (h w) w" "bind_op (modify_op u) l w = l () (u w)"
  by (simp_all add: bind_op_def run_ops)

lemma bind_op_InrE:
  assumes "bind_op m f w = (Inr y, w'')"
  obtains x w' where "m w = (Inr x, w')" "f x w' = (Inr y, w'')"
  using assms by (auto simp: bind_op_def split: prod.splits sum.splits)

lemma bind_op_cases:
  assumes "bind_op m f w = (r, w'')"
  obtains (err) e where "m w = (Inl e, w'')" "r = Inl e"
    | (ok) x w' where "m w = (Inr x, w')" "f x w' = (r, w'')"
  using assms by (auto simp: bind_op_def split: prod.splits sum.splits)

subsection \<open>Lookup\<close>

type_synonym queue_key = "string \<times> string \<times> string"

definition get_store_op :: "sqs_env \<Rightarrow> string \<Rightarrow> string \<Rightarrow> sqs_store op" where
  "get_store_op env account reg w =
     (case get_store (env_stores env) sqs_store_class account reg (stores w) of
        (r, b) \<Rightarrow> (r, w\<lparr>stores := b\<rparr>))"

definition update_store :: "string \<Rightarrow> string \<Rightarrow> (sqs_store \<Rightarrow> sqs_store) \<Rightarrow> sqs_world \<Rightarrow> sqs_world" where
  "update_store account reg f w =
     (case find_store account reg (stores w) of
        None \<Rightarrow> w
      | Some st \<Rightarrow> w\<lparr>stores := set_store account reg (f st) (stores w)\<rparr>)"

definition find_queue :: "queue_key \<Rightarrow> sqs_world \<Rightarrow> queue option" where
  "find_queue key w =
     (case key of (account, reg, name) \<Rightarrow>
        (case find_store account reg (stores w) of None \<Rightarrow> None | Some st \<Rightarrow> dict_get (store_queues st) name))"

definition set_queue :: "queue_key \<Rightarrow> queue \<Rightarrow> sqs_world \<Rightarrow> sqs_world" where
  "set_queue key q w =
     (case key of (account, reg, name) \<Rightarrow>
        update_store account reg (\<lambda>st. st\<lparr>store_queues := dict_set name q (store_queues st)\<rparr>) w)"

definition queue_missing :: "bool \<Rightarrow> exn" where
  "queue_missing is_query =
     ServiceException ''QueueDoesNotExist''
       (if is_query then ''The specified queue does not exist for this wsdl version.''
        else ''The specified queue does not exist.'') False"

definition require_queue :: "sqs_env \<Rightarrow> string \<Rightarrow> string \<Rightarrow> string \<Rightarrow> bool \<Rightarrow> queue_key op" where
  "require_queue env account reg name is_query =
     bind_op (get_store_op env account reg) (\<lambda>st.
       if dict_has (store_queues st) name then ret (account, reg, name) else lift_op (Inl (queue_missing is_query)))"

definition require_queue_by_arn :: "sqs_env \<Rightarrow> bool \<Rightarrow> string \<Rightarrow> queue_key op" where
  "require_queue_by_arn env is_query arn =
     bind_op (lift_op (ext_parse_arn (env_ext env) arn)) (\<lambda>d.
       require_queue env (arn_account d) (arn_region d) (arn_resource d) is_query)"

definition resolve_queue_location ::
  "request_context \<Rightarrow> string option \<Rightarrow> string \<Rightarrow> string \<times> string option \<times> string" where
  "resolve_queue_location ctx qname url =
     (if truthy qname then (ctx_account_id ctx, Some (ctx_region ctx), the qname)
      else case parse_queue_url (if url \<noteq> [] then url else ctx_base_url ctx) of
             Inr loc \<Rightarrow> loc
           | Inl e \<Rightarrow> (ctx_account_id ctx, Some (ctx_region ctx), url))"

definition resolve_queue :: "sqs_env \<Rightarrow> request_context \<Rightarrow> string \<Rightarrow> queue_key op" where
  "resolve_queue env ctx url =
     (case resolve_queue_location ctx None url of (account, reg, name) \<Rightarrow>
        require_queue env account (if truthy reg then the reg else ctx_region ctx) name (ctx_is_query ctx))"

text \<open>A method call on a queue object.\<close>

definition read_queue :: "queue_key \<Rightarrow> queue op" where
  "read_queue key w =
     (case find_queue key w of Some q \<Rightarrow> (Inr q, w) | None \<Rightarrow> (Inl (KeyError (snd (snd key))), w))"

definition on_queue :: "queue_key \<Rightarrow> (queue \<Rightarrow> 'a result \<times> queue) \<Rightarrow> 'a op" where
  "on_queue key f =
     bind_op (read_queue key) (\<lambda>q w. case f q of (r, q') \<Rightarrow> (r, set_queue key q' w))"

definition put_op ::
  "sqs_env \<Rightarrow> time \<Rightarrow> queue_key \<Rightarrow> api_message \<Rightarrow> string option \<Rightarrow> string option \<Rightarrow> int option \<Rightarrow> ref op" where
  "put_op env now key msg dedup grp delay =
     bind_op (read_queue key) (\<lambda>q w.
       case q_put (env_ext env) now (now + env_tick env) (msg_seq w) msg dedup grp delay q of
         ((r, q'), seq') \<Rightarrow> (r, (set_queue key q' w)\<lparr>msg_seq := seq'\<rparr>))"

definition receive_op ::
  "sqs_env \<Rightarrow> time \<Rightarrow> queue_key \<Rightarrow> int \<Rightarrow> int option \<Rightarrow> int option \<Rightarrow> bool \<Rightarrow> receive_message_result op" where
  "receive_op env now key num wait_time timeout poll =
     bind_op (read_queue key) (\<lambda>q w.
       case q_receive (env_ext env) (\<lambda>i. env_uid env (uid_count w + i)) now num wait_time timeout poll q of
         (r, q') \<Rightarrow>
           (r, (set_queue key q' w)\<lparr>uid_count := uid_count w +
                  (case r of Inr res \<Rightarrow> length (result_handles res) | Inl e \<Rightarrow> 0)\<rparr>))"

definition long_uid :: "sqs_env \<Rightarrow> string op" where
  "long_uid env w = (Inr (env_uid env (uid_count w)), w\<lparr>uid_count := uid_count w + 1\<rparr>)"

end
