(* ===== verification/Collections.thy ===== *)
theory Collections
  imports PyBase64
begin

text \<open>
  The collection helpers of \<open>utils/collections.py\<close> and the pagination token of
  \<open>utils/strings.py\<close>. A Python list is a list, a dict an association list with distinct keys in
  insertion order.
\<close>

subsection \<open>Pagination\<close>

fun list_index :: "'a \<Rightarrow> 'a list \<Rightarrow> nat" where
  "list_index x [] = 0"
| "list_index x (y # ys) = (if x = y then 0 else Suc (list_index x ys))"

definition default_page_size :: nat where
  "default_page_size = 50"

definition get_page ::
  "('e \<Rightarrow> string) \<Rightarrow> string option \<Rightarrow> nat option \<Rightarrow> ('e \<Rightarrow> bool) option \<Rightarrow> 'e list \<Rightarrow> 'e list \<times> string option"
where
  "get_page token_generator next_token page_size filter_function xs =
     (let result_list = (case filter_function of Some f \<Rightarrow> filter f xs | None \<Rightarrow> xs);
          psize = (case page_size of Some n \<Rightarrow> n | None \<Rightarrow> default_page_size)
      in if length result_list \<le> psize \<and> next_token = None then (result_list, None)
         else
           let start_idx =
                 (case find (\<lambda>item. Some (token_generator item) = next_token) result_list of
                    Some start_item \<Rightarrow> list_index start_item result_list
                  | None \<Rightarrow> 0);
               token = (if start_idx + psize < length result_list
                        then Some (token_generator (result_list ! (start_idx + psize)))
                        else None)
           in (take psize (drop start_idx result_list), token))"

definition token_generator :: "string \<Rightarrow> string" where
  "token_generator item = b64encode item"

text \<open>
  A client that follows the returned tokens, as the AWS SDK paginators do; the fuel bounds the
  number of requests.
\<close>

fun follow_pages :: "nat \<Rightarrow> (string option \<Rightarrow> 'e list \<times> string option) \<Rightarrow> string option \<Rightarrow> 'e list option" where
  "follow_pages 0 request token = None"
| "follow_pages (Suc fuel) request token =
     (case request token of
        (page, None) \<Rightarrow> Some page
      | (page, Some t) \<Rightarrow> map_option (\<lambda>rest. page @ rest) (follow_pages fuel request (Some t)))"

lemma list_index_nth: "distinct xs \<Longrightarrow> i < length xs \<Longrightarrow> list_index (xs ! i) xs = i"
proof (induction xs arbitrary: i)
  case (Cons x xs)
  then show ?case by (cases i) auto
qed simp

text \<open>The contract of a page token: different items have different tokens.\<close>

locale page_tokens =
  fixes token :: "'e \<Rightarrow> string"
  assumes token_inject: "token x = token y \<Longrightarrow> x = y"
begin

lemma find_token:
  assumes "i < length xs"
  shows "find (\<lambda>item. Some (token item) = Some (token (xs ! i))) xs = Some (xs ! i)"
proof (cases "find (\<lambda>item. Some (token item) = Some (token (xs ! i))) xs")
  case None
  then have "token (xs ! i) \<noteq> token (xs ! i)" using assms nth_mem by (fastforce simp: find_None_iff)
  then show ?thesis by simp
next
  case (Some y)
  then have "token y = token (xs ! i)" by (auto simp: find_Some_iff)
  then show ?thesis using Some token_inject by blast
qed

lemma page_at_token:
  assumes "distinct xs" "i < length xs"
  shows "get_page token (Some (token (xs ! i))) (Some psize) None xs =
    (take psize (drop i xs), if i + psize < length xs then Some (token (xs ! (i + psize))) else None)"
  using assms find_token [OF assms(2)] by (simp add: get_page_def list_index_nth)

lemma first_page:
  "get_page token None (Some psize) None xs =
    (take psize xs, if psize < length xs then Some (token (xs ! psize)) else None)"
proof -
  have "find (\<lambda>item. Some (token item) = None) xs = None" by (simp add: find_None_iff)
  then show ?thesis by (simp add: get_page_def Let_def)
qed

lemma follow_from:
  assumes "distinct xs" "0 < psize" "i < length xs" "length xs - i < fuel"
  shows "follow_pages fuel (\<lambda>t. get_page token t (Some psize) None xs) (Some (token (xs ! i))) = Some (drop i xs)"
  using assms(3,4)
proof (induction fuel arbitrary: i)
  case (Suc fuel)
  show ?case
  proof (cases "i + psize < length xs")
    case True
    have "follow_pages fuel (\<lambda>t. get_page token t (Some psize) None xs) (Some (token (xs ! (i + psize)))) =
        Some (drop (i + psize) xs)"
      by (rule Suc.IH) (use True Suc.prems assms(2) in auto)
    moreover have "take psize (drop i xs) @ drop (i + psize) xs = drop i xs"
      by (metis add.commute append_take_drop_id drop_drop)
    ultimately show ?thesis using True Suc.prems by (simp add: page_at_token [OF assms(1)])
  next
    case False
    then show ?thesis using Suc.prems by (simp add: page_at_token [OF assms(1)])
  qed
qed simp

lemma follow_all:
  assumes "distinct xs" "0 < psize" "length xs < fuel"
  shows "follow_pages fuel (\<lambda>t. get_page token t (Some psize) None xs) None = Some xs"
proof -
  obtain n where n: "fuel = Suc n" "length xs \<le> n" using assms(3) by (cases fuel) auto
  show ?thesis
  proof (cases "psize < length xs")
    case True
    then have "length xs - psize < n" using n assms(2) by linarith
    from follow_from [OF assms(1,2) True this] True n show ?thesis
      by (simp add: first_page)
  next
    case False
    then show ?thesis using n by (simp add: first_page)
  qed
qed

end

interpretation b64_tokens: page_tokens token_generator
  by unfold_locales (simp add: token_generator_def)

subsection \<open>Lists and dicts\<close>

fun iter_chunks_from :: "nat \<Rightarrow> nat \<Rightarrow> nat \<Rightarrow> 'e list \<Rightarrow> 'e list list" where
  "iter_chunks_from 0 i psize items = []"
| "iter_chunks_from (Suc fuel) i psize items =
     (if i < length items then take psize (drop i items) # iter_chunks_from fuel (i + psize) psize items else [])"

text \<open>\<open>range(0, len(items), chunk_size)\<close> raises \<open>ValueError\<close> for a zero step.\<close>

definition iter_chunks :: "'e list \<Rightarrow> nat \<Rightarrow> 'e list list result" where
  "iter_chunks items chunk_size =
     (if chunk_size = 0 then Inl (ValueError ''range() arg 3 must not be zero'')
      else Inr (iter_chunks_from (length items) 0 chunk_size items))"

fun split_list_by_loop :: "'e list \<Rightarrow> 'e list \<Rightarrow> ('e \<Rightarrow> bool) \<Rightarrow> 'e list \<Rightarrow> 'e list \<times> 'e list" where
  "split_list_by_loop truthy falsy p [] = (truthy, falsy)"
| "split_list_by_loop truthy falsy p (x # xs) =
     (if p x then split_list_by_loop (truthy @ [x]) falsy p xs
      else split_list_by_loop truthy (falsy @ [x]) p xs)"

definition split_list_by :: "'e list \<Rightarrow> ('e \<Rightarrow> bool) \<Rightarrow> 'e list \<times> 'e list" where
  "split_list_by lst predicate = split_list_by_loop [] [] predicate lst"

definition optional_list :: "bool \<Rightarrow> 'e list \<Rightarrow> 'e list" where
  "optional_list condition items = filter (\<lambda>_. condition) items"

definition select_attributes :: "('k, 'v) dict \<Rightarrow> 'k list \<Rightarrow> ('k, 'v) dict" where
  "select_attributes obj attributes = filter (\<lambda>(k, v). k \<in> set attributes) obj"

definition remove_attributes :: "('k, 'v) dict \<Rightarrow> 'k list \<Rightarrow> ('k, 'v) dict" where
  "remove_attributes obj attributes = fold dict_del attributes obj"

fun rename_attributes :: "('k, 'v) dict \<Rightarrow> ('k, 'k) dict \<Rightarrow> ('k, 'v) dict" where
  "rename_attributes obj [] = obj"
| "rename_attributes obj ((old_name, new_name) # rest) =
     rename_attributes
       (case dict_get obj old_name of
          Some v \<Rightarrow> dict_set new_name v (dict_del old_name obj)
        | None \<Rightarrow> obj) rest"

fun to_unique_items_loop :: "('e \<Rightarrow> 'e \<Rightarrow> bool) \<Rightarrow> 'e list \<Rightarrow> 'e list \<Rightarrow> 'e list" where
  "to_unique_items_loop cmp result [] = result"
| "to_unique_items_loop cmp result (it # rest) =
     to_unique_items_loop cmp (if list_ex (cmp it) result then result else result @ [it]) rest"

definition to_unique_items_list :: "'e list \<Rightarrow> ('e \<Rightarrow> 'e \<Rightarrow> bool) option \<Rightarrow> 'e list" where
  "to_unique_items_list inputs comparator =
     to_unique_items_loop (case comparator of Some c \<Rightarrow> c | None \<Rightarrow> (=)) [] inputs"

fun merge_dicts_loop :: "('k, 'v) dict \<Rightarrow> ('k, 'v) dict option \<Rightarrow> ('k, 'v) dict option list \<Rightarrow> ('k, 'v) dict" where
  "merge_dicts_loop result dflt [] = result"
| "merge_dicts_loop result dflt (d # ds) =
     (case (d, dflt) of
        (None, Some dv) \<Rightarrow> dv
      | (None, None) \<Rightarrow> merge_dicts_loop result dflt ds
      | (Some e, _) \<Rightarrow> merge_dicts_loop (dict_update result e) dflt ds)"

definition merge_dicts :: "('k, 'v) dict option list \<Rightarrow> ('k, 'v) dict option \<Rightarrow> ('k, 'v) dict" where
  "merge_dicts dicts dflt = merge_dicts_loop [] dflt dicts"

definition remove_none_values_from_dict :: "('k, 'v option) dict \<Rightarrow> ('k, 'v option) dict" where
  "remove_none_values_from_dict d = filter (\<lambda>(k, v). v \<noteq> None) d"

fun last_index_loop :: "'e list \<Rightarrow> ('e \<Rightarrow> bool) \<Rightarrow> nat \<Rightarrow> int" where
  "last_index_loop array p 0 = -1"
| "last_index_loop array p (Suc i) = (if p (array ! i) then int i else last_index_loop array p i)"

definition last_index_of :: "'e list \<Rightarrow> ('e \<Rightarrow> bool) \<Rightarrow> int" where
  "last_index_of array p = last_index_loop array p (length array)"

definition is_sub_dict :: "('k, 'v) dict \<Rightarrow> ('k, 'v) dict \<Rightarrow> bool" where
  "is_sub_dict child_dict parent_dict = list_all (\<lambda>(key, val). dict_get parent_dict key = Some val) child_dict"

definition items_equivalent :: "'e list \<Rightarrow> 'e list \<Rightarrow> ('e \<Rightarrow> 'e \<Rightarrow> bool) \<Rightarrow> bool" where
  "items_equivalent list1 list2 comparator =
     (length list1 = length list2 \<and> list_all (\<lambda>item. list_ex (comparator item) list2) list1)"

lemma iter_chunks_from_concat:
  "0 < psize \<Longrightarrow> length items - i \<le> fuel \<Longrightarrow> concat (iter_chunks_from fuel i psize items) = drop i items"
proof (induction fuel arbitrary: i)
  case (Suc fuel)
  then have "concat (iter_chunks_from fuel (i + psize) psize items) = drop (i + psize) items" by simp
  moreover have "take psize (drop i items) @ drop (i + psize) items = drop i items"
    by (metis add.commute append_take_drop_id drop_drop)
  ultimately show ?case by simp
qed simp

lemma iter_chunks_from_sizes:
  "0 < psize \<Longrightarrow> c \<in> set (iter_chunks_from fuel i psize items) \<Longrightarrow> c \<noteq> [] \<and> length c \<le> psize"
  by (induction fuel arbitrary: i) (auto split: if_splits)

lemma split_list_by_filter: "split_list_by lst p = (filter p lst, filter (\<lambda>x. \<not> p x) lst)"
proof -
  have "split_list_by_loop t f p xs = (t @ filter p xs, f @ filter (\<lambda>x. \<not> p x) xs)" for t f xs
    by (induction xs arbitrary: t f) auto
  then show ?thesis by (simp add: split_list_by_def)
qed

lemma dict_get_select: "dict_get (select_attributes obj ks) k = (if k \<in> set ks then dict_get obj k else None)"
  by (induction obj) (auto simp: select_attributes_def)

lemma dict_get_remove: "dict_get (remove_attributes obj ks) k = (if k \<in> set ks then None else dict_get obj k)"
  by (induction ks arbitrary: obj) (auto simp: remove_attributes_def)

lemma unique_items_loop:
  "distinct result \<Longrightarrow> distinct (to_unique_items_loop (=) result xs) \<and>
   set (to_unique_items_loop (=) result xs) = set result \<union> set xs"
  by (induction xs arbitrary: result) (auto simp: list_ex_iff)

lemma last_index_loop_spec:
  "last_index_loop array p n = -1 \<and> (\<forall>i < n. \<not> p (array ! i)) \<or>
   (\<exists>i < n. last_index_loop array p n = int i \<and> p (array ! i) \<and> (\<forall>j. i < j \<and> j < n \<longrightarrow> \<not> p (array ! j)))"
proof (induction n)
  case (Suc n)
  then show ?case
    by (cases "p (array ! n)") (auto simp: less_Suc_eq)
qed simp

end
