(* ===== verification/SqsProvider.thy ===== *)
theory SqsProvider
  imports SqsWorld Collections
begin

text \<open>
  \<open>services/sqs/provider.py\<close>, class \<open>SqsProvider\<close>: the handlers of the queue and message operations, and
  \<open>CloudwatchDispatcher\<close>. Move tasks are in \<open>SqsMove\<close>, the background workers in \<open>SqsWorkers\<close>. Logging is left out.
\<close>

subsection \<open>Metrics\<close>

definition dispatch_sqs_metric :: "string \<Rightarrow> string \<Rightarrow> string \<Rightarrow> string \<Rightarrow> int \<Rightarrow> string \<Rightarrow> unit op" where
  "dispatch_sqs_metric account reg qname name value unt w =
     (Inr (), if \<not> dispatcher_running w then w
              else w\<lparr>metrics := metrics w @ [\<lparr>metric_account = account, metric_region = reg, metric_queue = qname,
                      metric_name = name, metric_value = value, metric_unit = unt\<rparr>]\<rparr>)"

definition dispatch_metric_message_sent :: "queue \<Rightarrow> nat \<Rightarrow> unit op" where
  "dispatch_metric_message_sent q body_size =
     bind_op (dispatch_sqs_metric (q_account q) (q_region q) (q_name q) ''NumberOfMessagesSent'' 1 ''Count'') (\<lambda>_.
       dispatch_sqs_metric (q_account q) (q_region q) (q_name q) ''SentMessageSize'' (int body_size) ''Bytes'')"

definition dispatch_metric_message_deleted :: "queue \<Rightarrow> nat \<Rightarrow> unit op" where
  "dispatch_metric_message_deleted q n =
     dispatch_sqs_metric (q_account q) (q_region q) (q_name q) ''NumberOfMessagesDeleted'' (int n) ''Count''"

definition dispatch_metric_received :: "queue \<Rightarrow> nat \<Rightarrow> unit op" where
  "dispatch_metric_received q n =
     (if n > 0 then dispatch_sqs_metric (q_account q) (q_region q) (q_name q) ''NumberOfMessagesReceived'' (int n) ''Count''
      else dispatch_sqs_metric (q_account q) (q_region q) (q_name q) ''NumberOfEmptyReceives'' 1 ''Count'')"

definition if_cloudwatch :: "sqs_env \<Rightarrow> unit op \<Rightarrow> unit op" where
  "if_cloudwatch env m = (if env_cloudwatch_disabled env then ret () else m)"

subsection \<open>Queues\<close>

definition tag_queue_store :: "sqs_env \<Rightarrow> queue \<Rightarrow> (string, string) dict \<Rightarrow> unit op" where
  "tag_queue_store env q tags =
     bind_op (get_store_op env (q_account q) (q_region q)) (\<lambda>_.
       modify_op (update_store (q_account q) (q_region q) (\<lambda>st. st\<lparr>store_tags := tags_update (q_arn q) tags (store_tags st)\<rparr>)))"

definition remove_all_queue_tags :: "sqs_env \<Rightarrow> queue \<Rightarrow> unit op" where
  "remove_all_queue_tags env q =
     bind_op (get_store_op env (q_account q) (q_region q)) (\<lambda>_.
       modify_op (update_store (q_account q) (q_region q) (\<lambda>st. st\<lparr>store_tags := tags_delete_all (q_arn q) (store_tags st)\<rparr>)))"

definition new_queue ::
  "bool \<Rightarrow> time \<Rightarrow> string \<Rightarrow> string \<Rightarrow> string \<Rightarrow> (string, string) dict option \<Rightarrow> (string, string) dict option \<Rightarrow> queue result" where
  "new_queue fifo now name reg account attrs tags =
     (if fifo then map_sum id Fifo (fifo_queue_init now name reg account attrs tags)
      else map_sum id Std (standard_queue_init now name reg account attrs tags))"

definition check_existing_queue :: "(string, string) dict option \<Rightarrow> queue \<Rightarrow> unit result" where
  "check_existing_queue attrs q =
     (if \<not> truthy attrs then Inr ()
      else bind_result (q_validate_queue_attributes (the attrs) q) (\<lambda>_.
        case find (\<lambda>(k, v). dict_get (q_attributes q) k \<noteq> Some v) (the attrs) of
          None \<Rightarrow> Inr ()
        | Some (k, v) \<Rightarrow> Inl (ServiceException ''QueueNameExists''
            (''A queue already exists with the same name and a different value for attribute '' @ k) False)))"

definition create_queue ::
  "sqs_env \<Rightarrow> time \<Rightarrow> request_context \<Rightarrow> string \<Rightarrow> (string, string) dict option \<Rightarrow> (string, string) dict option \<Rightarrow> string op"
where
  "create_queue env now ctx name attributes0 tags =
     (let fifo = (truthy attributes0 \<and>
            py_lower (case dict_get (the attributes0) ''FifoQueue'' of Some v \<Rightarrow> v | None \<Rightarrow> ''false'') = ''true'');
          attrs = (if truthy attributes0 \<and> dict_get (the attributes0) ''Policy'' = Some ''''
                   then Some (dict_del ''Policy'' (the attributes0)) else attributes0);
          account = ctx_account_id ctx; reg = ctx_region ctx
      in bind_op (get_store_op env account reg) (\<lambda>st.
           case dict_get (store_queues st) name of
             Some q \<Rightarrow> bind_op (lift_op (check_existing_queue attrs q)) (\<lambda>_. ret (q_url (url_ctx env ctx) q))
           | None \<Rightarrow>
               (if env_delay_recently_deleted env \<and>
                   (case dict_get (store_deleted st) name of
                      Some t \<Rightarrow> t \<noteq> 0 \<and> t > now - RECENTLY_DELETED_TIMEOUT | None \<Rightarrow> False)
                then lift_op (Inl (ServiceException ''QueueDeletedRecently''
                       (''You must wait 60 seconds after deleting a queue before you can create '' @
                        ''another with the same name.'') False))
                else
                  bind_op (modify_op (update_store account reg (expire_deleted now))) (\<lambda>_.
                  bind_op (lift_op (new_queue fifo now name reg account attrs tags)) (\<lambda>q.
                  bind_op (if truthy tags then tag_queue_store env q (the tags) else ret ()) (\<lambda>_.
                  bind_op (modify_op (set_queue (account, reg, name) q)) (\<lambda>_.
                  ret (q_url (url_ctx env ctx) q))))))))"

definition get_queue_url :: "sqs_env \<Rightarrow> request_context \<Rightarrow> string \<Rightarrow> string option \<Rightarrow> string op" where
  "get_queue_url env ctx name owner =
     bind_op (require_queue env (if truthy owner then the owner else ctx_account_id ctx) (ctx_region ctx) name
       (ctx_is_query ctx)) (\<lambda>key.
     bind_op (read_queue key) (\<lambda>q. ret (q_url (url_ctx env ctx) q)))"

definition MAX_RESULT_LIMIT :: nat where
  "MAX_RESULT_LIMIT = 1000"

text \<open>The page size is a positive number; \<open>None\<close> in the result is the empty \<open>ListQueuesResult()\<close>.\<close>

definition list_queues ::
  "sqs_env \<Rightarrow> request_context \<Rightarrow> string option \<Rightarrow> string option \<Rightarrow> nat option \<Rightarrow> (string list \<times> string option) option op"
where
  "list_queues env ctx name_prefix next_token max_results =
     bind_op (get_store_op env (ctx_account_id ctx) (ctx_region ctx)) (\<lambda>st.
       let qs = map snd (store_queues st);
           urls = map (q_url (url_ctx env ctx))
             (if truthy name_prefix then filter (\<lambda>q. py_startswith (q_name q) (the name_prefix)) qs else qs);
           page_size = (case max_results of Some n \<Rightarrow> if n = 0 then MAX_RESULT_LIMIT else n | None \<Rightarrow> MAX_RESULT_LIMIT)
       in ret (if urls = [] then None else Some (get_page token_generator next_token (Some page_size) None urls)))"

definition delete_queue :: "sqs_env \<Rightarrow> time \<Rightarrow> request_context \<Rightarrow> string \<Rightarrow> unit op" where
  "delete_queue env now ctx url =
     bind_op (lift_op (parse_queue_url url)) (\<lambda>(account, reg0, name).
       let reg = (case reg0 of Some r \<Rightarrow> r | None \<Rightarrow> ctx_region ctx) in
       bind_op (get_store_op env account reg) (\<lambda>_.
       bind_op (resolve_queue env ctx url) (\<lambda>key.
       bind_op (read_queue key) (\<lambda>q.
       bind_op (on_queue (account, reg, q_name q) (\<lambda>q'. (Inr (), q_shutdown q'))) (\<lambda>_.
       bind_op (modify_op (update_store account reg (\<lambda>st.
         st\<lparr>store_queues := dict_del (q_name q) (store_queues st),
            store_deleted := dict_set (q_name q) now (store_deleted st)\<rparr>))) (\<lambda>_.
       remove_all_queue_tags env q))))))"

definition get_queue_attributes ::
  "sqs_env \<Rightarrow> request_context \<Rightarrow> string \<Rightarrow> string list option \<Rightarrow> (string, string) dict option op" where
  "get_queue_attributes env ctx url names =
     bind_op (resolve_queue env ctx url) (\<lambda>key.
     bind_op (read_queue key) (\<lambda>q.
     bind_op (lift_op (q_get_queue_attributes names q)) (\<lambda>result. ret (if result = [] then None else Some result))))"

definition purge_queue :: "sqs_env \<Rightarrow> time \<Rightarrow> request_context \<Rightarrow> string \<Rightarrow> unit op" where
  "purge_queue env now ctx url =
     bind_op (resolve_queue env ctx url) (\<lambda>key.
       on_queue key (\<lambda>q.
         if env_delay_purge_retry env \<and>
            (case q_purge_timestamp q of Some t \<Rightarrow> t \<noteq> 0 \<and> t + 60 > now | None \<Rightarrow> False)
         then (Inl (ServiceException ''PurgeQueueInProgress''
                 (''Only one PurgeQueue operation on '' @ q_name q @ '' is allowed every 60 seconds.'') False), q)
         else (Inr (), q_clear now q)))"

subsubsection \<open>Setting attributes\<close>

fun store_attributes ::
  "(string, string) dict \<Rightarrow> (string, string) dict \<Rightarrow> unit result \<times> (string, string) dict" where
  "store_attributes [] stored = (Inr (), stored)"
| "store_attributes ((k, v) # attrs) stored =
     (if k \<in> set INTERNAL_QUEUE_ATTRIBUTES then (Inl (InvalidAttributeName (''Unknown Attribute '' @ k @ ''.'')), stored)
      else if dict_get DELETE_IF_DEFAULT k = Some v then store_attributes attrs (dict_del k stored)
      else store_attributes attrs (dict_set k v stored))"

definition check_redrive_policy :: "string \<Rightarrow> unit result" where
  "check_redrive_policy doc =
     bind_result (json_loads doc) (\<lambda>policy.
     bind_result (json_get ''deadLetterTargetArn'' policy) (\<lambda>target.
     bind_result (json_get ''maxReceiveCount'' policy) (\<lambda>cnt.
     if \<not> (case target of Some j \<Rightarrow> json_truthy j | None \<Rightarrow> False)
     then Inl (InvalidParameterValueException (''The required parameter '' @ [CHR 39] @ ''deadLetterTargetArn'' @ [CHR 39] @
            '' is missing''))
     else case cnt of
            None \<Rightarrow> Inl (InvalidParameterValueException (''The required parameter '' @ [CHR 39] @ ''maxReceiveCount'' @
                      [CHR 39] @ '' is missing''))
          | Some JNull \<Rightarrow> Inl (InvalidParameterValueException (''The required parameter '' @ [CHR 39] @ ''maxReceiveCount'' @
                      [CHR 39] @ '' is missing''))
          | Some j \<Rightarrow>
              (let invalid = (\<lambda>shown. Inl (InvalidParameterValueException (''Value '' @ doc @
                     '' for parameter RedrivePolicy is invalid. Reason: Invalid value for maxReceiveCount: '' @ shown @
                     '', valid values are from 1 to 1000 both inclusive.'')))
               in case json_int j of
                    Inr n \<Rightarrow> if 1 \<le> n \<and> n \<le> 1000 then Inr () else invalid (str_of_int n)
                  | Inl e \<Rightarrow> (case j of JStr s \<Rightarrow> invalid s | _ \<Rightarrow> Inl e)))))"

definition queue_set_attributes :: "(string, string) dict \<Rightarrow> queue \<Rightarrow> unit result \<times> queue" where
  "queue_set_attributes attrs q =
     (case q_validate_queue_attributes attrs q of
        Inl e \<Rightarrow> (Inl e, q)
      | Inr _ \<Rightarrow>
          (case store_attributes attrs (q_attributes q) of
             (Inl e, stored) \<Rightarrow> (Inl e, q_set_attributes stored q)
           | (Inr _, stored0) \<Rightarrow>
               (let stored = (if dict_get stored0 ''Policy'' = Some '''' then dict_del ''Policy'' stored0 else stored0)
                in case dict_get stored ''RedrivePolicy'' of
                     None \<Rightarrow> (Inr (), q_set_attributes stored q)
                   | Some doc \<Rightarrow>
                       (if doc = '''' then (Inr (), q_set_attributes (dict_del ''RedrivePolicy'' stored) q)
                        else (check_redrive_policy doc, q_set_attributes stored q)))))"

definition set_queue_attributes :: "sqs_env \<Rightarrow> request_context \<Rightarrow> string \<Rightarrow> (string, string) dict \<Rightarrow> unit op" where
  "set_queue_attributes env ctx url attrs =
     bind_op (resolve_queue env ctx url) (\<lambda>key.
       if attrs = [] then ret () else on_queue key (queue_set_attributes attrs))"

subsection \<open>Sending\<close>

fun copy_system_attributes :: "attr_map \<Rightarrow> (string, string) dict \<Rightarrow> (string, string) dict result" where
  "copy_system_attributes [] result = Inr result"
| "copy_system_attributes ((attr, v) # rest) result =
     (case StringValue v of
        Some s \<Rightarrow> copy_system_attributes rest (dict_set attr s result)
      | None \<Rightarrow> Inl (KeyError ''StringValue''))"

definition create_message_attributes :: "time \<Rightarrow> request_context \<Rightarrow> attr_map option \<Rightarrow> (string, string) dict result" where
  "create_message_attributes now ctx system_attributes =
     (let result = [(''SenderId'', ctx_account_id ctx), (''SentTimestamp'', str_of_int \<lfloor>now * 1000\<rfloor>)] @
            (case ctx_trace_id ctx of Some t \<Rightarrow> [(''AWSTraceHeader'', t)] | None \<Rightarrow> [])
      in case system_attributes of None \<Rightarrow> Inr result | Some m \<Rightarrow> copy_system_attributes m result)"

definition check_put_message ::
  "queue \<Rightarrow> string \<Rightarrow> attr_map option \<Rightarrow> attr_map option \<Rightarrow> string option \<Rightarrow> string option \<Rightarrow> unit result" where
  "check_put_message q body attrs system_attrs dedup grp =
     bind_result (check_message_min_size body) (\<lambda>_.
     bind_result (q_int_attribute ''MaximumMessageSize'' q) (\<lambda>max_size.
     bind_result (check_message_max_size body attrs max_size) (\<lambda>_.
     bind_result (check_message_content body) (\<lambda>_.
     bind_result (check_attributes attrs) (\<lambda>_.
     bind_result (check_attributes system_attrs) (\<lambda>_.
     bind_result (check_fifo_id dedup ''MessageDeduplicationId'') (\<lambda>_.
     check_fifo_id grp ''MessageGroupId'')))))))"

definition put_message ::
  "sqs_env \<Rightarrow> time \<Rightarrow> queue_key \<Rightarrow> request_context \<Rightarrow> string \<Rightarrow> int option \<Rightarrow> attr_map option \<Rightarrow> attr_map option \<Rightarrow>
   string option \<Rightarrow> string option \<Rightarrow> sqs_message op"
where
  "put_message env now key ctx body delay attrs system_attrs dedup grp =
     bind_op (read_queue key) (\<lambda>q.
     bind_op (lift_op (check_put_message q body attrs system_attrs dedup grp)) (\<lambda>_.
     bind_op (long_uid env) (\<lambda>msg_id.
     bind_op (lift_op (create_message_attributes now ctx system_attrs)) (\<lambda>system.
     bind_op (lift_op (create_message_attribute_hash (ext_md5 (env_ext env)) attrs)) (\<lambda>attr_hash.
     bind_op (if_cloudwatch env (dispatch_metric_message_sent q (length body))) (\<lambda>_.
     bind_op (put_op env now key
       \<lparr>MessageId = msg_id, MD5OfBody = ext_md5 (env_ext env) body, Body = body, Attributes = Some system,
        MD5OfMessageAttributes = attr_hash, MessageAttributes = attrs, ReceiptHandle = None\<rparr> dedup grp delay) (\<lambda>r.
     bind_op (read_queue key) (\<lambda>q'. ret (q_obj q' r)))))))))"

record send_message_result =
  sent_message_id :: string
  sent_md5_of_body :: string
  sent_md5_of_attributes :: "string option"
  sent_sequence_number :: "string option"
  sent_md5_of_system_attributes :: "string option"

definition sent_result :: "sqs_message \<Rightarrow> string option \<Rightarrow> send_message_result" where
  "sent_result m system_hash =
     \<lparr>sent_message_id = message_id m, sent_md5_of_body = MD5OfBody (message m),
      sent_md5_of_attributes = MD5OfMessageAttributes (message m), sent_sequence_number = sequence_number m,
      sent_md5_of_system_attributes = system_hash\<rparr>"

definition send_message ::
  "sqs_env \<Rightarrow> time \<Rightarrow> request_context \<Rightarrow> string \<Rightarrow> string \<Rightarrow> int option \<Rightarrow> attr_map option \<Rightarrow> attr_map option \<Rightarrow>
   string option \<Rightarrow> string option \<Rightarrow> send_message_result op"
where
  "send_message env now ctx url body delay attrs system_attrs dedup grp =
     bind_op (resolve_queue env ctx url) (\<lambda>key.
     bind_op (put_message env now key ctx body delay attrs system_attrs dedup grp) (\<lambda>m.
     bind_op (lift_op (create_message_attribute_hash (ext_md5 (env_ext env)) system_attrs)) (\<lambda>h. ret (sent_result m h))))"

subsection \<open>Batches\<close>

record batch_error =
  error_id :: string
  error_sender_fault :: bool
  error_code :: string
  error_message :: string

definition batch_error_entry :: "string \<Rightarrow> exn \<Rightarrow> batch_error" where
  "batch_error_entry entry_id e =
     \<lparr>error_id = entry_id, error_sender_fault = False, error_code = exn_name e, error_message = exn_message e\<rparr>"

text \<open>\<open>send_message_batch\<close> reports the sender's fault of service exceptions.\<close>

definition send_error_entry :: "string \<Rightarrow> exn \<Rightarrow> batch_error" where
  "send_error_entry entry_id e =
     (case e of
        ServiceException c m fault \<Rightarrow>
          \<lparr>error_id = entry_id, error_sender_fault = fault, error_code = c, error_message = m\<rparr>
      | PyExn c m \<Rightarrow> \<lparr>error_id = entry_id, error_sender_fault = False, error_code = c, error_message = m\<rparr>)"

fun run_batch ::
  "('e \<Rightarrow> exn \<Rightarrow> batch_error) \<Rightarrow> ('e \<Rightarrow> 'r op) \<Rightarrow> 'e list \<Rightarrow> sqs_world \<Rightarrow> ('r list \<times> batch_error list) \<times> sqs_world"
where
  "run_batch err act [] w = (([], []), w)"
| "run_batch err act (e # es) w =
     (case act e w of
        (Inr r, w') \<Rightarrow> (case run_batch err act es w' of ((ok, failed), w'') \<Rightarrow> ((r # ok, failed), w''))
      | (Inl x, w') \<Rightarrow> (case run_batch err act es w' of ((ok, failed), w'') \<Rightarrow> ((ok, err e x # failed), w'')))"

definition batch_op ::
  "('e \<Rightarrow> exn \<Rightarrow> batch_error) \<Rightarrow> ('e \<Rightarrow> 'r op) \<Rightarrow> 'e list \<Rightarrow> ('r list \<times> batch_error list) op" where
  "batch_op err act es w = (case run_batch err act es w of (res, w') \<Rightarrow> (Inr res, w'))"

record send_entry =
  se_id :: string
  se_body :: string
  se_delay :: "int option"
  se_attributes :: "attr_map option"
  se_system_attributes :: "attr_map option"
  se_deduplication_id :: "string option"
  se_group_id :: "string option"

definition send_entry_item :: "send_entry \<Rightarrow> batch_item" where
  "send_entry_item e =
     \<lparr>item_id = se_id e, item_deduplication_id = se_deduplication_id e, item_group_id = se_group_id e\<rparr>"

text \<open>
  The batch entries hash \<open>message.get("message_system_attributes")\<close>, a key the message dict never has,
  so their \<open>MD5OfMessageSystemAttributes\<close> is always \<open>None\<close>.
\<close>

definition send_message_batch ::
  "sqs_env \<Rightarrow> time \<Rightarrow> request_context \<Rightarrow> string \<Rightarrow> send_entry list \<Rightarrow>
   ((string \<times> send_message_result) list option \<times> batch_error list option) op"
where
  "send_message_batch env now ctx url entries =
     bind_op (resolve_queue env ctx url) (\<lambda>key.
     bind_op (read_queue key) (\<lambda>q.
     bind_op (lift_op (assert_batch (env_unicode_word env) (q_is_fifo q) (q_dedup_required q) None
       (map send_entry_item entries))) (\<lambda>_.
     bind_op (lift_op (assert_valid_batch_size (map (\<lambda>e. (se_body e, se_attributes e)) entries)
       DEFAULT_MAXIMUM_MESSAGE_SIZE)) (\<lambda>_.
     bind_op (batch_op (\<lambda>e. send_error_entry (se_id e))
       (\<lambda>e. bind_op (put_message env now key ctx (se_body e) (se_delay e) (se_attributes e) (se_system_attributes e)
               (se_deduplication_id e) (se_group_id e)) (\<lambda>m. ret (se_id e, sent_result m None)))
       entries) (\<lambda>(ok, failed).
     ret (if ok = [] then None else Some ok, if failed = [] then None else Some failed))))))"

definition plain_item :: "string \<Rightarrow> batch_item" where
  "plain_item i = \<lparr>item_id = i, item_deduplication_id = None, item_group_id = None\<rparr>"

definition change_message_visibility :: "sqs_env \<Rightarrow> time \<Rightarrow> request_context \<Rightarrow> string \<Rightarrow> string \<Rightarrow> int \<Rightarrow> unit op" where
  "change_message_visibility env now ctx url handle timeout =
     bind_op (resolve_queue env ctx url) (\<lambda>key.
       on_queue key (q_update_visibility_timeout (env_ext env) now handle timeout))"

definition change_message_visibility_batch ::
  "sqs_env \<Rightarrow> time \<Rightarrow> request_context \<Rightarrow> string \<Rightarrow> (string \<times> string \<times> int) list \<Rightarrow> (string list \<times> batch_error list) op" where
  "change_message_visibility_batch env now ctx url entries =
     bind_op (resolve_queue env ctx url) (\<lambda>key.
     bind_op (lift_op (assert_batch (env_unicode_word env) False False None (map (\<lambda>(i, _). plain_item i) entries))) (\<lambda>_.
     batch_op (\<lambda>(i, _). batch_error_entry i)
       (\<lambda>(i, handle, timeout).
          bind_op (on_queue key (q_update_visibility_timeout (env_ext env) now handle timeout)) (\<lambda>_. ret i))
       entries))"

subsection \<open>Receiving\<close>

text \<open>\<open>headers.get(name, default=None, type=int)\<close>; a zero counts as not given.\<close>

definition header_int :: "string option \<Rightarrow> int option" where
  "header_int h =
     (case h of None \<Rightarrow> None
      | Some s \<Rightarrow> (case py_int s of Some i \<Rightarrow> if i = 0 then None else Some i | None \<Rightarrow> None))"

definition extract_message_count_from_headers :: "request_context \<Rightarrow> int option" where
  "extract_message_count_from_headers ctx = header_int (ctx_message_count ctx)"

definition extract_wait_time_seconds_from_headers :: "request_context \<Rightarrow> int option" where
  "extract_wait_time_seconds_from_headers ctx = header_int (ctx_wait_time ctx)"

definition effective_wait_time :: "request_context \<Rightarrow> int option \<Rightarrow> queue \<Rightarrow> (int \<times> bool) result" where
  "effective_wait_time ctx wait_time q =
     (case extract_wait_time_seconds_from_headers ctx of
        Some n \<Rightarrow> Inr (n, True)
      | None \<Rightarrow>
          (case wait_time of
             None \<Rightarrow> bind_result (q_int_attribute ''ReceiveMessageWaitTimeSeconds'' q) (\<lambda>n. Inr (n, False))
           | Some n \<Rightarrow>
               (if n < 0 \<or> n > 20
                then Inl (InvalidParameterValueException (''Value '' @ str_of_int n @
                       '' for parameter WaitTimeSeconds is invalid. Reason: Must be >= 0 and <= 20, if provided.''))
                else Inr (n, False))))"

definition effective_max_messages :: "sqs_env \<Rightarrow> request_context \<Rightarrow> int option \<Rightarrow> queue \<Rightarrow> int result" where
  "effective_max_messages env ctx max_number q =
     (let num = (case max_number of Some n \<Rightarrow> if n = 0 then 1 else n | None \<Rightarrow> 1) in
      case extract_message_count_from_headers ctx of
        Some n \<Rightarrow> Inr n
      | None \<Rightarrow>
          (if num = - 1 then Inr (int (q_approximate_number_of_messages q))
           else if (num < 1 \<or> num > MAX_NUMBER_OF_MESSAGES) \<and> \<not> env_disable_max_number_of_messages env
           then Inl (InvalidParameterValueException (''Value '' @ str_of_int num @
                  '' for parameter MaxNumberOfMessages is invalid. Reason: Must be between 1 and 10, if provided.''))
           else Inr num))"

definition add_source_arn :: "string \<Rightarrow> sqs_message \<Rightarrow> sqs_message" where
  "add_source_arn arn m =
     m\<lparr>message := (message m)\<lparr>Attributes := Some (dict_set ''DeadLetterQueueSourceArn'' arn (msg_attributes m))\<rparr>\<rparr>"

definition refresh_group :: "group_id \<Rightarrow> queue \<Rightarrow> queue" where
  "refresh_group g q =
     (case q of Std s \<Rightarrow> Std s | Fifo f \<Rightarrow> Fifo (update_message_group_visibility g (get_message_group g f)))"

fun move_dead_letters :: "sqs_env \<Rightarrow> time \<Rightarrow> queue_key \<Rightarrow> queue_key \<Rightarrow> ref list \<Rightarrow> unit op" where
  "move_dead_letters env now key dlq [] = ret ()"
| "move_dead_letters env now key dlq (r # rs) =
     bind_op (on_queue key (\<lambda>q. (Inr (), q_upd_obj r (add_source_arn (q_arn q)) q))) (\<lambda>_.
     bind_op (read_queue key) (\<lambda>q.
     let m = q_obj q r in
     bind_op (put_op env now dlq (message m) (message_deduplication_id m) (message_group_id m) None) (\<lambda>_.
     bind_op (on_queue key (\<lambda>q. (Inr (), refresh_group (message_group_id m) q))) (\<lambda>_.
     move_dead_letters env now key dlq rs))))"

fun json_text :: "json \<Rightarrow> string result" where
  "json_text (JStr s) = Inr s"
| "json_text _ = Inl (AttributeError ''split'')"

definition dead_letter_target :: "queue \<Rightarrow> string result" where
  "dead_letter_target q =
     bind_result (q_redrive_policy q) (\<lambda>policy.
       case policy of
         None \<Rightarrow> Inl (TypeError ''NoneType object is not subscriptable'')
       | Some j \<Rightarrow> bind_result (json_item j ''deadLetterTargetArn'') json_text)"

definition process_dead_letters :: "sqs_env \<Rightarrow> time \<Rightarrow> request_context \<Rightarrow> queue_key \<Rightarrow> ref list \<Rightarrow> unit op" where
  "process_dead_letters env now ctx key dead =
     (if dead = [] then ret ()
      else
        bind_op (read_queue key) (\<lambda>q.
        bind_op (lift_op (dead_letter_target q)) (\<lambda>target.
        bind_op (require_queue_by_arn env (ctx_is_query ctx) target) (\<lambda>dlq.
        move_dead_letters env now key dlq dead))))"

definition api_messages ::
  "(string \<Rightarrow> string) \<Rightarrow> string list option \<Rightarrow> string list option \<Rightarrow> queue \<Rightarrow> receive_message_result \<Rightarrow> api_message list result"
where
  "api_messages md5 system_names attr_names q res =
     map_result (\<lambda>(r, h). bind_result (to_sqs_api_message md5 system_names attr_names (q_obj q r)) (\<lambda>m.
       Inr (m\<lparr>ReceiptHandle := Some h\<rparr>))) (zip (successful res) (result_handles res))"

definition receive_message ::
  "sqs_env \<Rightarrow> time \<Rightarrow> request_context \<Rightarrow> string \<Rightarrow> string list option \<Rightarrow> string list option \<Rightarrow> string list option \<Rightarrow>
   int option \<Rightarrow> int option \<Rightarrow> int option \<Rightarrow> api_message list option op"
where
  "receive_message env now ctx url attribute_names system_names attr_names max_number timeout wait_time =
     bind_op (resolve_queue env ctx url) (\<lambda>key.
     bind_op (read_queue key) (\<lambda>q.
     bind_op (lift_op (effective_wait_time ctx wait_time q)) (\<lambda>(wait, poll).
     bind_op (lift_op (effective_max_messages env ctx max_number q)) (\<lambda>num.
     bind_op (receive_op env now key num (Some wait) timeout poll) (\<lambda>res.
     bind_op (process_dead_letters env now ctx key (dead_letter_messages res)) (\<lambda>_.
     bind_op (read_queue key) (\<lambda>q'.
     bind_op (lift_op (api_messages (ext_md5 (env_ext env)) (if truthy system_names then system_names else attribute_names)
       attr_names q' res)) (\<lambda>messages.
     bind_op (if_cloudwatch env (dispatch_metric_received q' (length messages))) (\<lambda>_.
     ret (if messages = [] then None else Some messages))))))))))"

subsection \<open>Deleting messages\<close>

definition delete_message :: "sqs_env \<Rightarrow> time \<Rightarrow> request_context \<Rightarrow> string \<Rightarrow> string \<Rightarrow> unit op" where
  "delete_message env now ctx url handle =
     bind_op (resolve_queue env ctx url) (\<lambda>key.
     bind_op (on_queue key (q_remove (env_ext env) now handle)) (\<lambda>_.
     bind_op (read_queue key) (\<lambda>q. if_cloudwatch env (dispatch_metric_message_deleted q 1))))"

definition delete_message_batch ::
  "sqs_env \<Rightarrow> time \<Rightarrow> request_context \<Rightarrow> string \<Rightarrow> (string \<times> string) list \<Rightarrow> (string list \<times> batch_error list) op" where
  "delete_message_batch env now ctx url entries =
     bind_op (resolve_queue env ctx url) (\<lambda>key.
     bind_op (lift_op (assert_batch (env_unicode_word env) False False (extract_message_count_from_headers ctx)
       (map (\<lambda>(i, _). plain_item i) entries))) (\<lambda>_.
     bind_op (lift_op (assert_valid_message_ids (env_unicode_word env) (map fst entries))) (\<lambda>_.
     bind_op (batch_op (\<lambda>(i, _). batch_error_entry i)
       (\<lambda>(i, handle). bind_op (on_queue key (q_remove (env_ext env) now handle)) (\<lambda>_. ret i)) entries) (\<lambda>(ok, failed).
     bind_op (read_queue key) (\<lambda>q.
     bind_op (if_cloudwatch env (dispatch_metric_message_deleted q (length ok))) (\<lambda>_. ret (ok, failed)))))))"

subsection \<open>Dead letter sources, tags and permissions\<close>

fun dead_letter_sources :: "string \<Rightarrow> queue list \<Rightarrow> queue list result" where
  "dead_letter_sources arn [] = Inr []"
| "dead_letter_sources arn (q # qs) =
     bind_result (q_redrive_policy q) (\<lambda>policy.
     bind_result (case policy of
         None \<Rightarrow> Inr False
       | Some j \<Rightarrow> if json_truthy j then bind_result (json_get ''deadLetterTargetArn'' j) (\<lambda>t. Inr (t = Some (JStr arn)))
                  else Inr False) (\<lambda>hit.
     bind_result (dead_letter_sources arn qs) (\<lambda>rest. Inr (if hit then q # rest else rest))))"

definition list_dead_letter_source_queues :: "sqs_env \<Rightarrow> request_context \<Rightarrow> string \<Rightarrow> string list op" where
  "list_dead_letter_source_queues env ctx url =
     bind_op (get_store_op env (ctx_account_id ctx) (ctx_region ctx)) (\<lambda>_.
     bind_op (resolve_queue env ctx url) (\<lambda>key.
     bind_op (read_queue key) (\<lambda>dlq.
     bind_op (get_store_op env (ctx_account_id ctx) (ctx_region ctx)) (\<lambda>st.
     bind_op (lift_op (dead_letter_sources (q_arn dlq) (map snd (store_queues st)))) (\<lambda>qs.
     ret (map (q_url (url_ctx env ctx)) qs))))))"

definition tag_queue :: "sqs_env \<Rightarrow> request_context \<Rightarrow> string \<Rightarrow> (string, string) dict \<Rightarrow> unit op" where
  "tag_queue env ctx url tags =
     (if tags = [] then ret ()
      else bind_op (resolve_queue env ctx url) (\<lambda>key. bind_op (read_queue key) (\<lambda>q. tag_queue_store env q tags)))"

definition list_queue_tags :: "sqs_env \<Rightarrow> request_context \<Rightarrow> string \<Rightarrow> (string, string) dict option op" where
  "list_queue_tags env ctx url =
     bind_op (resolve_queue env ctx url) (\<lambda>key.
     bind_op (read_queue key) (\<lambda>q.
     bind_op (get_store_op env (q_account q) (q_region q)) (\<lambda>st.
     let tags = tags_get (q_arn q) (store_tags st) in ret (if tags = [] then None else Some tags))))"

definition untag_queue :: "sqs_env \<Rightarrow> request_context \<Rightarrow> string \<Rightarrow> string list \<Rightarrow> unit op" where
  "untag_queue env ctx url keys =
     bind_op (resolve_queue env ctx url) (\<lambda>key.
     bind_op (read_queue key) (\<lambda>q.
     bind_op (get_store_op env (q_account q) (q_region q)) (\<lambda>_.
       modify_op (update_store (q_account q) (q_region q) (\<lambda>st. st\<lparr>store_tags := tags_delete (q_arn q) keys (store_tags st)\<rparr>)))))"

definition on_queue_result :: "queue_key \<Rightarrow> (queue \<Rightarrow> queue result) \<Rightarrow> unit op" where
  "on_queue_result key f = on_queue key (\<lambda>q. case f q of Inr q' \<Rightarrow> (Inr (), q') | Inl e \<Rightarrow> (Inl e, q))"

definition provider_add_permission ::
  "sqs_env \<Rightarrow> request_context \<Rightarrow> string \<Rightarrow> string \<Rightarrow> string list \<Rightarrow> string list \<Rightarrow> unit op" where
  "provider_add_permission env ctx url label accounts actions =
     bind_op (resolve_queue env ctx url) (\<lambda>key.
     bind_op (lift_op (validate_actions (env_operation_names env) actions)) (\<lambda>_.
     on_queue_result key (q_add_permission (env_ext env) label actions accounts)))"

definition provider_remove_permission :: "sqs_env \<Rightarrow> request_context \<Rightarrow> string \<Rightarrow> string \<Rightarrow> unit op" where
  "provider_remove_permission env ctx url label =
     bind_op (resolve_queue env ctx url) (\<lambda>key. on_queue_result key (q_remove_permission (env_ext env) label))"

end
