(* ===== verification/SqsMove.thy ===== *)
theory SqsMove
  imports SqsProvider
begin

text \<open>
  \<open>services/sqs/provider.py\<close>: the operations on message move tasks and \<open>MessageMoveTaskManager\<close>. A task is
  an object kept in the store of the account and region that started it, and the manager refers to it
  by that place. The thread of a task is the sequence of its loop iterations; other requests
  run between them.
\<close>

subsection \<open>Task objects\<close>

type_synonym task_key = "string \<times> string \<times> string"

definition find_task :: "task_key \<Rightarrow> sqs_world \<Rightarrow> message_move_task option" where
  "find_task key w =
     (case key of (account, reg, tid) \<Rightarrow>
        (case find_store account reg (stores w) of None \<Rightarrow> None | Some st \<Rightarrow> dict_get (store_move_tasks st) tid))"

definition set_task :: "task_key \<Rightarrow> message_move_task \<Rightarrow> sqs_world \<Rightarrow> sqs_world" where
  "set_task key t w =
     (case key of (account, reg, tid) \<Rightarrow>
        update_store account reg (\<lambda>st. st\<lparr>store_move_tasks := dict_set tid t (store_move_tasks st)\<rparr>) w)"

definition update_task :: "task_key \<Rightarrow> (message_move_task \<Rightarrow> message_move_task) \<Rightarrow> sqs_world \<Rightarrow> sqs_world" where
  "update_task key f w = (case find_task key w of None \<Rightarrow> w | Some t \<Rightarrow> set_task key (f t) w)"

definition fail_task :: "exn \<Rightarrow> message_move_task \<Rightarrow> message_move_task" where
  "fail_task reason t = t\<lparr>status := FAILED, failure_reason := Some (exn_name reason)\<rparr>"

subsection \<open>The manager\<close>

definition get_queue_by_arn :: "sqs_env \<Rightarrow> string \<Rightarrow> queue_key op" where
  "get_queue_by_arn env arn =
     bind_op (lift_op (ext_parse_arn (env_ext env) arn)) (\<lambda>d.
       require_queue env (arn_account d) (arn_region d) (arn_resource d) False)"

definition start_task :: "time \<Rightarrow> nat \<Rightarrow> message_move_task \<Rightarrow> message_move_task" where
  "start_task now n t =
     mark_started now (t\<lparr>approximate_number_of_messages_to_move := Some (int n),
                         approximate_number_of_messages_moved := Some 0\<rparr>)"

definition submit :: "sqs_env \<Rightarrow> time \<Rightarrow> task_key \<Rightarrow> unit op" where
  "submit env now key w =
     (case find_task key w of
        None \<Rightarrow> (Inl (KeyError (snd (snd key))), w)
      | Some t \<Rightarrow>
          (case bind_op (get_queue_by_arn env (source_arn t)) read_queue w of
             (Inl e, w') \<Rightarrow> (Inl e, update_task key (fail_task e) w')
           | (Inr q, w') \<Rightarrow>
               (Inr (), (update_task key (start_task now (q_approximate_number_of_messages q)) w')
                  \<lparr>manager_tasks := dict_set (snd (snd key)) (fst key, fst (snd key)) (manager_tasks w')\<rparr>)))"

definition cancel_task :: "message_move_task \<Rightarrow> message_move_task" where
  "cancel_task t = t\<lparr>status := CANCELLING, cancel_event := True\<rparr>"

definition close_manager :: "sqs_world \<Rightarrow> sqs_world" where
  "close_manager w =
     fold (\<lambda>(tid, account, reg). update_task (account, reg, tid) (\<lambda>t. t\<lparr>cancel_event := True\<rparr>)) (manager_tasks w) w"

subsubsection \<open>The thread of a task\<close>

text \<open>
  One iteration of the loop of \<open>_run\<close> after the cancel event was found unset; \<open>False\<close> means that the
  source queue is empty. The pause of a rate limit only lets time pass.
\<close>

definition move_one :: "sqs_env \<Rightarrow> time \<Rightarrow> message_move_task \<Rightarrow> task_key \<Rightarrow> bool op" where
  "move_one env now t key =
     bind_op (get_queue_by_arn env (source_arn t)) (\<lambda>src.
     bind_op (receive_op env now src 1 None (Some 1) False) (\<lambda>res.
     if dead_letter_messages res \<noteq> []
     then lift_op (Inl (PyExn ''NotImplementedError'' ''Cannot deal with DLQ chains in move tasks''))
     else if successful res = [] then ret False
     else
       bind_op (read_queue src) (\<lambda>q.
       let m = q_obj q (hd (successful res)) in
       bind_op (case (if truthy (destination_arn t) then destination_arn t else dead_letter_queue_source_arn m) of
                  Some arn \<Rightarrow> get_queue_by_arn env arn
                | None \<Rightarrow> lift_op (Inl (AttributeError ''split''))) (\<lambda>dst.
       bind_op (put_op env now dst (message m) (message_deduplication_id m) (message_group_id m) None) (\<lambda>_.
       bind_op (on_queue src (q_remove (env_ext env) now (hd (result_handles res)))) (\<lambda>_.
       bind_op (modify_op (update_task key (\<lambda>t. t\<lparr>approximate_number_of_messages_moved :=
         map_option (\<lambda>n. n + 1) (approximate_number_of_messages_moved t)\<rparr>))) (\<lambda>_.
       ret True)))))))"

definition finish_task :: "message_move_task \<Rightarrow> message_move_task" where
  "finish_task t = t\<lparr>status := (if cancel_event t then CANCELLED else COMPLETED)\<rparr>"

text \<open>One pass through the loop, from the test of the cancel event; \<open>True\<close> means that the loop goes on.\<close>

definition move_step :: "sqs_env \<Rightarrow> time \<Rightarrow> task_key \<Rightarrow> sqs_world \<Rightarrow> bool \<times> sqs_world" where
  "move_step env now key w =
     (case find_task key w of
        None \<Rightarrow> (False, w)
      | Some t \<Rightarrow>
          (if cancel_event t then (False, update_task key finish_task w)
           else case move_one env now t key w of
                  (Inl e, w') \<Rightarrow> (False, update_task key (fail_task e) w')
                | (Inr True, w') \<Rightarrow> (True, w')
                | (Inr False, w') \<Rightarrow> (False, update_task key finish_task w')))"

text \<open>
  The thread run without interference, with one clock reading for each iteration. A task whose
  destination is its source never ends, hence the bound on the iterations.
\<close>

fun move_run :: "nat \<Rightarrow> sqs_env \<Rightarrow> (nat \<Rightarrow> time) \<Rightarrow> task_key \<Rightarrow> sqs_world \<Rightarrow> sqs_world option" where
  "move_run 0 env clock key w = None"
| "move_run (Suc fuel) env clock key w =
     (case move_step env (clock 0) key w of
        (False, w') \<Rightarrow> Some w'
      | (True, w') \<Rightarrow> move_run fuel env (\<lambda>i. clock (Suc i)) key w')"

subsection \<open>Operations\<close>

definition resource_not_found :: "string \<Rightarrow> exn" where
  "resource_not_found msg = ServiceException ''ResourceNotFoundException'' msg False"

definition queue_to_resource :: "string \<Rightarrow> exn \<Rightarrow> exn" where
  "queue_to_resource param e =
     (if exn_name e = ''QueueDoesNotExist''
      then resource_not_found (''The resource that you specified for the '' @ param @ '' parameter doesn'' @ [CHR 39] @ ''t exist.'')
      else e)"

fun is_dead_letter_queue :: "string \<Rightarrow> queue list \<Rightarrow> bool result" where
  "is_dead_letter_queue arn [] = Inr False"
| "is_dead_letter_queue arn (q # qs) =
     bind_result (q_redrive_policy q) (\<lambda>policy.
     bind_result (case policy of
         None \<Rightarrow> Inr False
       | Some j \<Rightarrow> if json_truthy j then bind_result (json_get ''deadLetterTargetArn'' j) (\<lambda>t. Inr (t = Some (JStr arn)))
                  else Inr False) (\<lambda>hit.
     if hit then Inr True else is_dead_letter_queue arn qs))"

definition all_queues :: "sqs_world \<Rightarrow> queue list" where
  "all_queues w = concat (map (\<lambda>(account, reg, st). map snd (store_queues st)) (iter_stores (stores w)))"

definition task_active :: "message_move_task \<Rightarrow> bool" where
  "task_active t \<longleftrightarrow> status t \<in> {CREATED, RUNNING, CANCELLING}"

definition start_message_move_task ::
  "sqs_env \<Rightarrow> time \<Rightarrow> request_context \<Rightarrow> string \<Rightarrow> string option \<Rightarrow> int option \<Rightarrow> string op" where
  "start_message_move_task env now ctx source destination rate =
     bind_op (rethrow (require_queue_by_arn env (ctx_is_query ctx) source) (queue_to_resource ''SourceArn'')) (\<lambda>_.
     bind_op (read_op all_queues) (\<lambda>qs.
     bind_op (lift_op (is_dead_letter_queue source qs)) (\<lambda>is_dlq.
     if \<not> is_dlq
     then lift_op (Inl (InvalidParameterValueException ''Source queue must be configured as a Dead Letter Queue.''))
     else
       bind_op (if truthy destination
                then bind_op (rethrow (require_queue_by_arn env (ctx_is_query ctx) (the destination))
                       (queue_to_resource ''DestinationArn'')) (\<lambda>_. ret ())
                else ret ()) (\<lambda>_.
       bind_op (get_store_op env (ctx_account_id ctx) (ctx_region ctx)) (\<lambda>st.
       if list_ex (\<lambda>(tid, t). source_arn t = source \<and> task_active t) (store_move_tasks st)
       then lift_op (Inl (InvalidParameterValueException (''There is already a task running. Only one active task '' @
              ''is allowed for a source queue arn at a given time.'')))
       else
         bind_op (long_uid env) (\<lambda>tid.
         let t = move_task_init tid source destination rate; key = (ctx_account_id ctx, ctx_region ctx, tid) in
         bind_op (modify_op (set_task key t)) (\<lambda>_.
         bind_op (submit env now key) (\<lambda>_.
         ret (task_handle t)))))))))"

definition task_of_handle :: "json \<Rightarrow> sqs_store \<Rightarrow> string result" where
  "task_of_handle tid st =
     (case tid of
        JStr s \<Rightarrow> if dict_has (store_move_tasks st) s then Inr s else Inl (resource_not_found ''Task does not exist.'')
      | JArr _ \<Rightarrow> Inl (TypeError ''unhashable type'')
      | JObj _ \<Rightarrow> Inl (TypeError ''unhashable type'')
      | _ \<Rightarrow> Inl (resource_not_found ''Task does not exist.''))"

definition cancel_message_move_task :: "sqs_env \<Rightarrow> request_context \<Rightarrow> string \<Rightarrow> int option op" where
  "cancel_message_move_task env ctx handle =
     bind_op (rethrow (lift_op (decode_move_task_handle handle)) (\<lambda>e.
       if exn_name e = ''ValueError'' then InvalidParameterValueException ''Value for parameter TaskHandle is invalid.''
       else e)) (\<lambda>(tid, source).
     bind_op (rethrow (bind_op (lift_op (json_text source)) (require_queue_by_arn env (ctx_is_query ctx)))
       (queue_to_resource ''SourceArn'')) (\<lambda>_.
     bind_op (get_store_op env (ctx_account_id ctx) (ctx_region ctx)) (\<lambda>st.
     bind_op (lift_op (task_of_handle tid st)) (\<lambda>s.
     let key = (ctx_account_id ctx, ctx_region ctx, s) in
     bind_op (modify_op (update_task key cancel_task)) (\<lambda>_.
     bind_op (read_op (find_task key)) (\<lambda>t.
     ret (case t of Some t \<Rightarrow> approximate_number_of_messages_moved t | None \<Rightarrow> None)))))))"

subsubsection \<open>Listing\<close>

record move_task_entry =
  entry_task_handle :: "string option"
  entry_status :: move_task_status
  entry_source_arn :: string
  entry_destination_arn :: "string option"
  entry_rate :: "int option"
  entry_moved :: "int option"
  entry_to_move :: "int option"
  entry_failure_reason :: "string option"
  entry_started :: "int option"

definition to_message_move_task_entry :: "message_move_task \<Rightarrow> move_task_entry" where
  "to_message_move_task_entry t =
     \<lparr>entry_task_handle = (if status t = RUNNING then Some (task_handle t) else None), entry_status = status t,
      entry_source_arn = source_arn t, entry_destination_arn = destination_arn t,
      entry_rate = max_number_of_messages_per_second t, entry_moved = approximate_number_of_messages_moved t,
      entry_to_move = approximate_number_of_messages_to_move t, entry_failure_reason = failure_reason t,
      entry_started = map_option (\<lambda>ts. \<lfloor>ts * 1000\<rfloor>) (started_timestamp t)\<rparr>"

text \<open>Python's \<open>xs[:n]\<close>.\<close>

definition py_take :: "int \<Rightarrow> 'a list \<Rightarrow> 'a list" where
  "py_take n xs = (if n \<ge> 0 then take (nat n) xs else take (length xs - nat (- n)) xs)"

text \<open>The stable descending sort by start time; comparing \<open>None\<close> is a \<open>TypeError\<close>.\<close>

definition sort_recent :: "message_move_task list \<Rightarrow> message_move_task list result" where
  "sort_recent ts =
     (if length ts \<ge> 2 \<and> list_ex (\<lambda>t. started_timestamp t = None) ts
      then Inl (TypeError ''not supported between instances of NoneType and datetime'')
      else Inr (sort_key (\<lambda>t. - (case started_timestamp t of Some s \<Rightarrow> s | None \<Rightarrow> 0)) ts))"

definition list_message_move_tasks ::
  "sqs_env \<Rightarrow> request_context \<Rightarrow> string \<Rightarrow> int option \<Rightarrow> move_task_entry list op" where
  "list_message_move_tasks env ctx source max_results =
     bind_op (rethrow (lift_op (ext_parse_arn (env_ext env) source)) (\<lambda>_.
       InvalidParameterValueException (''You must use this format to specify the SourceArn: '' @
         ''arn:<partition>:<service>:<region>:<account-id>:<resource-id>''))) (\<lambda>_.
     bind_op (rethrow (require_queue_by_arn env (ctx_is_query ctx) source) (queue_to_resource ''SourceArn'')) (\<lambda>_.
     bind_op (get_store_op env (ctx_account_id ctx) (ctx_region ctx)) (\<lambda>st.
     bind_op (lift_op (sort_recent
       (filter (\<lambda>t. source_arn t = source \<and> status t \<noteq> CREATED) (map snd (store_move_tasks st))))) (\<lambda>tasks.
     ret (map to_message_move_task_entry
       (py_take (case max_results of Some n \<Rightarrow> if n = 0 then 1 else n | None \<Rightarrow> 1) tasks))))))"

end
