(* ===== verification/SqsWorkers.thy ===== *)
theory SqsWorkers
  imports SqsMove
begin

text \<open>
  \<open>services/sqs/provider.py\<close>: the work the background threads do (\<open>QueueUpdateWorker\<close> and
  \<open>CloudwatchPublishWorker\<close>) and the shutdown of the service. Starting and stopping the threads is not modelled.
\<close>

subsection \<open>Updating the queues\<close>

text \<open>One queue's share of \<open>do_update_all_queues\<close>; exceptions are logged and dropped.\<close>

definition update_queue :: "sqs_env \<Rightarrow> time \<Rightarrow> queue \<Rightarrow> queue" where
  "update_queue env now q =
     (let q1 = q_enqueue_delayed_messages now (q_requeue_inflight_messages now q)
      in if env_enable_retention_period env then snd (q_remove_expired_messages now q1) else q1)"

definition map_queues :: "(queue \<Rightarrow> queue) \<Rightarrow> sqs_store \<Rightarrow> sqs_store" where
  "map_queues f st = st\<lparr>store_queues := map (\<lambda>(k, q). (k, f q)) (store_queues st)\<rparr>"

definition map_stores :: "('l \<Rightarrow> 'l) \<Rightarrow> ('l, 'g, 'u) account_region_bundle \<Rightarrow> ('l, 'g, 'u) account_region_bundle" where
  "map_stores f b =
     b\<lparr>arb_bundles := map (\<lambda>(a, rb). (a, rb\<lparr>rb_stores := map (\<lambda>(r, st). (r, f st)) (rb_stores rb)\<rparr>)) (arb_bundles b)\<rparr>"

definition do_update_all_queues :: "sqs_env \<Rightarrow> time \<Rightarrow> sqs_world \<Rightarrow> sqs_world" where
  "do_update_all_queues env now w = w\<lparr>stores := map_stores (map_queues (update_queue env now)) (stores w)\<rparr>"

subsection \<open>Publishing metrics\<close>

type_synonym metric_batch = "string \<times> string \<times> (string \<times> string \<times> nat) list"

definition approximate_metrics :: "queue \<Rightarrow> (string \<times> string \<times> nat) list" where
  "approximate_metrics q =
     [(q_name q, ''ApproximateNumberOfMessagesVisible'', q_approximate_number_of_messages q),
      (q_name q, ''ApproximateNumberOfMessagesNotVisible'', q_not_visible q),
      (q_name q, ''ApproximateNumberOfMessagesDelayed'', q_delayed q)]"

definition metric_batch_size :: nat where
  "metric_batch_size = 300"

definition publish_approximate_cloudwatch_metrics :: "sqs_world \<Rightarrow> metric_batch list" where
  "publish_approximate_cloudwatch_metrics w =
     concat (map (\<lambda>(account, reg, st).
         map (\<lambda>qs. (account, reg, concat (map approximate_metrics qs)))
           (iter_chunks_from (length (store_queues st)) 0 metric_batch_size (map snd (store_queues st))))
       (iter_stores (stores w)))"

subsection \<open>Shutdown\<close>

definition on_before_stop :: "sqs_env \<Rightarrow> sqs_world \<Rightarrow> sqs_world" where
  "on_before_stop env w =
     (let w1 = close_manager w;
          w2 = w1\<lparr>stores := map_stores (map_queues q_shutdown) (stores w1)\<rparr>
      in if env_cloudwatch_disabled env then w2 else w2\<lparr>dispatcher_running := False\<rparr>)"

end
