(* ===== verification/SqsIdent.thy ===== *)
theory SqsIdent
  imports SqsWorkers
begin

text \<open>
  No operation of a queue changes the account, region or name of the queue, and a receive does not change its
  attributes either. The operations of the base class are treated once, for every subclass whose own methods keep them.
\<close>

named_theorems ident \<open>the identity of a queue is kept\<close>

definition qid :: "'a sqs_queue_scheme \<Rightarrow> string \<times> string \<times> string" where
  "qid q = (account_id q, region q, queue_name q)"

definition q_id :: "queue \<Rightarrow> string \<times> string \<times> string" where
  "q_id q = (q_account q, q_region q, q_name q)"

lemma q_id_simps [simp]: "q_id (Std s) = qid s" "q_id (Fifo f) = qid f"
  by (simp_all add: q_id_def qid_def q_account_def q_region_def q_name_def)

lemma qid_updates [ident, simp]:
  "qid (q\<lparr>inflight := a\<rparr>) = qid q" "qid (q\<lparr>delayed := b\<rparr>) = qid q" "qid (q\<lparr>receipts := c\<rparr>) = qid q"
  "qid (q\<lparr>attributes := d\<rparr>) = qid q" "qid (q\<lparr>objs := e\<rparr>) = qid q" "qid (q\<lparr>next_ref := f\<rparr>) = qid q"
  "qid (q\<lparr>purge_timestamp := g\<rparr>) = qid q" "qid (q\<lparr>is_shutdown := h\<rparr>) = qid q"
  by (simp_all add: qid_def)

lemma qid_visible [ident, simp]: "qid (s\<lparr>visible := v\<rparr>) = qid s"
  by (simp add: qid_def)

lemma qid_fifo_updates [ident, simp]:
  "qid (f\<lparr>deduplication := a\<rparr>) = qid f" "qid (f\<lparr>message_groups := b\<rparr>) = qid f"
  "qid (f\<lparr>inflight_groups := c\<rparr>) = qid f" "qid (f\<lparr>message_group_queue := d\<rparr>) = qid f"
  "qid (f\<lparr>deduplication_scope := e\<rparr>) = qid f"
  by (simp_all add: qid_def)

lemma qid_base [ident, simp]:
  "qid (upd_obj r g q) = qid q" "qid (snd (new_obj m q)) = qid q" "qid (add_inflight_message r q) = qid q"
  "qid (add_delayed_message r q) = qid q" "qid (clear_base q) = qid q" "qid (queue_shutdown q) = qid q"
  "qid (snd (hand_out ext uid r q)) = qid q"
  by (simp_all add: upd_obj_def new_obj_def add_inflight_message_def add_delayed_message_def clear_base_def
      queue_shutdown_def hand_out_def Let_def)

text \<open>The identity together with the attributes, which a receive keeps as well.\<close>

definition qfix :: "'a sqs_queue_scheme \<Rightarrow> (string \<times> string \<times> string) \<times> (string, string) dict" where
  "qfix q = (qid q, attributes q)"

lemma qfixD: "qfix q = qfix q' \<Longrightarrow> qid q = qid q' \<and> attributes q = attributes q'"
  by (simp add: qfix_def)

lemma qfix_updates [simp]:
  "qfix (q\<lparr>inflight := a\<rparr>) = qfix q" "qfix (q\<lparr>receipts := c\<rparr>) = qfix q" "qfix (q\<lparr>objs := e\<rparr>) = qfix q"
  "qfix (upd_obj r g q) = qfix q" "qfix (add_inflight_message r q) = qfix q" "qfix (snd (hand_out ext uid r q)) = qfix q"
  by (simp_all add: qfix_def upd_obj_def add_inflight_message_def hand_out_def Let_def)

lemma qfix_container_updates [simp]:
  "qfix (s\<lparr>visible := v\<rparr>) = qfix s" "qfix (f\<lparr>message_groups := b\<rparr>) = qfix f" "qfix (f\<lparr>inflight_groups := c\<rparr>) = qfix f"
  "qfix (f\<lparr>message_group_queue := d\<rparr>) = qfix f"
  by (simp_all add: qfix_def)

text \<open>The base class over a subclass whose \<open>_put_message\<close> and \<open>_on_remove_message\<close> keep the identity.\<close>

locale keeps_identity =
  fixes put_message :: "ref \<Rightarrow> 'a sqs_queue_scheme \<Rightarrow> 'a sqs_queue_scheme"
    and on_remove :: "ref \<Rightarrow> 'a sqs_queue_scheme \<Rightarrow> 'a sqs_queue_scheme"
  assumes put_fix: "qfix (put_message r q) = qfix q"
    and remove_ident: "qid (on_remove r q) = qid q"
begin

lemma put_ident: "qid (put_message r q) = qid q"
  using qfixD [OF put_fix] by blast

lemma hand_out_all_fix: "qfix (snd (hand_out_all put_message ext fresh rs q)) = qfix q"
proof (induction rs arbitrary: q fresh)
  case (Cons r rs)
  then show ?case
    by (simp add: Let_def split_beta put_fix)
qed simp

lemma fold_ident: "(\<And>r q. qid (f r q) = qid q) \<Longrightarrow> qid (fold f rs q) = qid q"
  by (induction rs arbitrary: q) simp_all

lemma requeue_ident: "qid (requeue_inflight_messages put_message now q) = qid q"
  unfolding requeue_inflight_messages_def by (rule fold_ident) (simp add: put_ident)

lemma enqueue_ident: "qid (enqueue_delayed_messages put_message now q) = qid q"
  unfolding enqueue_delayed_messages_def by (rule fold_ident) (simp add: put_ident)

lemma update_visibility_ident: "qid (snd (queue_update_visibility_timeout put_message ext now h v q)) = qid q"
  by (simp add: queue_update_visibility_timeout_def Let_def put_ident split: sum.split option.split)

lemma queue_remove_ident: "qid (snd (queue_remove pre on_remove ext h q)) = qid q"
  by (simp add: queue_remove_def Let_def split_beta remove_ident split: sum.split option.split)

end

subsection \<open>Standard queues\<close>

lemma standard_put_message_fix: "qfix (standard_put_message r q) = qfix q"
  by (simp add: standard_put_message_def)

lemma standard_put_message_ident [ident]: "qid (standard_put_message r q) = qid q"
  using qfixD [OF standard_put_message_fix] by blast

lemma standard_on_remove_ident [ident]: "qid (standard_on_remove_message r q) = qid q"
  by (simp add: standard_on_remove_message_def)

interpretation std_ident: keeps_identity standard_put_message standard_on_remove_message
  by unfold_locales (simp_all add: ident standard_put_message_fix)

lemma standard_collect_fix:
  "standard_collect now v limit num poll block wait q ok dead = (res, q') \<Longrightarrow> qfix q' = qfix q"
proof (induction "length (visible q)" arbitrary: q ok dead block wait rule: less_induct)
  case less
  note out = less.prems [unfolded standard_collect.simps [of now v limit num poll block wait q ok dead]]
  show ?case
  proof (cases "interruptible_get (heappop (msg_priority q)) (is_shutdown q) block wait (visible q)")
    case (Inl e)
    then show ?thesis using out by simp
  next
    case (Inr x)
    show ?thesis
    proof (cases x)
      case None
      then show ?thesis using out Inr by simp
    next
      case (Some rv)
      obtain r rest where x: "x = Some (r, rest)" using Some by (cases rv) simp
      have len: "length rest < length (visible q)"
        using Inr x by (auto simp: interruptible_get_def split: if_splits dest: heappop_length)
      have IH: "standard_collect now v limit num poll b' w' q2 ok' dead' = (res, q') \<Longrightarrow>
          visible q2 = rest \<Longrightarrow> qfix q2 = qfix q \<Longrightarrow> qfix q' = qfix q" for q2 ok' dead' b' w'
        using less.hyps [of q2 b' w' ok' dead'] len by simp
      let ?q1 = "q\<lparr>visible := rest\<rparr>"
      let ?q2 = "upd_obj r (mark_received now v) ?q1"
      have vis: "visible (upd_obj r f (upd_obj r g ?q1)) = rest" "visible (upd_obj r g ?q1) = rest" for f g
        by (simp_all add: upd_obj_def)
      show ?thesis
      proof (cases "deleted (obj ?q1 r)")
        case True
        then show ?thesis using out IH Inr x by simp
      next
        case nd: False
        show ?thesis
        proof (cases "exceeds_max_receive_count limit (obj ?q2 r)")
          case True
          then show ?thesis using out nd IH [of _ _ ?q2] Inr x vis by (simp add: Let_def)
        next
          case False
          show ?thesis
          proof (cases "increment_approximate_receive_count (obj ?q2 r)")
            case (Inl e)
            then show ?thesis using out nd False Inr x by (auto simp: Let_def)
          next
            case inc: (Inr m)
            show ?thesis
              using out nd False inc IH [of _ _ "upd_obj r (\<lambda>_. m) ?q2"] Inr x vis
              by (simp add: Let_def split: if_splits) auto
          qed
        qed
      qed
    qed
  qed
qed

lemma standard_receive_fix: "qfix (snd (standard_receive ext fresh now num wait_time timeout poll q)) = qfix q"
  unfolding standard_receive_def Let_def
  by (simp add: split_beta standard_collect_fix [OF prod.collapse [symmetric]] std_ident.hand_out_all_fix split: sum.split)

lemma standard_ops_ident [ident]:
  "qid (snd (standard_put now later msg timeout dedup grp delay q)) = qid q"
  "qid (snd (standard_receive ext fresh now num wait_time timeout poll q)) = qid q"
  "qid (snd (standard_remove ext h q)) = qid q"
  "qid (snd (standard_update_visibility_timeout ext now h v q)) = qid q"
  "qid (standard_requeue_inflight_messages now q) = qid q" "qid (standard_enqueue_delayed_messages now q) = qid q"
  "qid (snd (standard_remove_expired_messages now q)) = qid q" "qid (standard_clear q) = qid q"
proof -
  show "qid (snd (standard_put now later msg timeout dedup grp delay q)) = qid q"
    by (simp add: standard_put_def Let_def split_beta standard_put_message_ident split: sum.split option.split)
  show "qid (snd (standard_receive ext fresh now num wait_time timeout poll q)) = qid q"
    using qfixD [OF standard_receive_fix] by blast
qed (simp_all add: standard_remove_def standard_update_visibility_timeout_def standard_requeue_inflight_messages_def
    standard_enqueue_delayed_messages_def standard_remove_expired_messages_def standard_clear_def
    std_ident.queue_remove_ident std_ident.update_visibility_ident std_ident.requeue_ident std_ident.enqueue_ident
    split: sum.split)

subsection \<open>FIFO queues\<close>

lemma fifo_helpers_ident [ident, simp]:
  "qid (get_message_group g q) = qid q" "qid (group_push g r q) = qid q" "qid (update_message_group_visibility g q) = qid q"
  by (simp_all add: get_message_group_def group_push_def update_message_group_visibility_def Let_def)

lemma fifo_put_message_fix: "qfix (fifo_put_message r q) = qfix q"
  by (simp add: fifo_put_message_def get_message_group_def group_push_def Let_def)

lemma fifo_put_message_ident [ident]: "qid (fifo_put_message r q) = qid q"
  using qfixD [OF fifo_put_message_fix] by blast

lemma fifo_on_remove_ident [ident]: "qid (fifo_on_remove_message r q) = qid q"
  by (simp add: fifo_on_remove_message_def Let_def)

interpretation fifo_ident: keeps_identity fifo_put_message fifo_on_remove_message
  by unfold_locales (simp_all add: ident fifo_put_message_fix)

lemma group_pop_fix: "group_pop g q = Some (r, q') \<Longrightarrow> qfix q' = qfix q"
  by (auto simp: group_pop_def split: option.splits)

lemma fifo_collect_group_fix:
  "fifo_collect_group now v limit num g q ok dead = (res, q') \<Longrightarrow> qfix q' = qfix q"
proof (induction "length (group_messages q g)" arbitrary: q ok dead rule: less_induct)
  case less
  note out = less.prems [unfolded fifo_collect_group.simps [of now v limit num g q ok dead]]
  show ?case
  proof (cases "group_pop g q")
    case None
    then show ?thesis using out by simp
  next
    case (Some rq)
    obtain r q1 where p: "group_pop g q = Some (r, q1)" using Some by (cases rq) simp
    note len = group_pop_length [OF p] and q1 = group_pop_fix [OF p]
    let ?q2 = "upd_obj r (mark_received now v) q1"
    have IH: "fifo_collect_group now v limit num g q2 ok' dead' = (res, q') \<Longrightarrow>
        length (group_messages q2 g) = length (group_messages q1 g) \<Longrightarrow> qfix q2 = qfix q \<Longrightarrow> qfix q' = qfix q" for q2 ok' dead'
      using less.hyps [of q2 ok' dead'] len by simp
    show ?thesis
    proof (cases "deleted (obj q1 r)")
      case True
      then show ?thesis using out IH q1 by (simp add: p)
    next
      case nd: False
      show ?thesis
      proof (cases "exceeds_max_receive_count limit (obj ?q2 r)")
        case True
        then show ?thesis using out nd IH [of ?q2] q1 by (simp add: p Let_def)
      next
        case False
        show ?thesis
        proof (cases "increment_approximate_receive_count (obj ?q2 r)")
          case (Inl e)
          then show ?thesis using out nd False q1 by (auto simp: p Let_def)
        next
          case inc: (Inr m)
          show ?thesis
            using out nd False inc IH [of "upd_obj r (\<lambda>_. m) ?q2"] q1 by (simp add: p Let_def split: if_splits) auto
        qed
      qed
    qed
  qed
qed

lemma fifo_collect_fix:
  "fifo_collect now v limit num poll block wait q ok dead = (res, q') \<Longrightarrow> qfix q' = qfix q"
proof (induction "length (message_group_queue q)" arbitrary: q ok dead block wait rule: less_induct)
  case less
  note out = less.prems [unfolded fifo_collect.simps [of now v limit num poll block wait q ok dead]]
  show ?case
  proof (cases "interruptible_get queue_popleft (is_shutdown q) block wait (message_group_queue q)")
    case (Inl e)
    then show ?thesis using out by simp
  next
    case (Inr x)
    show ?thesis
    proof (cases x)
      case None
      then show ?thesis using out Inr by simp
    next
      case (Some gr)
      obtain g rest where x: "x = Some (g, rest)" using Some by (cases gr) simp
      have len: "length rest < length (message_group_queue q)"
        using Inr x by (auto simp: interruptible_get_def queue_popleft_def split: if_splits list.splits)
      have IH: "fifo_collect now v limit num poll b' w' q2 ok' dead' = (res, q') \<Longrightarrow>
          message_group_queue q2 = rest \<Longrightarrow> qfix q2 = qfix q \<Longrightarrow> qfix q' = qfix q" for q2 ok' dead' b' w'
        using less.hyps [of q2 b' w' ok' dead'] len by simp
      let ?q1 = "q\<lparr>message_group_queue := rest\<rparr>"
      let ?q2 = "?q1\<lparr>inflight_groups := List.insert g (inflight_groups ?q1)\<rparr>"
      show ?thesis
      proof (cases "group_empty ?q1 g")
        case True
        then show ?thesis using out IH [of _ _ ?q1] Inr x by (simp add: Let_def)
      next
        case ne: False
        obtain r3 q3 where c: "fifo_collect_group now v limit num g ?q2 ok dead = (r3, q3)" by fastforce
        have q3: "message_group_queue q3 = rest" "qfix q3 = qfix q"
          using collect_group_queue [OF c] fifo_collect_group_fix [OF c] by simp_all
        show ?thesis
          using out ne Inr x c q3 IH [of _ _ q3] by (auto simp: Let_def split: sum.splits prod.splits if_splits)
      qed
    qed
  qed
qed

lemma fifo_receive_fix: "qfix (snd (fifo_receive ext fresh now num wait_time timeout poll q)) = qfix q"
  unfolding fifo_receive_def Let_def
  by (simp add: split_beta fifo_collect_fix [OF prod.collapse [symmetric]] fifo_ident.hand_out_all_fix split: sum.split)

lemma fifo_requeue_loop_ident: "qid (fifo_requeue_loop now rs q) = qid q"
  by (induction rs arbitrary: q) (simp_all add: fifo_put_message_ident)

lemma fifo_put_ident: "qid (snd (fst (fifo_put ext now later seq msg timeout dedup grp delay q))) = qid q"
  by (simp add: fifo_put_def Let_def split_beta fifo_put_message_ident split: sum.split option.split)

lemma fifo_ops_ident [ident]:
  "qid (snd (fifo_receive ext fresh now num wait_time timeout poll q)) = qid q"
  "qid (snd (fifo_remove ext now h q)) = qid q"
  "qid (snd (fifo_update_visibility_timeout ext now h v q)) = qid q"
  "qid (fifo_requeue_inflight_messages now q) = qid q" "qid (fifo_enqueue_delayed_messages now q) = qid q"
  "qid (snd (fifo_remove_expired_messages now q)) = qid q" "qid (fifo_clear q) = qid q"
proof -
  show "qid (snd (fifo_receive ext fresh now num wait_time timeout poll q)) = qid q"
    using qfixD [OF fifo_receive_fix] by blast
qed (simp_all add: fifo_remove_def fifo_update_visibility_timeout_def fifo_requeue_inflight_messages_def
    fifo_enqueue_delayed_messages_def fifo_remove_expired_messages_def fifo_clear_def fifo_requeue_loop_ident
    fifo_ident.queue_remove_ident fifo_ident.update_visibility_ident fifo_ident.enqueue_ident
    split: sum.split)

subsection \<open>Queues of either type\<close>

lemma permission_ident:
  "add_permission ext label actions accounts q = Inr q' \<Longrightarrow> qid q' = qid q"
  "remove_permission ext label q = Inr q' \<Longrightarrow> qid q' = qid q"
  by (auto simp: add_permission_def remove_permission_def bind_result_Inr_iff Let_def split: if_splits)

lemma q_ops_ident [ident]:
  "q_id (snd (fst (q_put ext now later seq msg dedup grp delay q))) = q_id q"
  "q_id (snd (q_receive ext fresh now num wait_time timeout poll q)) = q_id q"
  "q_id (snd (q_remove ext now h q)) = q_id q"
  "q_id (snd (q_update_visibility_timeout ext now h v q)) = q_id q"
  "q_id (q_requeue_inflight_messages now q) = q_id q" "q_id (q_enqueue_delayed_messages now q) = q_id q"
  "q_id (snd (q_remove_expired_messages now q)) = q_id q" "q_id (q_clear now q) = q_id q"
  "q_id (q_shutdown q) = q_id q" "q_id (q_set_attributes a q) = q_id q" "q_id (q_upd_obj r g q) = q_id q"
  "q_id (refresh_group grp' q) = q_id q" "q_id (update_queue env now q) = q_id q"
  "q_id (snd (queue_set_attributes attrs q)) = q_id q"
proof -
  show put: "q_id (snd (fst (q_put ext now later seq msg dedup grp delay q))) = q_id q"
    by (simp add: q_put_def lift_std_def lift_fifo_def standard_ops_ident fifo_put_ident split_beta split: queue.split)
  show rq: "q_id (q_requeue_inflight_messages now q) = q_id q" for now q
    by (simp add: q_requeue_inflight_messages_def ident split: queue.split)
  show eq: "q_id (q_enqueue_delayed_messages now q) = q_id q" for now q
    by (simp add: q_enqueue_delayed_messages_def ident split: queue.split)
  show ex: "q_id (snd (q_remove_expired_messages now q)) = q_id q" for now q
    by (simp add: q_remove_expired_messages_def lift_std_def lift_fifo_def ident split: queue.split)
  show "q_id (update_queue env now q) = q_id q" by (simp add: update_queue_def Let_def rq eq ex)
  show sa: "q_id (q_set_attributes a q) = q_id q" for a by (simp add: q_set_attributes_def split: queue.split)
  show "q_id (snd (queue_set_attributes attrs q)) = q_id q"
    by (simp add: queue_set_attributes_def Let_def sa split: sum.split prod.split option.split)
qed (simp_all add: q_receive_def q_remove_def q_update_visibility_timeout_def q_clear_def q_shutdown_def q_upd_obj_def
    refresh_group_def lift_std_def lift_fifo_def ident split: queue.split)

lemma q_receive_attributes: "q_attributes (snd (q_receive ext fresh now num wait_time timeout poll q)) = q_attributes q"
  using qfixD [OF standard_receive_fix] qfixD [OF fifo_receive_fix]
  by (simp add: q_receive_def q_attributes_def lift_std_def lift_fifo_def split: queue.split)

lemma q_permission_ident:
  "q_add_permission ext label actions accounts q = Inr q' \<Longrightarrow> q_id q' = q_id q"
  "q_remove_permission ext label q = Inr q' \<Longrightarrow> q_id q' = q_id q"
  by (auto simp: q_add_permission_def q_remove_permission_def map_sum_def dest: permission_ident
      split: sum.splits queue.splits)

lemma new_queue_ident: "new_queue fifo now name reg account attrs tags = Inr q \<Longrightarrow> q_id q = (account, reg, name)"
  by (auto simp: new_queue_def standard_queue_init_def fifo_queue_init_def bind_result_Inr_iff Let_def qid_def map_sum_def
      split: if_splits sum.splits option.splits)

end
