(* ===== verification/SqsRegistry.thy ===== *)
theory SqsRegistry
  imports SqsIdent
begin

text \<open>
  The registry of queues as a state machine: the requests the service accepts, the steps of its
  background threads, the states they reach, and the invariant that a queue is always registered under its own
  account, region and name.
\<close>

named_theorems keeps \<open>operations keep an invariant\<close>

subsection \<open>Invariants of handlers\<close>

definition keeps_inv :: "(sqs_world \<Rightarrow> bool) \<Rightarrow> 'a op \<Rightarrow> bool" where
  "keeps_inv P m \<longleftrightarrow> (\<forall>w. P w \<longrightarrow> P (snd (m w)))"

lemma keeps_invI: "(\<And>w. P w \<Longrightarrow> P (snd (m w))) \<Longrightarrow> keeps_inv P m"
  by (simp add: keeps_inv_def)

lemma keeps_invD: "keeps_inv P m \<Longrightarrow> P w \<Longrightarrow> P (snd (m w))"
  by (simp add: keeps_inv_def)

lemma keeps_pure [keeps]: "keeps_inv P (ret x)" "keeps_inv P (lift_op r)" "keeps_inv P (read_op f)"
  by (simp_all add: keeps_inv_def run_ops)

lemma keeps_bind [keeps]: "keeps_inv P m \<Longrightarrow> (\<And>x. keeps_inv P (f x)) \<Longrightarrow> keeps_inv P (bind_op m f)"
  unfolding keeps_inv_def bind_op_def by (simp add: split_beta split: sum.split)

lemma keeps_bind_lift: "(\<And>x. r = Inr x \<Longrightarrow> keeps_inv P (f x)) \<Longrightarrow> keeps_inv P (bind_op (lift_op r) f)"
  by (cases r) (auto simp: keeps_inv_def)

lemma keeps_rethrow [keeps]: "keeps_inv P m \<Longrightarrow> keeps_inv P (rethrow m h)"
  unfolding keeps_inv_def rethrow_def by (simp add: split_beta split: sum.split)

lemma keeps_if [keeps]: "(c \<Longrightarrow> keeps_inv P m) \<Longrightarrow> (\<not> c \<Longrightarrow> keeps_inv P n) \<Longrightarrow> keeps_inv P (if c then m else n)"
  by simp

lemma keeps_option [keeps]:
  "keeps_inv P m \<Longrightarrow> (\<And>x. keeps_inv P (n x)) \<Longrightarrow> keeps_inv P (case opt of None \<Rightarrow> m | Some x \<Rightarrow> n x)"
  by (simp split: option.split)

lemma keeps_prod [keeps]: "(\<And>x y. keeps_inv P (f x y)) \<Longrightarrow> keeps_inv P (case p of (x, y) \<Rightarrow> f x y)"
  by (simp split: prod.split)

lemma keeps_let [keeps]: "keeps_inv P (f x) \<Longrightarrow> keeps_inv P (let y = x in f y)"
  by simp

lemma keeps_modify: "(\<And>w. P w \<Longrightarrow> P (g w)) \<Longrightarrow> keeps_inv P (modify_op g)"
  by (simp add: keeps_inv_def run_ops)

lemma keeps_read_queue [keeps]: "keeps_inv P (read_queue key)"
  by (simp add: keeps_inv_def read_queue_def split: option.split)

lemma run_batch_keeps:
  "(\<And>e. keeps_inv P (act e)) \<Longrightarrow> P w \<Longrightarrow> P (snd (run_batch err act es w))"
proof (induction es arbitrary: w)
  case (Cons e es)
  have "P (snd (act e w))" using Cons.prems keeps_invD by blast
  then show ?case using Cons.IH Cons.prems(1) by (simp add: split_beta split: sum.split)
qed simp

lemma keeps_batch [keeps]: "(\<And>e. keeps_inv P (act e)) \<Longrightarrow> keeps_inv P (batch_op err act es)"
  by (rule keeps_invI) (simp add: batch_op_def split_beta run_batch_keeps)

subsection \<open>Lookup after an update\<close>

lemma find_store_update:
  "find_store a' r' (stores (update_store a r f w)) =
    (if a' = a \<and> r' = r then map_option f (find_store a r (stores w)) else find_store a' r' (stores w))"
proof (cases "find_store a r (stores w)")
  case None
  then show ?thesis by (auto simp: update_store_def)
next
  case (Some st)
  then obtain rb where "dict_get (arb_bundles (stores w)) a = Some rb"
    by (auto simp: find_store_def split: option.splits)
  then show ?thesis using Some by (simp add: update_store_def find_set_store)
qed

lemma update_store_simps [simp]:
  "uid_count (update_store a r f w) = uid_count w" "msg_seq (update_store a r f w) = msg_seq w"
  "manager_tasks (update_store a r f w) = manager_tasks w" "metrics (update_store a r f w) = metrics w"
  "dispatcher_running (update_store a r f w) = dispatcher_running w"
  by (simp_all add: update_store_def split: option.split)

lemma find_queue_set_queue:
  "find_queue key' (set_queue key q w) =
    (if key' = key \<and> find_store (fst key) (fst (snd key)) (stores w) \<noteq> None then Some q else find_queue key' w)"
  by (cases key; cases key') (auto simp: find_queue_def set_queue_def find_store_update split: option.splits)

lemma find_queue_store: "find_queue (a, r, n) w = Some q \<Longrightarrow> find_store a r (stores w) \<noteq> None"
  by (auto simp: find_queue_def split: option.splits)

lemma find_queue_set_same:
  "find_queue key w = Some q0 \<Longrightarrow> find_queue key (set_queue key q w) = Some q"
  by (cases key) (auto simp: find_queue_set_queue dest: find_queue_store)

lemma set_queue_simps [simp]:
  "uid_count (set_queue key q w) = uid_count w" "msg_seq (set_queue key q w) = msg_seq w"
  "manager_tasks (set_queue key q w) = manager_tasks w" "metrics (set_queue key q w) = metrics w"
  "dispatcher_running (set_queue key q w) = dispatcher_running w"
  by (simp_all add: set_queue_def split: prod.split)

lemma find_queue_more [simp]:
  "find_queue key (w\<lparr>uid_count := a\<rparr>) = find_queue key w" "find_queue key (w\<lparr>msg_seq := b\<rparr>) = find_queue key w"
  "find_queue key (w\<lparr>metrics := c\<rparr>) = find_queue key w" "find_queue key (w\<lparr>manager_tasks := d\<rparr>) = find_queue key w"
  "find_queue key (w\<lparr>dispatcher_running := e\<rparr>) = find_queue key w"
  by (simp_all add: find_queue_def split: prod.split)

lemma region_getitem_stores:
  "dict_get (rb_stores (snd (region_getitem cfg cls r rb))) r' = dict_get (rb_stores rb) r' \<or>
   dict_get (rb_stores rb) r' = None \<and> dict_get (rb_stores (snd (region_getitem cfg cls r rb))) r' = Some (new_store cls)"
  by (simp add: region_getitem_def Let_def split: option.split)

lemma find_store_get_store:
  "find_store a' r' (snd (get_store cfg cls a r b)) = find_store a' r' b \<or>
   find_store a' r' b = None \<and> find_store a' r' (snd (get_store cfg cls a r b)) = Some (new_store cls)"
proof (cases "arb_validate b \<and> \<not> account_id_ok cfg a")
  case True
  then show ?thesis by (simp add: get_store_def account_getitem_def)
next
  case False
  define rb where "rb = (case dict_get (arb_bundles b) a of Some rb \<Rightarrow> rb
     | None \<Rightarrow> region_bundle_init cls (arb_service_name b) a (arb_validate b))"
  define b1 where "b1 = b\<lparr>arb_bundles := dict_setdefault a
     (region_bundle_init cls (arb_service_name b) a (arb_validate b)) (arb_bundles b)\<rparr>"
  have "account_getitem cfg cls a b = (Inr rb, b1)"
    using False by (auto simp: account_getitem_def rb_def b1_def Let_def split: option.splits)
  then have get: "snd (get_store cfg cls a r b) =
      b1\<lparr>arb_bundles := dict_set a (snd (region_getitem cfg cls r rb)) (arb_bundles b1)\<rparr>"
    by (simp add: get_store_def split_beta)
  show ?thesis
  proof (cases "a' = a")
    case True
    have old: "find_store a r' b = dict_get (rb_stores rb) r'"
      by (simp add: find_store_def rb_def region_bundle_init_def split: option.split)
    show ?thesis
      unfolding get True old using region_getitem_stores [of cfg cls r rb r'] by (simp add: find_store_def)
  next
    case False
    then show ?thesis unfolding get by (simp add: find_store_def b1_def split: option.split)
  qed
qed

lemma find_queue_get_store: "find_queue key (snd (get_store_op env a r w)) = find_queue key w"
proof (cases key)
  case (fields a' r' n)
  show ?thesis
    using find_store_get_store [of a' r' "env_stores env" sqs_store_class a r "stores w"] fields
    by (auto simp: get_store_op_def find_queue_def sqs_store_class_def split_beta split: option.splits)
qed

subsection \<open>The registry invariant\<close>

definition stores_ok :: "sqs_world \<Rightarrow> bool" where
  "stores_ok w \<longleftrightarrow> bundle_uniform (stores w) \<and> arb_validate (stores w) \<and> arb_service_name (stores w) = ''sqs''"

text \<open>A queue dictionary has no key twice.\<close>

definition names_ok :: "sqs_world \<Rightarrow> bool" where
  "names_ok w \<longleftrightarrow> (\<forall>a r st. find_store a r (stores w) = Some st \<longrightarrow> dict_wf (store_queues st))"

definition registry_ok :: "sqs_world \<Rightarrow> bool" where
  "registry_ok w \<longleftrightarrow> stores_ok w \<and> names_ok w \<and> (\<forall>key q. find_queue key w = Some q \<longrightarrow> q_id q = key)"

lemma registry_stores_ok: "registry_ok w \<Longrightarrow> stores_ok w"
  by (simp add: registry_ok_def)

lemma registry_names_ok: "registry_ok w \<Longrightarrow> names_ok w"
  by (simp add: registry_ok_def)

lemma names_okD: "names_ok w \<Longrightarrow> find_store a r (stores w) = Some st \<Longrightarrow> dict_wf (store_queues st)"
  by (simp add: names_ok_def)

lemma names_ok_more [simp]:
  "names_ok (w\<lparr>uid_count := a\<rparr>) = names_ok w" "names_ok (w\<lparr>msg_seq := b\<rparr>) = names_ok w"
  "names_ok (w\<lparr>metrics := c\<rparr>) = names_ok w" "names_ok (w\<lparr>manager_tasks := d\<rparr>) = names_ok w"
  "names_ok (w\<lparr>dispatcher_running := e\<rparr>) = names_ok w"
  by (simp_all add: names_ok_def)

lemma names_ok_update_store:
  "names_ok w \<Longrightarrow> (\<And>st. dict_wf (store_queues st) \<Longrightarrow> dict_wf (store_queues (f st))) \<Longrightarrow> names_ok (update_store a r f w)"
  unfolding names_ok_def find_store_update by (auto split: if_splits)

lemma names_ok_set_queue: "names_ok w \<Longrightarrow> names_ok (set_queue key q w)"
  by (cases key) (auto simp: set_queue_def intro: names_ok_update_store)

lemma names_ok_get_store: "names_ok w \<Longrightarrow> names_ok (snd (get_store_op env a r w))"
  unfolding names_ok_def
proof (intro allI impI)
  fix a' r' st
  assume ok: "\<forall>a r st. find_store a r (stores w) = Some st \<longrightarrow> dict_wf (store_queues st)"
    and "find_store a' r' (stores (snd (get_store_op env a r w))) = Some st"
  then show "dict_wf (store_queues st)"
    using find_store_get_store [of a' r' "env_stores env" sqs_store_class a r "stores w"]
    by (auto simp: get_store_op_def split_beta sqs_store_class_def)
qed

lemma stores_ok_more [simp]:
  "stores_ok (w\<lparr>uid_count := a\<rparr>) = stores_ok w" "stores_ok (w\<lparr>msg_seq := b\<rparr>) = stores_ok w"
  "stores_ok (w\<lparr>metrics := c\<rparr>) = stores_ok w" "stores_ok (w\<lparr>manager_tasks := d\<rparr>) = stores_ok w"
  "stores_ok (w\<lparr>dispatcher_running := e\<rparr>) = stores_ok w"
  by (simp_all add: stores_ok_def)

lemma stores_ok_update_store: "stores_ok w \<Longrightarrow> stores_ok (update_store a r f w)"
  by (simp add: stores_ok_def update_store_def bundle_uniform_set_store split: option.split)

lemma stores_ok_set_queue: "stores_ok w \<Longrightarrow> stores_ok (set_queue key q w)"
  by (simp add: set_queue_def stores_ok_update_store split: prod.split)

lemma stores_ok_get_store: "stores_ok w \<Longrightarrow> stores_ok (snd (get_store_op env a r w))"
  by (simp add: stores_ok_def get_store_op_def split_beta get_store_uniform)

lemma registry_okD: "registry_ok w \<Longrightarrow> find_queue key w = Some q \<Longrightarrow> q_id q = key"
  unfolding registry_ok_def by blast

lemma registry_okI: "stores_ok w \<Longrightarrow> names_ok w \<Longrightarrow> (\<And>key q. find_queue key w = Some q \<Longrightarrow> q_id q = key) \<Longrightarrow> registry_ok w"
  unfolding registry_ok_def by (intro conjI allI impI)

lemma registry_set_queue:
  assumes w: "registry_ok w" and q: "q_id q = key"
  shows "registry_ok (set_queue key q w)"
proof -
  have "q_id q' = key'" if f: "find_queue key' (set_queue key q w) = Some q'" for key' q'
  proof (cases "key' = key \<and> find_store (fst key) (fst (snd key)) (stores w) \<noteq> None")
    case True
    then have "q' = q" using f unfolding find_queue_set_queue by (subst (asm) if_P) simp_all
    then show ?thesis using q True by (simp only:)
  next
    case False
    then have "find_queue key' w = Some q'" using f unfolding find_queue_set_queue by (subst (asm) if_not_P) assumption+
    then show ?thesis by (rule registry_okD [OF w])
  qed
  then show ?thesis by (rule registry_okI [OF stores_ok_set_queue [OF registry_stores_ok [OF w]] names_ok_set_queue [OF registry_names_ok [OF w]]])
qed

lemma find_queue_update_store:
  "find_queue (a', r', n) (update_store a r f w) =
    (if a' = a \<and> r' = r
     then (case find_store a r (stores w) of Some st \<Rightarrow> dict_get (store_queues (f st)) n | None \<Rightarrow> None)
     else find_queue (a', r', n) w)"
  by (simp add: find_queue_def find_store_update split: option.split)

lemma registry_update_store:
  assumes w: "registry_ok w"
    and f: "\<And>st n q. dict_get (store_queues (f st)) n = Some q \<Longrightarrow> dict_get (store_queues st) n = Some q"
    and wf: "\<And>st. dict_wf (store_queues st) \<Longrightarrow> dict_wf (store_queues (f st))"
  shows "registry_ok (update_store a r f w)"
proof -
  have "find_queue (a', r', n) w = Some q" if h: "find_queue (a', r', n) (update_store a r f w) = Some q" for a' r' n q
  proof (cases "a' = a \<and> r' = r")
    case True
    then obtain st where "find_store a r (stores w) = Some st" "dict_get (store_queues (f st)) n = Some q"
      using h by (auto simp: find_queue_update_store split: option.splits)
    then show ?thesis using f [of st n q] True by (simp add: find_queue_def)
  next
    case False
    then show ?thesis using h by (auto simp: find_queue_update_store)
  qed
  then show ?thesis using registry_okD [OF w] by (intro registry_okI stores_ok_update_store names_ok_update_store wf registry_stores_ok [OF w] registry_names_ok [OF w])
      (simp_all, metis prod_cases3)
qed

lemma registry_more [simp]:
  "registry_ok (w\<lparr>uid_count := a\<rparr>) = registry_ok w" "registry_ok (w\<lparr>msg_seq := b\<rparr>) = registry_ok w"
  "registry_ok (w\<lparr>metrics := c\<rparr>) = registry_ok w" "registry_ok (w\<lparr>manager_tasks := d\<rparr>) = registry_ok w"
  "registry_ok (w\<lparr>dispatcher_running := e\<rparr>) = registry_ok w"
  by (simp_all add: registry_ok_def)

abbreviation keeps_registry :: "'a op \<Rightarrow> bool" where
  "keeps_registry \<equiv> keeps_inv registry_ok"

lemma keeps_get_store [keeps]: "keeps_registry (get_store_op env a r)"
  by (rule keeps_invI) (simp add: registry_ok_def find_queue_get_store stores_ok_get_store names_ok_get_store)

lemma keeps_long_uid [keeps]: "keeps_registry (long_uid env)"
  by (rule keeps_invI) (simp add: long_uid_def)

lemma keeps_metric [keeps]: "keeps_registry (dispatch_sqs_metric a r n m v u)"
  by (rule keeps_invI) (simp add: dispatch_sqs_metric_def)

lemma keeps_on_queue:
  assumes "\<And>q. q_id (snd (f q)) = q_id q"
  shows "keeps_registry (on_queue key f)"
proof (rule keeps_invI)
  fix w assume w: "registry_ok w"
  show "registry_ok (snd (on_queue key f w))"
    using w by (cases "find_queue key w")
      (auto simp: on_queue_def read_queue_def bind_op_def split_beta assms intro!: registry_set_queue dest: registry_okD)
qed

lemma keeps_on_queue_result:
  assumes "\<And>q q'. f q = Inr q' \<Longrightarrow> q_id q' = q_id q"
  shows "keeps_registry (on_queue_result key f)"
  unfolding on_queue_result_def by (rule keeps_on_queue) (simp add: assms split: sum.split)

lemma keeps_put_op [keeps]: "keeps_registry (put_op env now key msg dedup grp delay)"
proof (rule keeps_invI)
  fix w assume w: "registry_ok w"
  show "registry_ok (snd (put_op env now key msg dedup grp delay w))"
    using w by (cases "find_queue key w")
      (auto simp: put_op_def read_queue_def bind_op_def split_beta q_ops_ident intro!: registry_set_queue dest: registry_okD)
qed

lemma keeps_receive_op [keeps]: "keeps_registry (receive_op env now key num wait_time timeout poll)"
proof (rule keeps_invI)
  fix w assume w: "registry_ok w"
  show "registry_ok (snd (receive_op env now key num wait_time timeout poll w))"
    using w by (cases "find_queue key w")
      (auto simp: receive_op_def read_queue_def bind_op_def split_beta q_ops_ident intro!: registry_set_queue dest: registry_okD)
qed

lemma keeps_require [keeps]:
  "keeps_registry (require_queue env a r n iq)" "keeps_registry (require_queue_by_arn env iq arn)"
  "keeps_registry (resolve_queue env ctx url)" "keeps_registry (get_queue_by_arn env arn)"
  unfolding require_queue_by_arn_def resolve_queue_def get_queue_by_arn_def require_queue_def by (intro keeps)+

lemma keeps_update_store:
  "(\<And>st. store_queues (f st) = store_queues st) \<Longrightarrow> keeps_registry (modify_op (update_store a r f))"
  by (rule keeps_modify, rule registry_update_store) simp_all

lemma keeps_tag_store [keeps]:
  "keeps_registry (tag_queue_store env q tags)" "keeps_registry (remove_all_queue_tags env q)"
  unfolding tag_queue_store_def remove_all_queue_tags_def by (intro keeps keeps_update_store; simp)+

lemma keeps_if_cloudwatch [keeps]: "keeps_registry m \<Longrightarrow> keeps_registry (if_cloudwatch env m)"
  unfolding if_cloudwatch_def by (intro keeps)

lemma keeps_dispatch [keeps]:
  "keeps_registry (dispatch_metric_message_sent q n)" "keeps_registry (dispatch_metric_message_deleted q n)"
  "keeps_registry (dispatch_metric_received q n)"
  unfolding dispatch_metric_message_sent_def dispatch_metric_message_deleted_def dispatch_metric_received_def
  by (intro keeps)+

subsection \<open>The handlers keep the registry\<close>

lemma keeps_create_queue [keeps]: "keeps_registry (create_queue env now ctx name attrs tags)"
proof -
  have "keeps_registry (modify_op (set_queue (ctx_account_id ctx, ctx_region ctx, name) q))"
    if "new_queue fifo now name (ctx_region ctx) (ctx_account_id ctx) attrs' tags = Inr q" for q fifo attrs'
    using that by (intro keeps_modify registry_set_queue new_queue_ident)
  then show ?thesis
    unfolding create_queue_def Let_def
    by (intro keeps keeps_bind_lift keeps_update_store) (simp_all add: expire_deleted_def)
qed

lemma keeps_delete_queue [keeps]: "keeps_registry (delete_queue env now ctx url)"
  unfolding delete_queue_def Let_def
  by (intro keeps keeps_on_queue keeps_modify registry_update_store) (simp_all add: q_ops_ident split: if_splits)

lemma keeps_queue_ops [keeps]:
  "keeps_registry (get_queue_url env ctx name owner)" "keeps_registry (list_queues env ctx pre token limit)"
  "keeps_registry (get_queue_attributes env ctx url names)" "keeps_registry (purge_queue env now ctx url)"
  "keeps_registry (set_queue_attributes env ctx url attrs)"
proof -
  show "keeps_registry (purge_queue env now ctx url)"
    unfolding purge_queue_def by (intro keeps keeps_on_queue) (simp add: q_ops_ident)
  show "keeps_registry (set_queue_attributes env ctx url attrs)"
    unfolding set_queue_attributes_def by (intro keeps keeps_on_queue) (simp add: q_ops_ident)
qed (unfold get_queue_url_def list_queues_def get_queue_attributes_def Let_def, (intro keeps)+)

lemma keeps_message_ops [keeps]:
  "keeps_registry (put_message env now key ctx body delay attrs system_attrs dedup grp)"
  "keeps_registry (change_message_visibility env now ctx url h v)"
  "keeps_registry (change_message_visibility_batch env now ctx url entries)"
  "keeps_registry (delete_message env now ctx url h)"
  "keeps_registry (delete_message_batch env now ctx url entries')"
proof -
  show "keeps_registry (put_message env now key ctx body delay attrs system_attrs dedup grp)"
    unfolding put_message_def by (intro keeps)
  show "keeps_registry (change_message_visibility env now ctx url h v)"
    unfolding change_message_visibility_def by (intro keeps keeps_on_queue) (simp add: q_ops_ident)
  show "keeps_registry (change_message_visibility_batch env now ctx url entries)"
    unfolding change_message_visibility_batch_def by (intro keeps keeps_on_queue) (simp add: q_ops_ident)
  show "keeps_registry (delete_message env now ctx url h)"
    unfolding delete_message_def by (intro keeps keeps_on_queue) (simp add: q_ops_ident)
  show "keeps_registry (delete_message_batch env now ctx url entries')"
    unfolding delete_message_batch_def by (intro keeps keeps_on_queue) (simp add: q_ops_ident)
qed

lemma keeps_send_ops [keeps]:
  "keeps_registry (send_message env now ctx url body delay attrs system_attrs dedup grp)"
  "keeps_registry (send_message_batch env now ctx url entries)"
  unfolding send_message_def send_message_batch_def by (intro keeps)+

lemma keeps_move_dead_letters [keeps]: "keeps_registry (move_dead_letters env now key dlq rs)"
proof (induction rs)
  case (Cons r rs)
  show ?case
    unfolding move_dead_letters.simps Let_def
    by (intro keeps keeps_on_queue Cons.IH) (simp_all add: q_ops_ident)
qed (simp add: keeps)

lemma keeps_receive_message [keeps]:
  "keeps_registry (receive_message env now ctx url names system_names attr_names max_number timeout wait_time)"
  unfolding receive_message_def process_dead_letters_def by (intro keeps)

lemma keeps_tag_ops [keeps]:
  "keeps_registry (tag_queue env ctx url tags)" "keeps_registry (list_queue_tags env ctx url)"
  "keeps_registry (untag_queue env ctx url keys)" "keeps_registry (list_dead_letter_source_queues env ctx url)"
proof -
  show "keeps_registry (untag_queue env ctx url keys)"
    unfolding untag_queue_def by (intro keeps keeps_update_store) simp
qed (unfold tag_queue_def list_queue_tags_def list_dead_letter_source_queues_def Let_def, (intro keeps)+)

lemma keeps_permission_ops [keeps]:
  "keeps_registry (provider_add_permission env ctx url label accounts actions)"
  "keeps_registry (provider_remove_permission env ctx url label)"
  unfolding provider_add_permission_def provider_remove_permission_def
  by (intro keeps keeps_on_queue_result; erule q_permission_ident)+

subsubsection \<open>Move tasks and background threads\<close>

lemma registry_set_task: "registry_ok w \<Longrightarrow> registry_ok (set_task key t w)"
  by (cases key) (auto simp: set_task_def intro: registry_update_store)

lemma registry_update_task: "registry_ok w \<Longrightarrow> registry_ok (update_task key f w)"
  by (simp add: update_task_def registry_set_task split: option.split)

lemma keeps_submit [keeps]: "keeps_registry (submit env now key)"
proof (rule keeps_invI)
  fix w assume w: "registry_ok w"
  have "registry_ok (snd (bind_op (get_queue_by_arn env arn) read_queue w))" for arn
    by (rule keeps_invD [where P = registry_ok, OF _ w]) (intro keeps)
  then show "registry_ok (snd (submit env now key w))"
    using w by (simp add: submit_def split_beta registry_update_task split: option.split sum.split)
qed

lemma keeps_move_ops [keeps]:
  "keeps_registry (start_message_move_task env now ctx source dest rate)"
  "keeps_registry (cancel_message_move_task env ctx handle)"
  "keeps_registry (list_message_move_tasks env ctx source max_results)"
  "keeps_registry (move_one env now t key)"
proof -
  show "keeps_registry (start_message_move_task env now ctx source dest rate)"
    unfolding start_message_move_task_def Let_def by (intro keeps keeps_modify registry_set_task)
  show "keeps_registry (cancel_message_move_task env ctx handle)"
    unfolding cancel_message_move_task_def Let_def by (intro keeps keeps_modify registry_update_task)
  show "keeps_registry (list_message_move_tasks env ctx source max_results)"
    unfolding list_message_move_tasks_def by (intro keeps)
  show "keeps_registry (move_one env now t key)"
    unfolding move_one_def Let_def
    by (intro keeps keeps_on_queue keeps_modify registry_update_task) (simp_all add: q_ops_ident)
qed

lemma registry_move_step: "registry_ok w \<Longrightarrow> registry_ok (snd (move_step env now key w))"
proof -
  assume w: "registry_ok w"
  have "registry_ok (snd (move_one env now t key w))" for t by (rule keeps_invD [where P = registry_ok, OF _ w]) (intro keeps)
  then show ?thesis
    using w by (simp add: move_step_def split_beta registry_update_task split: option.split sum.split bool.split)
qed

lemma map_of_map_snd: "map_of (map (\<lambda>(k, v). (k, f v)) xs) k = map_option f (map_of xs k)"
  by (induction xs) auto

lemma fst_map_snd: "fst \<circ> (\<lambda>(k, v). (k, f v)) = fst"
  by auto

lemma find_store_map_stores: "find_store a r (map_stores f b) = map_option f (find_store a r b)"
  by (simp add: find_store_def map_stores_def map_of_map_snd split: option.split)

lemma find_queue_map_queues:
  "find_queue key (w\<lparr>stores := map_stores (map_queues f) (stores w)\<rparr>) = map_option f (find_queue key w)"
  by (cases key) (simp add: find_queue_def find_store_map_stores map_queues_def map_of_map_snd split: option.split)

lemma registry_map_queues:
  assumes w: "registry_ok w" and f: "\<And>q. q_id (f q) = q_id q"
  shows "registry_ok (w\<lparr>stores := map_stores (map_queues f) (stores w)\<rparr>)"
proof (rule registry_okI)
  show "stores_ok (w\<lparr>stores := map_stores (map_queues f) (stores w)\<rparr>)"
    using registry_stores_ok [OF w] by (auto simp: stores_ok_def bundle_uniform_def map_stores_def)
  show "names_ok (w\<lparr>stores := map_stores (map_queues f) (stores w)\<rparr>)"
    using registry_names_ok [OF w] by (auto simp: names_ok_def find_store_map_stores map_queues_def fst_map_snd)
  fix key q
  assume "find_queue key (w\<lparr>stores := map_stores (map_queues f) (stores w)\<rparr>) = Some q"
  then obtain q0 where "find_queue key w = Some q0" "q = f q0" unfolding find_queue_map_queues by blast
  then show "q_id q = key" using registry_okD [OF w, of key q0] f by simp
qed

lemma registry_close_manager: "registry_ok w \<Longrightarrow> registry_ok (close_manager w)"
proof -
  have "registry_ok (fold (\<lambda>(tid, account, reg). update_task (account, reg, tid) (\<lambda>t. t\<lparr>cancel_event := True\<rparr>)) ts w)"
    if "registry_ok w" for ts w
    using that by (induction ts arbitrary: w) (auto simp: registry_update_task)
  then show "registry_ok w \<Longrightarrow> registry_ok (close_manager w)" by (simp add: close_manager_def)
qed

lemma registry_workers:
  "registry_ok w \<Longrightarrow> registry_ok (do_update_all_queues env now w)"
  "registry_ok w \<Longrightarrow> registry_ok (on_before_stop env w)"
  by (simp_all add: do_update_all_queues_def on_before_stop_def Let_def registry_map_queues registry_close_manager q_ops_ident)

subsection \<open>Requests and reachable states\<close>

text \<open>The requests that name a queue by its URL.\<close>

datatype queue_request =
    SendMessage string "int option" "attr_map option" "attr_map option" "string option" "string option"
  | SendMessageBatch "send_entry list"
  | ChangeMessageVisibility string int
  | ChangeMessageVisibilityBatch "(string \<times> string \<times> int) list"
  | DeleteMessage string
  | DeleteMessageBatch "(string \<times> string) list"
  | PurgeQueue
  | SetQueueAttributes "(string, string) dict"
  | GetQueueAttributes "string list option"
  | TagQueue "(string, string) dict"
  | UntagQueue "string list"
  | ListQueueTags
  | AddPermission string "string list" "string list"
  | RemovePermission string
  | DeleteQueue
  | ReceiveMessage "string list option" "string list option" "string list option" "int option" "int option" "int option"
  | ListDeadLetterSourceQueues

fun queue_exec :: "sqs_env \<Rightarrow> time \<Rightarrow> request_context \<Rightarrow> string \<Rightarrow> queue_request \<Rightarrow> sqs_world \<Rightarrow> sqs_world" where
  "queue_exec env now ctx url (SendMessage body delay attrs sys dedup grp) w =
     snd (send_message env now ctx url body delay attrs sys dedup grp w)"
| "queue_exec env now ctx url (SendMessageBatch entries) w = snd (send_message_batch env now ctx url entries w)"
| "queue_exec env now ctx url (ChangeMessageVisibility h v) w = snd (change_message_visibility env now ctx url h v w)"
| "queue_exec env now ctx url (ChangeMessageVisibilityBatch entries) w =
     snd (change_message_visibility_batch env now ctx url entries w)"
| "queue_exec env now ctx url (DeleteMessage h) w = snd (delete_message env now ctx url h w)"
| "queue_exec env now ctx url (DeleteMessageBatch entries) w = snd (delete_message_batch env now ctx url entries w)"
| "queue_exec env now ctx url PurgeQueue w = snd (purge_queue env now ctx url w)"
| "queue_exec env now ctx url (SetQueueAttributes attrs) w = snd (set_queue_attributes env ctx url attrs w)"
| "queue_exec env now ctx url (GetQueueAttributes names) w = snd (get_queue_attributes env ctx url names w)"
| "queue_exec env now ctx url (TagQueue tags) w = snd (tag_queue env ctx url tags w)"
| "queue_exec env now ctx url (UntagQueue keys) w = snd (untag_queue env ctx url keys w)"
| "queue_exec env now ctx url ListQueueTags w = snd (list_queue_tags env ctx url w)"
| "queue_exec env now ctx url (AddPermission label accounts actions) w =
     snd (provider_add_permission env ctx url label accounts actions w)"
| "queue_exec env now ctx url (RemovePermission label) w = snd (provider_remove_permission env ctx url label w)"
| "queue_exec env now ctx url DeleteQueue w = snd (delete_queue env now ctx url w)"
| "queue_exec env now ctx url (ReceiveMessage names sys attr_names num timeout wait_time) w =
     snd (receive_message env now ctx url names sys attr_names num timeout wait_time w)"
| "queue_exec env now ctx url ListDeadLetterSourceQueues w = snd (list_dead_letter_source_queues env ctx url w)"

datatype api_event =
    CreateQueue string "(string, string) dict option" "(string, string) dict option"
  | GetQueueUrl string "string option"
  | ListQueues "string option" "string option" "nat option"
  | OnQueue string queue_request
  | StartMessageMoveTask string "string option" "int option"
  | CancelMessageMoveTask string
  | ListMessageMoveTasks string "int option"
  | MoveTaskStep task_key
  | UpdateAllQueues
  | Shutdown

fun api_exec :: "sqs_env \<Rightarrow> time \<Rightarrow> request_context \<Rightarrow> api_event \<Rightarrow> sqs_world \<Rightarrow> sqs_world" where
  "api_exec env now ctx (CreateQueue name attrs tags) w = snd (create_queue env now ctx name attrs tags w)"
| "api_exec env now ctx (GetQueueUrl name owner) w = snd (get_queue_url env ctx name owner w)"
| "api_exec env now ctx (ListQueues pre token limit) w = snd (list_queues env ctx pre token limit w)"
| "api_exec env now ctx (OnQueue url req) w = queue_exec env now ctx url req w"
| "api_exec env now ctx (StartMessageMoveTask source dest rate) w =
     snd (start_message_move_task env now ctx source dest rate w)"
| "api_exec env now ctx (CancelMessageMoveTask handle) w = snd (cancel_message_move_task env ctx handle w)"
| "api_exec env now ctx (ListMessageMoveTasks source n) w = snd (list_message_move_tasks env ctx source n w)"
| "api_exec env now ctx (MoveTaskStep key) w = snd (move_step env now key w)"
| "api_exec env now ctx UpdateAllQueues w = do_update_all_queues env now w"
| "api_exec env now ctx Shutdown w = on_before_stop env w"

inductive sqs_reachable :: "sqs_env \<Rightarrow> sqs_world \<Rightarrow> bool" for env where
  start: "sqs_reachable env (sqs_world_init now)"
| step: "sqs_reachable env w \<Longrightarrow> sqs_reachable env (api_exec env now ctx ev w)"

lemma registry_queue_exec: "registry_ok w \<Longrightarrow> registry_ok (queue_exec env now ctx url req w)"
  by (cases req) (simp_all del: tag_queue_def add: keeps_invD [where P = registry_ok] keeps)

lemma registry_api_exec: "registry_ok w \<Longrightarrow> registry_ok (api_exec env now ctx ev w)"
  by (cases ev) (simp_all add: keeps_invD [where P = registry_ok] keeps registry_queue_exec registry_move_step registry_workers)

lemma registry_reachable: "sqs_reachable env w \<Longrightarrow> registry_ok w"
proof (induction rule: sqs_reachable.induct)
  case (start now)
  show ?case
    by (rule registry_okI)
      (auto simp: find_queue_def sqs_world_init_def arb_init_def find_store_def stores_ok_def names_ok_def bundle_uniform_def)
qed (rule registry_api_exec)

subsection \<open>The queues a request may change\<close>

definition resolve_key :: "request_context \<Rightarrow> string \<Rightarrow> queue_key" where
  "resolve_key ctx url =
     (case resolve_queue_location ctx None url of (account, reg, name) \<Rightarrow>
        (account, if truthy reg then the reg else ctx_region ctx, name))"

lemma require_queue_result: "require_queue env a r n iq w = (Inr key, w') \<Longrightarrow> key = (a, r, n)"
  unfolding require_queue_def by (erule bind_op_InrE) (auto simp: run_ops split: if_splits)

lemma resolve_queue_result: "resolve_queue env ctx url w = (Inr key, w') \<Longrightarrow> key = resolve_key ctx url"
  by (auto simp: resolve_queue_def resolve_key_def split: prod.splits dest!: require_queue_result)

abbreviation untouched :: "queue_key \<Rightarrow> queue option \<Rightarrow> 'a op \<Rightarrow> bool" where
  "untouched key x \<equiv> keeps_inv (\<lambda>w. find_queue key w = x)"

named_theorems keeps_other \<open>operations leave another queue alone\<close>

lemma untouched_base [keeps_other]:
  "untouched key x (get_store_op env a r)" "untouched key x (long_uid env)"
  "untouched key x (dispatch_sqs_metric a r n m v u)" "untouched key x (require_queue env a r n iq)"
  "untouched key x (resolve_queue env ctx url)"
proof -
  show g: "untouched key x (get_store_op env a r)" for a r
    by (rule keeps_invI) (simp add: find_queue_get_store)
  show rq: "untouched key x (require_queue env a r n iq)" for a r n iq
    unfolding require_queue_def by (intro keeps g)
  show "untouched key x (resolve_queue env ctx url)" unfolding resolve_queue_def by (intro keeps rq)
qed (rule keeps_invI, simp add: long_uid_def dispatch_sqs_metric_def)+

lemma untouched_resolve [keeps_other]:
  assumes "untouched key x (f (resolve_key ctx url))"
  shows "untouched key x (bind_op (resolve_queue env ctx url) f)"
proof (rule keeps_invI)
  fix w assume w: "find_queue key w = x"
  obtain res w' where r: "resolve_queue env ctx url w = (res, w')" by fastforce
  have w': "find_queue key w' = x" using keeps_invD [OF untouched_base(5), of key w x env ctx url] w r by simp
  show "find_queue key (snd (bind_op (resolve_queue env ctx url) f w)) = x"
  proof (cases res)
    case (Inl e)
    then show ?thesis using r w' by (simp add: bind_op_def)
  next
    case (Inr k)
    then have "k = resolve_key ctx url" using resolve_queue_result r by simp
    then show ?thesis
      using r Inr w' keeps_invD [OF assms, of w'] by (simp add: bind_op_def)
  qed
qed

lemma untouched_on_queue [keeps_other]: "key \<noteq> key' \<Longrightarrow> untouched key x (on_queue key' f)"
  by (rule keeps_invI)
    (simp add: on_queue_def read_queue_def bind_op_def split_beta find_queue_set_queue split: option.split)

lemma untouched_put_op [keeps_other]: "key \<noteq> key' \<Longrightarrow> untouched key x (put_op env now key' msg dedup grp delay)"
  by (rule keeps_invI)
    (simp add: put_op_def read_queue_def bind_op_def split_beta find_queue_set_queue split: option.split)

lemma untouched_update_store [keeps_other]:
  assumes "\<And>st. store_queues (f st) = store_queues st"
  shows "untouched key x (modify_op (update_store a r f))"
proof (rule keeps_modify)
  fix w assume "find_queue key w = x"
  then show "find_queue key (update_store a r f w) = x"
    by (cases key) (auto simp: find_queue_def find_store_update assms split: option.split)
qed

lemma untouched_metrics [keeps_other]:
  "untouched key x (if_cloudwatch env (dispatch_metric_message_sent q n))"
  "untouched key x (if_cloudwatch env (dispatch_metric_message_deleted q n))"
  unfolding if_cloudwatch_def dispatch_metric_message_sent_def dispatch_metric_message_deleted_def
  by (intro keeps keeps_other)+

lemma untouched_put_message [keeps_other]:
  "key \<noteq> key' \<Longrightarrow> untouched key x (put_message env now key' ctx body delay attrs sys dedup grp)"
  unfolding put_message_def by (intro keeps keeps_other; assumption?)

text \<open>The queue the redrive policy of a queue names.\<close>

definition dead_letter_key :: "sqs_env \<Rightarrow> queue \<Rightarrow> queue_key option" where
  "dead_letter_key env q =
     (case bind_result (dead_letter_target q) (ext_parse_arn (env_ext env)) of
        Inl _ \<Rightarrow> None
      | Inr d \<Rightarrow> Some (arn_account d, arn_region d, arn_resource d))"

text \<open>The queues that executing a request may change: the one its URL names and, for a receive, its dead letter queue.\<close>

fun request_scope :: "sqs_env \<Rightarrow> request_context \<Rightarrow> string \<Rightarrow> queue_request \<Rightarrow> sqs_world \<Rightarrow> queue_key set" where
  "request_scope env ctx url (ReceiveMessage _ _ _ _ _ _) w =
     insert (resolve_key ctx url) (set_option (Option.bind (find_queue (resolve_key ctx url) w) (dead_letter_key env)))"
| "request_scope env ctx url _ w = {resolve_key ctx url}"

lemma dead_letter_key_attributes: "q_attributes q = q_attributes q' \<Longrightarrow> dead_letter_key env q = dead_letter_key env q'"
  by (cases q; cases q')
    (simp_all add: dead_letter_key_def dead_letter_target_def q_redrive_policy_def q_attributes_def redrive_policy_def)

lemma untouched_move_dead_letters [keeps_other]:
  assumes "k \<noteq> key" "k \<noteq> dlq"
  shows "untouched k x (move_dead_letters env now key dlq rs)"
proof (induction rs)
  case (Cons r rs)
  show ?case unfolding move_dead_letters.simps Let_def
    by (intro keeps untouched_on_queue untouched_put_op Cons.IH assms)
qed (simp add: keeps)

lemma untouchedD: "untouched k (find_queue k w) m \<Longrightarrow> find_queue k (snd (m w)) = find_queue k w"
  by (simp add: keeps_inv_def)

lemma frame_bind:
  assumes "find_queue k (snd (m w)) = find_queue k w"
    and "\<And>x w'. m w = (Inr x, w') \<Longrightarrow> find_queue k (snd (f x w')) = find_queue k w'"
  shows "find_queue k (snd (bind_op m f w)) = find_queue k w"
  using assms by (auto simp: bind_op_def split: prod.split sum.split)

lemma untouched_receive_op: "k \<noteq> key \<Longrightarrow> untouched k x (receive_op env now key num wait timeout poll)"
  by (rule keeps_invI)
    (simp add: receive_op_def read_queue_def bind_op_def split_beta find_queue_set_queue split: option.split)

lemma receive_op_attributes:
  assumes "receive_op env now key num wait timeout poll w = (res, w')" "find_queue key w' = Some q'"
  shows "\<exists>q. find_queue key w = Some q \<and> q_attributes q' = q_attributes q"
proof (cases "find_queue key w")
  case None
  then show ?thesis using assms by (simp add: receive_op_def read_queue_def bind_op_def)
next
  case (Some q)
  then obtain q1 where "find_queue key w' = Some q1" "q_attributes q1 = q_attributes q"
    using assms(1) find_queue_set_same [OF Some] q_receive_attributes
    by (auto simp: receive_op_def read_queue_def bind_op_def Some split_beta)
  then show ?thesis using Some assms(2) by simp
qed

lemma untouched_dead_letters:
  assumes "k \<noteq> key" "\<And>q. find_queue key w = Some q \<Longrightarrow> dead_letter_key env q \<noteq> Some k"
  shows "find_queue k (snd (process_dead_letters env now ctx key dead w)) = find_queue k w"
proof (cases "dead = []")
  case False
  have "find_queue k (snd (bind_op (read_queue key) (\<lambda>q. bind_op (lift_op (dead_letter_target q)) (\<lambda>target.
      bind_op (require_queue_by_arn env (ctx_is_query ctx) target) (\<lambda>dlq. move_dead_letters env now key dlq dead))) w)) = find_queue k w"
  proof (intro frame_bind)
    fix q w1 target w2 dlq w3
    assume "read_queue key w = (Inr q, w1)" "lift_op (dead_letter_target q) w1 = (Inr target, w2)"
      and rq: "require_queue_by_arn env (ctx_is_query ctx) target w2 = (Inr dlq, w3)"
    then have q: "find_queue key w = Some q" "dead_letter_target q = Inr target"
      by (auto simp: read_queue_def run_ops split: option.splits)
    obtain d where d: "ext_parse_arn (env_ext env) target = Inr d"
        "require_queue env (arn_account d) (arn_region d) (arn_resource d) (ctx_is_query ctx) w2 = (Inr dlq, w3)"
      using rq unfolding require_queue_by_arn_def by (elim bind_op_InrE) (auto simp: run_ops)
    have "dead_letter_key env q = Some dlq" using q(2) d(1) require_queue_result [OF d(2)] by (simp add: dead_letter_key_def)
    then have "k \<noteq> dlq" using assms(2) q(1) by blast
    then show "find_queue k (snd (move_dead_letters env now key dlq dead w3)) = find_queue k w3"
      using assms(1) by (intro untouchedD untouched_move_dead_letters)
  qed (simp_all add: read_queue_def run_ops require_queue_by_arn_def untouchedD keeps keeps_other split: option.split)
  then show ?thesis using False by (simp add: process_dead_letters_def)
qed (simp add: process_dead_letters_def run_ops)

lemma frame_read:
  assumes "\<And>q. find_queue key w = Some q \<Longrightarrow> find_queue k (snd (f q w)) = find_queue k w"
  shows "find_queue k (snd (bind_op (read_queue key) f w)) = find_queue k w"
  using assms by (simp add: bind_op_def read_queue_def split: option.split)

lemma frame_lift:
  assumes "\<And>x. r = Inr x \<Longrightarrow> find_queue k (snd (f x w)) = find_queue k w"
  shows "find_queue k (snd (bind_op (lift_op r) f w)) = find_queue k w"
  using assms by (simp add: bind_op_def run_ops split: sum.split)

lemma frame_lift_pair:
  assumes "\<And>x y. r = Inr (x, y) \<Longrightarrow> find_queue k (snd (f x y w)) = find_queue k w"
  shows "find_queue k (snd (bind_op (lift_op r) (\<lambda>(x, y). f x y) w)) = find_queue k w"
  using assms by (auto simp: bind_op_def run_ops split: sum.split)

lemma frame_resolve:
  assumes "\<And>w'. (\<And>k. find_queue k w' = find_queue k w) \<Longrightarrow> find_queue k (snd (f (resolve_key ctx url) w')) = find_queue k w'"
  shows "find_queue k (snd (bind_op (resolve_queue env ctx url) f w)) = find_queue k w"
proof (rule frame_bind)
  show "find_queue k (snd (resolve_queue env ctx url w)) = find_queue k w" by (intro untouchedD keeps_other)
  fix key w' assume rq: "resolve_queue env ctx url w = (Inr key, w')"
  have "find_queue k w' = find_queue k w" for k using untouchedD [OF untouched_base(5), of k env ctx url w] rq by simp
  then show "find_queue k (snd (f key w')) = find_queue k w'" using assms resolve_queue_result [OF rq] by simp
qed

lemma receive_tail_untouched:
  assumes k: "k \<noteq> key" "\<And>q. find_queue key w = Some q \<Longrightarrow> dead_letter_key env q \<noteq> Some k"
  shows "find_queue k (snd (bind_op (receive_op env now key m wait timeout poll) (\<lambda>res.
        bind_op (process_dead_letters env now ctx key (dead_letter_messages res)) (\<lambda>_.
        bind_op (read_queue key) (\<lambda>q'.
        bind_op (lift_op (api_messages md5 names attr_names q' res)) (\<lambda>messages.
        bind_op (if_cloudwatch env (dispatch_metric_received q' (length messages))) (\<lambda>_.
        ret (if messages = [] then None else Some messages)))))) w)) = find_queue k w"
proof (intro frame_bind)
  show "find_queue k (snd (receive_op env now key m wait timeout poll w)) = find_queue k w"
    by (intro untouchedD untouched_receive_op k(1))
  fix res w2 assume res: "receive_op env now key m wait timeout poll w = (Inr res, w2)"
  show "find_queue k (snd (process_dead_letters env now ctx key (dead_letter_messages res) w2)) = find_queue k w2"
  proof (rule untouched_dead_letters [OF k(1)])
    fix q' assume "find_queue key w2 = Some q'"
    then show "dead_letter_key env q' \<noteq> Some k"
      using receive_op_attributes [OF res] dead_letter_key_attributes k(2) by metis
  qed
qed (simp_all add: read_queue_def run_ops if_cloudwatch_def dispatch_metric_received_def dispatch_sqs_metric_def split: option.split)

lemma receive_message_untouched:
  assumes "k \<notin> request_scope env ctx url (ReceiveMessage names sys attr_names num timeout wait_time) w"
  shows "find_queue k (snd (receive_message env now ctx url names sys attr_names num timeout wait_time w)) = find_queue k w"
proof -
  have k: "k \<noteq> resolve_key ctx url" "\<And>q. find_queue (resolve_key ctx url) w = Some q \<Longrightarrow> dead_letter_key env q \<noteq> Some k"
    using assms by auto
  show ?thesis
    unfolding receive_message_def
    by (intro frame_resolve frame_read frame_lift_pair frame_lift receive_tail_untouched k(1)) (metis k(2))
qed

lemma parse_queue_url_Nil: "parse_queue_url [] = Inl (ValueError ''Not a valid queue URL: '')"
  by code_simp

lemma delete_queue_untouched:
  assumes reg: "registry_ok w" and k: "key \<noteq> resolve_key ctx url" and url: "\<And>a n. parse_queue_url url \<noteq> Inr (a, Some [], n)"
  shows "find_queue key (snd (delete_queue env now ctx url w)) = find_queue key w"
  unfolding delete_queue_def
proof (rule frame_lift, clarify, unfold Let_def)
  fix a reg0 n assume p: "parse_queue_url url = Inr (a, reg0, n)"
  define r where "r = (case reg0 of Some r \<Rightarrow> r | None \<Rightarrow> ctx_region ctx)"
  have "url \<noteq> []" using p parse_queue_url_Nil by auto
  then have rk: "resolve_key ctx url = (a, r, n)"
    using p url by (auto simp: resolve_key_def resolve_queue_location_def truthy_def r_def split: option.splits)
  show "find_queue key (snd (bind_op (get_store_op env a (case reg0 of Some r \<Rightarrow> r | None \<Rightarrow> ctx_region ctx)) (\<lambda>_.
       bind_op (resolve_queue env ctx url) (\<lambda>key.
       bind_op (read_queue key) (\<lambda>q.
       bind_op (on_queue (a, case reg0 of Some r \<Rightarrow> r | None \<Rightarrow> ctx_region ctx, q_name q) (\<lambda>q'. (Inr (), q_shutdown q'))) (\<lambda>_.
       bind_op (modify_op (update_store a (case reg0 of Some r \<Rightarrow> r | None \<Rightarrow> ctx_region ctx) (\<lambda>st.
         st\<lparr>store_queues := dict_del (q_name q) (store_queues st), store_deleted := dict_set (q_name q) now (store_deleted st)\<rparr>))) (\<lambda>_.
       remove_all_queue_tags env q))))) w)) = find_queue key w"
    unfolding r_def [symmetric]
  proof (rule frame_bind)
    show "find_queue key (snd (get_store_op env a r w)) = find_queue key w" by (intro untouchedD keeps_other)
    fix st w1 assume g: "get_store_op env a r w = (Inr st, w1)"
    show "find_queue key (snd (bind_op (resolve_queue env ctx url) (\<lambda>key.
       bind_op (read_queue key) (\<lambda>q.
       bind_op (on_queue (a, r, q_name q) (\<lambda>q'. (Inr (), q_shutdown q'))) (\<lambda>_.
       bind_op (modify_op (update_store a r (\<lambda>st.
         st\<lparr>store_queues := dict_del (q_name q) (store_queues st), store_deleted := dict_set (q_name q) now (store_deleted st)\<rparr>))) (\<lambda>_.
       remove_all_queue_tags env q)))) w1)) = find_queue key w1"
    proof (intro frame_resolve frame_read)
      fix w2 q assume w2: "\<And>k. find_queue k w2 = find_queue k w1" "find_queue (resolve_key ctx url) w2 = Some q"
      have "find_queue k w1 = find_queue k w" for k using untouchedD [OF untouched_base(1), of k env a r w] g by simp
      then have "q_id q = (a, r, n)" using registry_okD [OF reg, of "(a, r, n)" q] w2 rk by simp
      then have n: "(a, r, q_name q) = (a, r, n)" by (simp add: q_id_def)
      have ne: "key \<noteq> (a, r, q_name q)" using k rk n by simp
      show "find_queue key (snd (bind_op (on_queue (a, r, q_name q) (\<lambda>q'. (Inr (), q_shutdown q'))) (\<lambda>_.
         bind_op (modify_op (update_store a r (\<lambda>st.
           st\<lparr>store_queues := dict_del (q_name q) (store_queues st), store_deleted := dict_set (q_name q) now (store_deleted st)\<rparr>))) (\<lambda>_.
         remove_all_queue_tags env q)) w2)) = find_queue key w2"
      proof (intro frame_bind)
        show "find_queue key (snd (on_queue (a, r, q_name q) (\<lambda>q'. (Inr (), q_shutdown q')) w2)) = find_queue key w2"
          by (intro untouchedD untouched_on_queue ne)
        show "find_queue key (snd (modify_op (update_store a r (\<lambda>st. st\<lparr>store_queues := dict_del (q_name q) (store_queues st),
            store_deleted := dict_set (q_name q) now (store_deleted st)\<rparr>)) w3)) = find_queue key w3" for w3
          using ne by (cases key) (auto simp: run_ops find_queue_def find_store_update split: option.splits)
        show "find_queue key (snd (remove_all_queue_tags env q w4)) = find_queue key w4" for w4
          unfolding remove_all_queue_tags_def by (intro untouchedD keeps keeps_other) simp_all
      qed
    qed
  qed
qed

lemma queue_exec_untouched:
  assumes reg: "registry_ok w" and scope: "key \<notin> request_scope env ctx url req w"
    and url: "\<And>a n. parse_queue_url url \<noteq> Inr (a, Some [], n)"
  shows "find_queue key (queue_exec env now ctx url req w) = find_queue key w"
proof -
  have assms: "key \<noteq> resolve_key ctx url" using scope by (cases req) simp_all
  note fin = untouchedD
  show ?thesis
  proof (cases req)
    case (SendMessage body delay attrs sys dedup grp)
    show ?thesis unfolding SendMessage queue_exec.simps send_message_def
      by (rule fin) (intro untouched_resolve keeps untouched_put_message assms)
  next
    case (SendMessageBatch entries)
    show ?thesis unfolding SendMessageBatch queue_exec.simps send_message_batch_def
      by (rule fin) (intro untouched_resolve keeps untouched_put_message assms)
  next
    case (TagQueue tags)
    show ?thesis unfolding TagQueue queue_exec.simps tag_queue_def tag_queue_store_def
      by (rule fin) (intro keeps keeps_other; simp)
  next
    case (UntagQueue keys)
    show ?thesis unfolding UntagQueue queue_exec.simps untag_queue_def
      by (rule fin) (intro keeps_other keeps; simp)
  next
    case ListQueueTags
    show ?thesis unfolding ListQueueTags queue_exec.simps list_queue_tags_def Let_def
      by (rule fin) (intro keeps_other keeps)
  next
    case (ChangeMessageVisibilityBatch entries)
    show ?thesis unfolding ChangeMessageVisibilityBatch queue_exec.simps change_message_visibility_batch_def
      by (rule fin) (intro untouched_resolve keeps untouched_on_queue assms)
  next
    case (DeleteMessageBatch entries)
    show ?thesis unfolding DeleteMessageBatch queue_exec.simps delete_message_batch_def
      by (rule fin) (intro untouched_resolve untouched_metrics keeps untouched_on_queue assms)
  next
    case (DeleteMessage h)
    show ?thesis unfolding DeleteMessage queue_exec.simps delete_message_def
      by (rule fin) (intro untouched_resolve untouched_metrics keeps untouched_on_queue assms)
  next
    case DeleteQueue
    show ?thesis unfolding DeleteQueue queue_exec.simps by (rule delete_queue_untouched [OF reg assms url])
  next
    case (ReceiveMessage names sys attr_names num timeout wait_time)
    show ?thesis
      unfolding ReceiveMessage queue_exec.simps by (rule receive_message_untouched [OF scope [unfolded ReceiveMessage]])
  next
    case ListDeadLetterSourceQueues
    show ?thesis unfolding ListDeadLetterSourceQueues queue_exec.simps list_dead_letter_source_queues_def
      by (rule fin) (intro keeps keeps_other)
  qed (simp only: queue_exec.simps change_message_visibility_def purge_queue_def set_queue_attributes_def
      get_queue_attributes_def provider_add_permission_def provider_remove_permission_def on_queue_result_def,
      rule fin, intro untouched_resolve keeps untouched_on_queue assms)+
qed

end
