(* ===== verification/SqsApi.thy ===== *)
theory SqsApi
  imports SqsRegistry
begin

text \<open>
  What the queue operations of the API do, stated on the registry: creating, finding, deleting, tagging
  and purging queues, sending messages, and the results of batches.
\<close>

subsection \<open>Stores that exist\<close>

lemma region_getitem_found:
  "region_getitem cfg cls r rb = (Inr st, rb') \<Longrightarrow> dict_get (rb_stores rb') r = Some st"
  by (auto simp: region_getitem_def Let_def split: if_splits option.splits)

lemma get_store_found: "get_store cfg cls a r b = (Inr st, b') \<Longrightarrow> find_store a r b' = Some st"
  by (auto simp: get_store_def find_store_def split: prod.splits sum.splits dest: region_getitem_found)

lemma get_store_op_found: "get_store_op env a r w = (Inr st, w') \<Longrightarrow> find_store a r (stores w') = Some st"
  by (auto simp: get_store_op_def dest: get_store_found split: prod.splits)

definition has_store :: "string \<Rightarrow> string \<Rightarrow> sqs_world \<Rightarrow> bool" where
  "has_store a r w \<longleftrightarrow> find_store a r (stores w) \<noteq> None"

lemma has_store_get_store: "keeps_inv (has_store a r) (get_store_op env a' r')"
proof (rule keeps_invI)
  fix w assume "has_store a r w"
  then show "has_store a r (snd (get_store_op env a' r' w))"
    using find_store_get_store [of a r "env_stores env" sqs_store_class a' r' "stores w"]
    by (auto simp: get_store_op_def has_store_def split_beta)
qed

lemma has_store_update [simp]: "has_store a r (update_store a' r' f w) = has_store a r w"
  by (auto simp: has_store_def find_store_update)

lemma find_queue_found:
  "find_store a r (stores w) = Some st \<Longrightarrow> find_queue (a, r, n) w = dict_get (store_queues st) n"
  by (simp add: find_queue_def)

lemma get_store_op_queues:
  assumes "get_store_op env a r w = (Inr st, w')"
  shows "dict_get (store_queues st) n = find_queue (a, r, n) w" "find_queue key w' = find_queue key w" "has_store a r w'"
  using find_queue_get_store [of key env a r w] find_queue_get_store [of "(a, r, n)" env a r w]
    find_queue_found [OF get_store_op_found [OF assms], of n] get_store_op_found [OF assms] assms by (simp_all add: has_store_def)

lemma require_queue_ok:
  assumes "require_queue env a r n iq w = (Inr key, w')"
  shows "key = (a, r, n)" "find_queue key w \<noteq> None" "find_queue key' w' = find_queue key' w" "has_store a r w'"
proof -
  obtain st where st: "get_store_op env a r w = (Inr st, w')" "dict_has (store_queues st) n" "key = (a, r, n)"
    using assms unfolding require_queue_def by (elim bind_op_InrE) (auto simp: run_ops split: if_splits)
  then show "key = (a, r, n)" "find_queue key' w' = find_queue key' w" "has_store a r w'"
    using get_store_op_queues [OF st(1)] by simp_all
  have "dict_get (store_queues st) n \<noteq> None" using st(2) unfolding dict_get_None by blast
  then show "find_queue key w \<noteq> None" using get_store_op_queues(1) [OF st(1), of n] st(3) by simp
qed

lemma resolve_queue_ok:
  assumes "resolve_queue env ctx url w = (Inr key, w')"
  shows "key = resolve_key ctx url" "find_queue key w \<noteq> None" "find_queue key' w' = find_queue key' w"
    "has_store (fst key) (fst (snd key)) w'"
proof -
  obtain a r n where l: "resolve_queue_location ctx None url = (a, r, n)" by (cases "resolve_queue_location ctx None url")
  have rq: "require_queue env a (if truthy r then the r else ctx_region ctx) n (ctx_is_query ctx) w = (Inr key, w')"
    using assms by (simp add: resolve_queue_def l)
  show "key = resolve_key ctx url" using assms by (rule resolve_queue_result)
  show "find_queue key w \<noteq> None" "find_queue key' w' = find_queue key' w" "has_store (fst key) (fst (snd key)) w'"
    using require_queue_ok [OF rq] by simp_all
qed

lemma read_queue_ok: "read_queue key w = (Inr q, w') \<longleftrightarrow> find_queue key w = Some q \<and> w' = w"
  by (auto simp: read_queue_def split: option.splits)

lemma on_queue_run:
  "find_queue key w = Some q \<Longrightarrow> on_queue key f w = (fst (f q), set_queue key (snd (f q)) w)"
  by (simp add: on_queue_def read_queue_def bind_op_def split_beta)

subsection \<open>Creating queues\<close>

lemma create_queue_cases:
  assumes "create_queue env now ctx name attrs tags w = (Inr url, w')"
  defines "key \<equiv> (ctx_account_id ctx, ctx_region ctx, name)"
  obtains (existing) q where "find_queue key w = Some q" "url = q_url (url_ctx env ctx) q"
      "\<And>k. find_queue k w' = find_queue k w"
    | (created) fifo attrs' q where "find_queue key w = None" "new_queue fifo now name (ctx_region ctx) (ctx_account_id ctx) attrs' tags = Inr q"
      "url = q_url (url_ctx env ctx) q" "find_queue key w' = Some q" "\<And>k. k \<noteq> key \<Longrightarrow> find_queue k w' = find_queue k w"
proof -
  let ?a = "ctx_account_id ctx" and ?r = "ctx_region ctx"
  define attrs' where "attrs' = (if truthy attrs \<and> dict_get (the attrs) ''Policy'' = Some []
                   then Some (dict_del ''Policy'' (the attrs)) else attrs)"
  define fifo where "fifo = (truthy attrs \<and>
            py_lower (case dict_get (the attrs) ''FifoQueue'' of Some v \<Rightarrow> v | None \<Rightarrow> ''false'') = ''true'')"
  obtain st w1 where st: "get_store_op env ?a ?r w = (Inr st, w1)"
    and rest: "(case dict_get (store_queues st) name of
             Some q \<Rightarrow> bind_op (lift_op (check_existing_queue attrs' q)) (\<lambda>_. ret (q_url (url_ctx env ctx) q))
           | None \<Rightarrow>
               (if env_delay_recently_deleted env \<and>
                   (case dict_get (store_deleted st) name of
                      Some t \<Rightarrow> t \<noteq> 0 \<and> t > now - RECENTLY_DELETED_TIMEOUT | None \<Rightarrow> False)
                then lift_op (Inl (ServiceException ''QueueDeletedRecently''
                       (''You must wait 60 seconds after deleting a queue before you can create '' @
                        ''another with the same name.'') False))
                else
                  bind_op (modify_op (update_store ?a ?r (expire_deleted now))) (\<lambda>_.
                  bind_op (lift_op (new_queue fifo now name ?r ?a attrs' tags)) (\<lambda>q.
                  bind_op (if truthy tags then tag_queue_store env q (the tags) else ret ()) (\<lambda>_.
                  bind_op (modify_op (set_queue (?a, ?r, name) q)) (\<lambda>_.
                  ret (q_url (url_ctx env ctx) q))))))) w1 = (Inr url, w')"
    using assms(1) unfolding create_queue_def Let_def attrs'_def fifo_def by (elim bind_op_InrE) blast
  note q1 = get_store_op_queues [OF st]
  show thesis
  proof (cases "dict_get (store_queues st) name")
    case (Some q)
    then have "w' = w1" "url = q_url (url_ctx env ctx) q"
      using rest by (auto simp: run_ops elim!: bind_op_InrE)
    then show thesis using existing [of q] Some q1 by (simp add: key_def)
  next
    case None
    define w2 where "w2 = update_store ?a ?r (expire_deleted now) w1"
    obtain q w3 where q: "new_queue fifo now name ?r ?a attrs' tags = Inr q"
      and tg: "(if truthy tags then tag_queue_store env q (the tags) else ret ()) w2 = (Inr (), w3)"
      and fin: "url = q_url (url_ctx env ctx) q" "w' = set_queue (?a, ?r, name) q w3"
      using rest None by (auto simp: run_ops w2_def split: if_splits elim!: bind_op_InrE)
    have same2: "find_queue k w2 = find_queue k w" for k
      using keeps_invD [OF untouched_update_store, of "expire_deleted now" k w1 "find_queue k w1" ?a ?r] q1(2)
      by (simp add: w2_def run_ops expire_deleted_def)
    have same3: "find_queue k w3 = find_queue k w" for k
    proof -
      have "untouched k (find_queue k w2) (if truthy tags then tag_queue_store env q (the tags) else ret ())"
        unfolding tag_queue_store_def by (intro keeps keeps_other; simp)
      then show ?thesis using tg same2 by (simp add: keeps_inv_def) (metis snd_conv)
    qed
    have "keeps_inv (has_store ?a ?r) (if truthy tags then tag_queue_store env q (the tags) else ret ())"
      unfolding tag_queue_store_def by (intro keeps has_store_get_store keeps_modify) simp
    then have "has_store ?a ?r w3" using tg q1(3) keeps_invD [of "has_store ?a ?r" _ w2] by (fastforce simp: w2_def)
    then show thesis
      using created [OF _ q fin(1)] None q1(1) [of name] same3
      by (simp add: key_def fin(2) find_queue_set_queue has_store_def)
  qed
qed

subsection \<open>Deleting queues\<close>

definition deleted_at :: "queue_key \<Rightarrow> sqs_world \<Rightarrow> time option" where
  "deleted_at key w =
     (case key of (a, r, n) \<Rightarrow>
        (case find_store a r (stores w) of Some st \<Rightarrow> dict_get (store_deleted st) n | None \<Rightarrow> None))"

definition tags_at :: "string \<Rightarrow> string \<Rightarrow> string \<Rightarrow> sqs_world \<Rightarrow> tag_map" where
  "tags_at a r arn w = (case find_store a r (stores w) of Some st \<Rightarrow> tags_get arn (store_tags st) | None \<Rightarrow> [])"

lemma get_store_op_views:
  "deleted_at key (snd (get_store_op env a r w)) = deleted_at key w"
  "tags_at a' r' arn (snd (get_store_op env a r w)) = tags_at a' r' arn w"
proof -
  show "deleted_at key (snd (get_store_op env a r w)) = deleted_at key w"
  proof (cases key)
    case (fields a' r' n)
    then show ?thesis
      using find_store_get_store [of a' r' "env_stores env" sqs_store_class a r "stores w"]
      by (auto simp: get_store_op_def deleted_at_def sqs_store_class_def split_beta)
  qed
  show "tags_at a' r' arn (snd (get_store_op env a r w)) = tags_at a' r' arn w"
    using find_store_get_store [of a' r' "env_stores env" sqs_store_class a r "stores w"]
    by (auto simp: get_store_op_def tags_at_def tags_get_def sqs_store_class_def split_beta)
qed

lemma deleted_at_update:
  "deleted_at (a', r', n) (update_store a r f w) =
    (if a' = a \<and> r' = r
     then (case find_store a r (stores w) of Some st \<Rightarrow> dict_get (store_deleted (f st)) n | None \<Rightarrow> None)
     else deleted_at (a', r', n) w)"
  by (simp add: deleted_at_def find_store_update split: option.split)

lemma tags_at_update:
  "tags_at a' r' arn (update_store a r f w) =
    (if a' = a \<and> r' = r
     then (case find_store a r (stores w) of Some st \<Rightarrow> tags_get arn (store_tags (f st)) | None \<Rightarrow> [])
     else tags_at a' r' arn w)"
  by (simp add: tags_at_def find_store_update split: option.split)

lemma remove_all_queue_tags_run:
  assumes "remove_all_queue_tags env q w = (res, w')"
  shows "find_queue key w' = find_queue key w" "deleted_at key w' = deleted_at key w"
    "res = Inr x \<Longrightarrow> tags_at (q_account q) (q_region q) (q_arn q) w' = []"
proof -
  let ?f = "\<lambda>st. st\<lparr>store_tags := tags_delete_all (q_arn q) (store_tags st)\<rparr>"
  obtain res1 w1 where g: "get_store_op env (q_account q) (q_region q) w = (res1, w1)" by fastforce
  have w1: "find_queue key w1 = find_queue key w" "deleted_at key w1 = deleted_at key w"
    using find_queue_get_store [of key env "q_account q" "q_region q" w] get_store_op_views(1) [of key env "q_account q" "q_region q" w] g
    by simp_all
  have r: "(case res1 of Inl e \<Rightarrow> w' = w1 \<and> res = Inl e | Inr st \<Rightarrow> w' = update_store (q_account q) (q_region q) ?f w1)"
    using assms g by (auto simp: remove_all_queue_tags_def bind_op_def run_ops split: sum.splits)
  obtain a' r' n where key: "key = (a', r', n)" by (cases key)
  have q: "find_queue key (update_store (q_account q) (q_region q) ?f w1) = find_queue key w1"
    by (auto simp: key find_queue_def find_store_update split: option.splits)
  have d: "deleted_at key (update_store (q_account q) (q_region q) ?f w1) = deleted_at key w1"
    by (auto simp: key deleted_at_def find_store_update split: option.splits)
  show "find_queue key w' = find_queue key w" "deleted_at key w' = deleted_at key w"
    using r q d w1 by (auto split: sum.splits)
  assume "res = Inr x"
  then obtain st where "res1 = Inr st" "w' = update_store (q_account q) (q_region q) ?f w1"
    using r by (auto split: sum.splits)
  then show "tags_at (q_account q) (q_region q) (q_arn q) w' = []"
    by (simp add: tags_at_update tags_get_def tags_delete_all_def split: option.split)
qed

lemma delete_queue_effect:
  assumes reg: "registry_ok w" and del: "delete_queue env now ctx url w = (Inr u, w')"
    and url: "parse_queue_url url = Inr (a, reg0, n)"
  defines "r \<equiv> (case reg0 of Some r \<Rightarrow> r | None \<Rightarrow> ctx_region ctx)"
  obtains q where "find_queue (resolve_key ctx url) w = Some q" "q_name q = n" "find_queue (a, r, n) w' = None"
    "\<And>k. k \<noteq> (a, r, n) \<Longrightarrow> find_queue k w' = find_queue k w"
    "deleted_at (a, r, n) w' = Some now" "tags_at (q_account q) (q_region q) (q_arn q) w' = []"
proof -
  let ?f = "\<lambda>m st. st\<lparr>store_queues := dict_del m (store_queues st), store_deleted := dict_set m now (store_deleted st)\<rparr>"
  obtain st1 w1 key w2 q w3 where g1: "get_store_op env a r w = (Inr st1, w1)"
    and g2: "resolve_queue env ctx url w1 = (Inr key, w2)" and g3: "find_queue key w2 = Some q"
    and g4: "on_queue (a, r, q_name q) (\<lambda>q'. (Inr (), q_shutdown q')) w2 = (Inr (), w3)"
    and g5: "remove_all_queue_tags env q (update_store a r (?f (q_name q)) w3) = (Inr u, w')"
    using del unfolding delete_queue_def Let_def url
    by (auto simp: read_queue_ok run_ops r_def elim!: bind_op_InrE)
  have w2: "find_queue k w2 = find_queue k w" for k
    using resolve_queue_ok(3) [OF g2] get_store_op_queues(2) [OF g1] by simp
  have key: "key = resolve_key ctx url" using resolve_queue_ok(1) [OF g2] .
  have ne: "url \<noteq> []" using url parse_queue_url_Nil by auto
  have "snd (snd key) = n" by (simp add: key resolve_key_def resolve_queue_location_def truthy_def ne url)
  moreover have "q_id q = key" using registry_okD [OF reg, of key q] g3 w2 by simp
  ultimately have name: "q_name q = n" by (auto simp: q_id_def)
  have w3: "find_store a r (stores w3) \<noteq> None" "\<And>k. k \<noteq> (a, r, n) \<Longrightarrow> find_queue k w3 = find_queue k w2"
  proof -
    obtain q' where q': "find_queue (a, r, n) w2 = Some q'"
      using g4 by (auto simp: name on_queue_def read_queue_def bind_op_def split: option.splits)
    then have "find_store a r (stores w2) \<noteq> None" by (auto simp: find_queue_def split: option.splits)
    moreover have w3: "w3 = set_queue (a, r, n) (q_shutdown q') w2" using g4 unfolding name on_queue_run [OF q'] by simp
    ultimately show "find_store a r (stores w3) \<noteq> None" by (auto simp: set_queue_def find_store_update)
    show "find_queue k w3 = find_queue k w2" if "k \<noteq> (a, r, n)" for k
      unfolding w3 find_queue_set_queue using that by (simp only: simp_thms if_False)
  qed
  note w' = remove_all_queue_tags_run [OF g5 [unfolded name]]
  have up: "find_queue k (update_store a r (?f n) w3) = find_queue k w3" if "k \<noteq> (a, r, n)" for k
    using that by (cases k) (auto simp: find_queue_def find_store_update split: option.splits)
  show thesis
  proof (rule that [of q])
    show "find_queue (resolve_key ctx url) w = Some q" using g3 key w2 by simp
    show "find_queue (a, r, n) w' = None"
      unfolding w'(1) by (simp add: find_queue_update_store split: option.split)
    show "find_queue k w' = find_queue k w" if "k \<noteq> (a, r, n)" for k
      unfolding w'(1) up [OF that] w3(2) [OF that] w2 ..
    show "deleted_at (a, r, n) w' = Some now"
      unfolding w'(2) using w3(1) by (auto simp: deleted_at_update)
    show "tags_at (q_account q) (q_region q) (q_arn q) w' = []" by (rule w'(3)) simp
  qed (rule name)
qed

text \<open>With the delay enabled, a name is refused for sixty seconds after its deletion.\<close>

lemma create_queue_deleted:
  assumes "find_queue (ctx_account_id ctx, ctx_region ctx, name) w = None" "env_delay_recently_deleted env"
    and "deleted_at (ctx_account_id ctx, ctx_region ctx, name) w = Some t" "t \<noteq> 0" "now < t + RECENTLY_DELETED_TIMEOUT"
    and ok: "fst (get_store_op env (ctx_account_id ctx) (ctx_region ctx) w) = Inr st"
  shows "fst (create_queue env now ctx name attrs tags w) =
    Inl (ServiceException ''QueueDeletedRecently'' (''You must wait 60 seconds after deleting a queue before you can create '' @
                        ''another with the same name.'') False)"
proof -
  obtain w1 where g: "get_store_op env (ctx_account_id ctx) (ctx_region ctx) w = (Inr st, w1)"
    using ok by (cases "get_store_op env (ctx_account_id ctx) (ctx_region ctx) w") auto
  have "dict_get (store_queues st) name = None" using get_store_op_queues(1) [OF g, of name] assms(1) by simp
  moreover have "dict_get (store_deleted st) name = Some t"
    using get_store_op_views(1) [of "(ctx_account_id ctx, ctx_region ctx, name)" env "ctx_account_id ctx" "ctx_region ctx" w]
      get_store_op_found [OF g] assms(3) g by (simp add: deleted_at_def)
  ultimately show ?thesis
    using assms(2,4,5) unfolding create_queue_def Let_def by (simp add: bind_op_def g run_ops)
qed

subsection \<open>Sending\<close>

lemma put_op_run:
  "find_queue key w = Some q \<Longrightarrow>
    put_op env now key msg dedup grp delay w =
      (fst (fst (q_put (env_ext env) now (now + env_tick env) (msg_seq w) msg dedup grp delay q)),
       (set_queue key (snd (fst (q_put (env_ext env) now (now + env_tick env) (msg_seq w) msg dedup grp delay q))) w)
         \<lparr>msg_seq := snd (q_put (env_ext env) now (now + env_tick env) (msg_seq w) msg dedup grp delay q)\<rparr>)"
  by (simp add: put_op_def read_queue_def bind_op_def split_beta)

lemma long_uid_find [simp]: "find_queue key (w\<lparr>uid_count := n\<rparr>) = find_queue key w"
  by simp

lemma put_message_run:
  assumes q: "find_queue key w = Some q"
    and put: "put_message env now key ctx body delay attrs sys dedup grp w = (Inr m, w')"
  obtains w1 msg r where "check_put_message q body attrs sys dedup grp = Inr ()" "find_queue key w1 = Some q"
    "MessageId msg = env_uid env (uid_count w)" "Body msg = body" "MD5OfBody msg = ext_md5 (env_ext env) body"
    "MessageAttributes msg = attrs" "ReceiptHandle msg = None"
    "create_message_attribute_hash (ext_md5 (env_ext env)) attrs = Inr (MD5OfMessageAttributes msg)"
    "fst (fst (q_put (env_ext env) now (now + env_tick env) (msg_seq w) msg dedup grp delay q)) = Inr r"
    "find_queue key w' = Some (snd (fst (q_put (env_ext env) now (now + env_tick env) (msg_seq w) msg dedup grp delay q)))"
    "m = q_obj (snd (fst (q_put (env_ext env) now (now + env_tick env) (msg_seq w) msg dedup grp delay q))) r"
    "uid_count w' = uid_count w + 1" "\<And>k. k \<noteq> key \<Longrightarrow> find_queue k w' = find_queue k w"
proof -
  define w0 where "w0 = w\<lparr>uid_count := uid_count w + 1\<rparr>"
  obtain system h w1 r q2 where chk: "check_put_message q body attrs sys dedup grp = Inr ()"
    and sys: "create_message_attributes now ctx sys = Inr system"
    and h: "create_message_attribute_hash (ext_md5 (env_ext env)) attrs = Inr h"
    and met: "if_cloudwatch env (dispatch_metric_message_sent q (length body)) w0 = (Inr (), w1)"
    and p: "put_op env now key \<lparr>MessageId = env_uid env (uid_count w), MD5OfBody = ext_md5 (env_ext env) body, Body = body,
        Attributes = Some system, MD5OfMessageAttributes = h, MessageAttributes = attrs, ReceiptHandle = None\<rparr>
        dedup grp delay w1 = (Inr r, w')"
    and m: "find_queue key w' = Some q2" "m = q_obj q2 r"
    using put q unfolding put_message_def
    by (auto simp: run_ops long_uid_def w0_def read_queue_ok elim!: bind_op_InrE)
  let ?msg = "\<lparr>MessageId = env_uid env (uid_count w), MD5OfBody = ext_md5 (env_ext env) body, Body = body,
        Attributes = Some system, MD5OfMessageAttributes = h, MessageAttributes = attrs, ReceiptHandle = None\<rparr>"
  have w1: "find_queue k w1 = find_queue k w" "msg_seq w1 = msg_seq w" "uid_count w1 = uid_count w + 1" for k
    using met by (auto simp: if_cloudwatch_def dispatch_metric_message_sent_def dispatch_sqs_metric_def run_ops w0_def
        split: if_splits elim!: bind_op_InrE)
  have w': "w' = (set_queue key (snd (fst (q_put (env_ext env) now (now + env_tick env) (msg_seq w) ?msg dedup grp delay q))) w1)
         \<lparr>msg_seq := snd (q_put (env_ext env) now (now + env_tick env) (msg_seq w) ?msg dedup grp delay q)\<rparr>"
    and r: "fst (fst (q_put (env_ext env) now (now + env_tick env) (msg_seq w) ?msg dedup grp delay q)) = Inr r"
    using p put_op_run [of key w1 q env now ?msg dedup grp delay] q w1 by simp_all
  have q2: "q2 = snd (fst (q_put (env_ext env) now (now + env_tick env) (msg_seq w) ?msg dedup grp delay q))"
    using m(1) w1(1) q by (simp add: w' find_queue_set_same)
  show thesis
  proof (rule that [OF chk, of w1 ?msg r])
    show "find_queue k w' = find_queue k w" if "k \<noteq> key" for k
      using that w1(1) [of k] by (simp add: w' find_queue_set_queue)
  qed (use q w1 h r m q2 w' in simp_all)
qed

lemma send_message_run:
  assumes snd: "send_message env now ctx url body delay attrs sys dedup grp w = (Inr res, w')"
  obtains w1 m hs where "find_queue (resolve_key ctx url) w \<noteq> None" "\<And>k. find_queue k w1 = find_queue k w"
    "uid_count w1 = uid_count w" "msg_seq w1 = msg_seq w"
    "put_message env now (resolve_key ctx url) ctx body delay attrs sys dedup grp w1 = (Inr m, w')"
    "res = sent_result m hs"
proof -
  obtain key w1 m h where rq: "resolve_queue env ctx url w = (Inr key, w1)"
    and p: "put_message env now key ctx body delay attrs sys dedup grp w1 = (Inr m, w')" "res = sent_result m h"
    using snd unfolding send_message_def by (auto simp: run_ops elim!: bind_op_InrE)
  have same: "uid_count w1 = uid_count w" "msg_seq w1 = msg_seq w"
    using rq by (auto simp: resolve_queue_def require_queue_def get_store_op_def run_ops split: prod.splits if_splits elim!: bind_op_InrE)
  note ok = resolve_queue_ok [OF rq]
  show thesis using that [of w1 m h] ok p same by (simp only: ok(1)) blast
qed

subsection \<open>Batches\<close>

lemma run_batch_partition:
  assumes "run_batch err act es w = ((ok, failed), w')"
    and "\<And>e w r w'. act e w = (Inr r, w') \<Longrightarrow> rid r = eid e" and "\<And>e x. error_id (err e x) = eid e"
  shows "mset (map rid ok) + mset (map error_id failed) = mset (map eid es)" "subseq (map rid ok) (map eid es)"
    "subseq (map error_id failed) (map eid es)"
proof -
  have "mset (map rid ok) + mset (map error_id failed) = mset (map eid es) \<and> subseq (map rid ok) (map eid es) \<and>
    subseq (map error_id failed) (map eid es)"
    using assms(1)
  proof (induction es arbitrary: w ok failed)
    case (Cons e es)
    obtain res w1 where a: "act e w = (res, w1)" by fastforce
    obtain ok' failed' w2 where b: "run_batch err act es w1 = ((ok', failed'), w2)" by (metis prod.exhaust)
    note IH = Cons.IH [of w1 ok' failed']
    show ?case
    proof (cases res)
      case (Inl x)
      then show ?thesis using Cons.prems a b IH assms(3) [of e x] by auto
    next
      case (Inr r)
      then show ?thesis using Cons.prems a b IH assms(2) [of e w r w1] by auto
    qed
  qed simp
  then show "mset (map rid ok) + mset (map error_id failed) = mset (map eid es)" "subseq (map rid ok) (map eid es)"
    "subseq (map error_id failed) (map eid es)" by blast+
qed

lemma assert_batch_entries_ok:
  "assert_batch_entries uw fifo dedup visited es = Inr () \<Longrightarrow>
    distinct (map item_id es) \<and> set (map item_id es) \<inter> set visited = {} \<and>
    (\<forall>e \<in> set es. py_len (item_id e) \<le> 80 \<and> re_points_match (is_entry_id_point uw) 1 None (item_id e) \<and>
      (dedup \<longrightarrow> truthy (item_deduplication_id e)) \<and> (fifo \<longrightarrow> truthy (item_group_id e)))"
proof (induction es arbitrary: visited)
  case (Cons e es)
  have step: "assert_batch_entries uw fifo dedup (item_id e # visited) es = Inr ()" "item_id e \<notin> set visited"
    "py_len (item_id e) \<le> 80" "re_points_match (is_entry_id_point uw) 1 None (item_id e)"
    "dedup \<longrightarrow> truthy (item_deduplication_id e)" "fifo \<longrightarrow> truthy (item_group_id e)"
    using Cons.prems by (simp_all split: if_splits)
  show ?case using Cons.IH [OF step(1)] step(2-) by auto
qed simp

lemma assert_batch_entries_complete:
  "distinct (map item_id es) \<Longrightarrow> set (map item_id es) \<inter> set visited = {} \<Longrightarrow>
    (\<And>e. e \<in> set es \<Longrightarrow> py_len (item_id e) \<le> 80 \<and> re_points_match (is_entry_id_point uw) 1 None (item_id e) \<and>
      (dedup \<longrightarrow> truthy (item_deduplication_id e)) \<and> (fifo \<longrightarrow> truthy (item_group_id e))) \<Longrightarrow>
    assert_batch_entries uw fifo dedup visited es = Inr ()"
proof (induction es arbitrary: visited)
  case (Cons e es)
  have "assert_batch_entries uw fifo dedup (item_id e # visited) es = Inr ()"
    using Cons.prems by (intro Cons.IH) auto
  then show ?case using Cons.prems(2) Cons.prems(3) [of e] by auto
qed simp

lemma assert_batch_iff:
  "assert_batch uw fifo dedup None es = Inr () \<longleftrightarrow>
    1 \<le> length es \<and> length es \<le> 10 \<and> distinct (map item_id es) \<and>
    (\<forall>e \<in> set es. py_len (item_id e) \<le> 80 \<and> re_points_match (is_entry_id_point uw) 1 None (item_id e) \<and>
      (dedup \<longrightarrow> truthy (item_deduplication_id e)) \<and> (fifo \<longrightarrow> truthy (item_group_id e)))"
proof -
  have "assert_batch_entries uw fifo dedup [] es = Inr () \<longleftrightarrow> distinct (map item_id es) \<and>
    (\<forall>e \<in> set es. py_len (item_id e) \<le> 80 \<and> re_points_match (is_entry_id_point uw) 1 None (item_id e) \<and>
      (dedup \<longrightarrow> truthy (item_deduplication_id e)) \<and> (fifo \<longrightarrow> truthy (item_group_id e)))"
    using assert_batch_entries_ok [of uw fifo dedup "[]" es] assert_batch_entries_complete [of es "[]" uw dedup fifo]
    by auto
  moreover have "1 \<le> length es \<longleftrightarrow> es \<noteq> []" by (cases es) auto
  moreover have "int (length es) > MAX_NUMBER_OF_MESSAGES \<longleftrightarrow> \<not> length es \<le> 10" by (auto simp: MAX_NUMBER_OF_MESSAGES_def)
  ultimately show ?thesis by (simp add: assert_batch_def Let_def)
qed

subsection \<open>Requests that reach their queue\<close>

definition valid_key :: "sqs_env \<Rightarrow> string \<Rightarrow> string \<Rightarrow> bool" where
  "valid_key env a r \<longleftrightarrow> account_id_ok (env_stores env) a \<and> region_ok (env_stores env) True ''sqs'' r"

lemma get_store_op_valid:
  assumes "stores_ok w"
  shows "(\<exists>st. fst (get_store_op env a r w) = Inr st) \<longleftrightarrow> valid_key env a r"
proof -
  have k: "key_ok (env_stores env) (stores w) a r \<longleftrightarrow> valid_key env a r"
    using assms by (auto simp: key_ok_def valid_key_def stores_ok_def)
  have u: "bundle_uniform (stores w)" using assms by (simp add: stores_ok_def)
  have f: "fst (get_store_op env a r w) = fst (get_store (env_stores env) sqs_store_class a r (stores w))"
    by (simp add: get_store_op_def split_beta)
  show ?thesis
  proof (cases "key_ok (env_stores env) (stores w) a r")
    case True
    then show ?thesis using get_store_ok [OF u True, where cls = sqs_store_class] k f by (metis fst_conv)
  next
    case False
    then show ?thesis using get_store_invalid [OF u False, where cls = sqs_store_class] k f by auto
  qed
qed

lemma require_queue_total:
  assumes "stores_ok w" "valid_key env a r" "find_queue (a, r, n) w = Some q"
  obtains w' where "require_queue env a r n iq w = (Inr (a, r, n), w')"
proof -
  obtain st w' where g: "get_store_op env a r w = (Inr st, w')"
    using get_store_op_valid [OF assms(1), of env a r] assms(2) by (metis prod.collapse)
  have "dict_get (store_queues st) n = Some q" using get_store_op_queues(1) [OF g, of n] assms(3) by simp
  then have "dict_has (store_queues st) n" unfolding dict_has_get by blast
  then have "require_queue env a r n iq w = (Inr (a, r, n), w')"
    unfolding require_queue_def bind_op_def by (simp add: g run_ops)
  then show thesis by (rule that)
qed

lemma resolve_queue_total:
  assumes "stores_ok w" "resolve_key ctx url = (a, r, n)" "valid_key env a r" "find_queue (a, r, n) w = Some q"
  obtains w' where "resolve_queue env ctx url w = (Inr (a, r, n), w')"
proof -
  obtain r0 where loc: "resolve_queue_location ctx None url = (a, r0, n)" "r = (if truthy r0 then the r0 else ctx_region ctx)"
    using assms(2) by (cases "resolve_queue_location ctx None url") (simp add: resolve_key_def)
  obtain w' where "require_queue env a r n (ctx_is_query ctx) w = (Inr (a, r, n), w')"
    using require_queue_total [OF assms(1,3,4)] by blast
  then have "resolve_queue env ctx url w = (Inr (a, r, n), w')" by (simp add: resolve_queue_def loc)
  then show thesis by (rule that)
qed

lemma create_queue_valid:
  assumes "stores_ok w" "create_queue env now ctx name attrs tags w = (Inr url, w')"
  shows "valid_key env (ctx_account_id ctx) (ctx_region ctx)"
proof -
  obtain st w1 where "get_store_op env (ctx_account_id ctx) (ctx_region ctx) w = (Inr st, w1)"
    using assms(2) unfolding create_queue_def Let_def by (elim bind_op_InrE) blast
  then show ?thesis using get_store_op_valid [OF assms(1), of env "ctx_account_id ctx" "ctx_region ctx"] by auto
qed

lemma get_queue_url_run:
  assumes "stores_ok w" "valid_key env (ctx_account_id ctx) (ctx_region ctx)"
    and "find_queue (ctx_account_id ctx, ctx_region ctx, name) w = Some q"
  shows "fst (get_queue_url env ctx name None w) = Inr (q_url (url_ctx env ctx) q)"
proof -
  obtain w' where r: "require_queue env (ctx_account_id ctx) (ctx_region ctx) name (ctx_is_query ctx) w =
      (Inr (ctx_account_id ctx, ctx_region ctx, name), w')"
    using require_queue_total [OF assms] by blast
  have "find_queue (ctx_account_id ctx, ctx_region ctx, name) w' = Some q"
    using require_queue_ok(3) [OF r] assms(3) by simp
  then show ?thesis by (simp add: get_queue_url_def truthy_def bind_op_def r read_queue_def run_ops)
qed

subsection \<open>Tags and purging\<close>

lemma find_queue_update_keep:
  "(\<And>st. store_queues (f st) = store_queues st) \<Longrightarrow> find_queue k (update_store a r f w) = find_queue k w"
  by (cases k) (auto simp: find_queue_def find_store_update split: option.splits)

lemma tag_queue_run:
  assumes "registry_ok w" "tag_queue env ctx url tags w = (Inr u, w')" "tags \<noteq> []"
  obtains q where "find_queue (resolve_key ctx url) w = Some q" "find_queue (resolve_key ctx url) w' = Some q"
    "tags_at (q_account q) (q_region q) (q_arn q) w' = dict_update (tags_at (q_account q) (q_region q) (q_arn q) w) tags"
proof -
  obtain key w1 q where rq: "resolve_queue env ctx url w = (Inr key, w1)" and q: "find_queue key w1 = Some q"
    and tg: "tag_queue_store env q tags w1 = (Inr u, w')"
    using assms(2,3) unfolding tag_queue_def by (auto simp: read_queue_ok elim!: bind_op_InrE)
  obtain st w2 where g: "get_store_op env (q_account q) (q_region q) w1 = (Inr st, w2)"
    and w': "w' = update_store (q_account q) (q_region q) (\<lambda>st. st\<lparr>store_tags := tags_update (q_arn q) tags (store_tags st)\<rparr>) w2"
    using tg unfolding tag_queue_store_def by (auto simp: run_ops elim!: bind_op_InrE)
  note ok = resolve_queue_ok [OF rq]
  have t1: "tags_at (q_account q) (q_region q) (q_arn q) w1 = tags_at (q_account q) (q_region q) (q_arn q) w"
    using rq get_store_op_views(2) by (auto simp: resolve_queue_def require_queue_def bind_op_def run_ops split: prod.splits
        sum.splits if_splits) (metis snd_conv)+
  have t2: "tags_at (q_account q) (q_region q) (q_arn q) w2 = tags_at (q_account q) (q_region q) (q_arn q) w1"
    using get_store_op_views(2) [of "q_account q" "q_region q" "q_arn q" env "q_account q" "q_region q" w1] g by simp
  have st: "find_store (q_account q) (q_region q) (stores w2) = Some st" by (rule get_store_op_found [OF g])
  show thesis
  proof (rule that)
    show "find_queue (resolve_key ctx url) w = Some q" using q ok by simp
    show "find_queue (resolve_key ctx url) w' = Some q"
      using q ok(1) get_store_op_queues(2) [OF g, of key] unfolding w' by (simp add: find_queue_update_keep)
    show "tags_at (q_account q) (q_region q) (q_arn q) w' = dict_update (tags_at (q_account q) (q_region q) (q_arn q) w) tags"
      using st t1 t2 by (simp add: w' tags_at_update tags_get_update) (simp add: tags_at_def)
  qed
qed

definition q_messages :: "queue \<Rightarrow> ref list" where
  "q_messages q = (case q of Std s \<Rightarrow> visible s @ inflight s @ delayed s | Fifo f \<Rightarrow> fifo_waiting f @ inflight f @ delayed f)"

lemma q_clear_empty: "q_messages (q_clear now q) = []" "q_purge_timestamp (q_clear now q) = Some now"
  by (simp_all add: q_messages_def q_clear_def standard_clear_def fifo_clear_def clear_base_def fifo_waiting_def
      q_purge_timestamp_def split: queue.split)

lemma purge_queue_run:
  assumes "purge_queue env now ctx url w = (res, w')" "find_queue (resolve_key ctx url) w = Some q"
    and "stores_ok w" "valid_key env (fst (resolve_key ctx url)) (fst (snd (resolve_key ctx url)))"
  shows "if env_delay_purge_retry env \<and> (\<exists>t. q_purge_timestamp q = Some t \<and> t \<noteq> 0 \<and> now < t + 60)
    then exn_name (projl res) = ''PurgeQueueInProgress'' \<and> isl res \<and> find_queue (resolve_key ctx url) w' = Some q
    else res = Inr () \<and> find_queue (resolve_key ctx url) w' = Some (q_clear now q)"
proof -
  obtain a r n where k: "resolve_key ctx url = (a, r, n)" by (cases "resolve_key ctx url")
  have v: "valid_key env a r" "find_queue (a, r, n) w = Some q" using assms(2,4) k by simp_all
  obtain w1 where rq: "resolve_queue env ctx url w = (Inr (a, r, n), w1)"
    by (rule resolve_queue_total [OF assms(3) k v])
  have q: "find_queue (a, r, n) w1 = Some q" using resolve_queue_ok(3) [OF rq] assms(2) k by simp
  define busy where "busy = (env_delay_purge_retry env \<and> (\<exists>t. q_purge_timestamp q = Some t \<and> t \<noteq> 0 \<and> now < t + 60))"
  have b: "busy \<longleftrightarrow> env_delay_purge_retry env \<and>
      (case q_purge_timestamp q of Some t \<Rightarrow> t \<noteq> 0 \<and> t + 60 > now | None \<Rightarrow> False)"
    by (auto simp: busy_def split: option.splits)
  have set: "find_queue (a, r, n) (set_queue (a, r, n) q' w1) = Some q'" for q' by (rule find_queue_set_same [OF q])
  show ?thesis
  proof (cases busy)
    case True
    then have "res = Inl (ServiceException ''PurgeQueueInProgress''
        (''Only one PurgeQueue operation on '' @ q_name q @ '' is allowed every 60 seconds.'') False)" "w' = set_queue (a, r, n) q w1"
      using assms(1) unfolding purge_queue_def b by (simp_all add: bind_op_def rq on_queue_run [OF q])
    then show ?thesis using True set unfolding busy_def [symmetric] k by simp
  next
    case False
    then have "res = Inr ()" "w' = set_queue (a, r, n) (q_clear now q) w1"
      using assms(1) unfolding purge_queue_def b by (simp_all only: bind_op_def rq on_queue_run [OF q] prod.case sum.case if_False fst_conv snd_conv prod.inject)
    then show ?thesis using False set unfolding busy_def [symmetric] k by simp
  qed
qed

lemma standard_put_adds:
  assumes inv: "standard_inv s" and put: "standard_put now later msg timeout dedup grp delay s = (Inr r, s')"
    and new: "MessageId msg \<notin> mid s ` set (delayed s)"
  shows "r = next_ref s" "mset (visible s') + mset (delayed s') + mset (inflight s') =
      add_mset r (mset (visible s) + mset (delayed s) + mset (inflight s))"
    "\<exists>attrs. message (obj s' r) = msg\<lparr>Attributes := attrs\<rparr>" "x < next_ref s \<Longrightarrow> obj s' x = obj s x"
proof -
  from put have "r = next_ref s \<and> mset (visible s') + mset (delayed s') + mset (inflight s') =
      add_mset r (mset (visible s) + mset (delayed s) + mset (inflight s)) \<and>
      (\<exists>attrs. message (obj s' r) = msg\<lparr>Attributes := attrs\<rparr>) \<and> (x < next_ref s \<longrightarrow> obj s' x = obj s x)"
  proof (cases rule: standard_put_cases)
    case (2 v d m r' q1)
    then have q1: "q1 = s\<lparr>objs := (objs s)(next_ref s := m), next_ref := Suc (next_ref s)\<rparr>" "r = next_ref s"
      by (auto simp: new_obj_def)
    have old: "y < next_ref s" if "y \<in> set (delayed s)" for y
      using that queue_wf_ref [of "visible s" s y] inv by (auto simp: standard_inv_def)
    have idm: "message_id m = MessageId msg" using 2(4) by (simp add: sqs_message_init_def)
    have "mid q1 y \<noteq> mid q1 r" if "y \<in> set (delayed s)" for y
    proof -
      have "mid s y \<in> mid s ` set (delayed s)" using that by (rule imageI)
      then have "mid s y \<noteq> MessageId msg" using new by metis
      then show ?thesis using old [OF that] idm by (simp add: q1)
    qed
    then have "\<not> in_by_id q1 r (delayed q1)" by (simp add: in_by_id_def list_ex_iff q1(1))
    then have s': "s' = (if is_delayed later m then q1\<lparr>delayed := delayed s @ [r]\<rparr>
        else q1\<lparr>visible := heappush (msg_priority q1) (visible s) r\<rparr>)"
      using 2(7) 2(6) q1 by (auto simp: add_delayed_message_def add_by_id_def standard_put_message_def)
    have "message m = msg\<lparr>Attributes := Attributes (message m)\<rparr>" using 2(4) by (simp add: sqs_message_init_def)
    then show ?thesis by (auto simp: s' q1)
  qed simp
  then show "r = next_ref s" "mset (visible s') + mset (delayed s') + mset (inflight s') =
      add_mset r (mset (visible s) + mset (delayed s) + mset (inflight s))"
    "\<exists>attrs. message (obj s' r) = msg\<lparr>Attributes := attrs\<rparr>" "x < next_ref s \<Longrightarrow> obj s' x = obj s x" by blast+
qed

end
