(* ===== verification/SqsUrls.thy ===== *)
theory SqsUrls
  imports SqsApi
begin

text \<open>
  Queue URLs: the URL a queue is given under each endpoint strategy leads back to its account, region
  and name.
\<close>

definition url_host_ok :: "string \<Rightarrow> bool" where
  "url_host_ok host \<longleftrightarrow> host \<noteq> [] \<and> url_plain host \<and> \<not> py_contains host ''.queue.'' \<and> \<not> py_startswith host ''queue.''"

definition url_region_ok :: "string \<Rightarrow> bool" where
  "url_region_ok reg \<longleftrightarrow> url_word reg \<and> CHR ''.'' \<notin> set reg \<and> reg \<noteq> ''sqs'' "

lemma url_plain_append [simp]: "url_plain (s @ t) \<longleftrightarrow> url_plain s \<and> url_plain t"
  by (simp add: url_plain_def)

lemma url_plain_last: "url_plain s \<Longrightarrow> s \<noteq> [] \<Longrightarrow> last s \<noteq> CHR ''/''"
  using last_in_set [of s] by (auto simp: url_plain_def list_all_iff)

lemma parse_two_parts:
  assumes "scheme \<noteq> []" "list_all is_lower_char scheme" "url_plain netloc" "url_word acc" "url_word name"
  shows "parse_queue_url (scheme @ ''://'' @ netloc @ ''/'' @ acc @ ''/'' @ name) =
    (if py_startswith netloc ''sqs.'' then Inr (acc, Some (py_split CHR ''.'' netloc ! 1), name)
     else if py_contains netloc ''.queue.'' then
       (if py_split CHR ''.'' netloc ! 1 \<noteq> ''queue''
        then Inl (ValueError (''Not a valid queue URL: '' @ scheme @ ''://'' @ netloc @ ''/'' @ acc @ ''/'' @ name))
        else Inr (acc, Some (py_split CHR ''.'' netloc ! 0), name))
     else if py_startswith netloc ''queue'' then Inr (acc, Some ''us-east-1'', name)
     else Inr (acc, None, name))"
proof -
  have ws: "[acc, name] \<noteq> []" "\<forall>w \<in> set [acc, name]. url_word w" using assms by auto
  note p = parse_queue_url_parts [OF assms(1-3) ws]
  have j: "py_join ''/'' [acc, name] = acc @ ''/'' @ name" by simp
  show ?thesis
    unfolding parse_queue_url_def Let_def p(1) [unfolded j] url_parts.simps p(2) [unfolded j] by simp
qed

lemma parse_four_parts:
  assumes "scheme \<noteq> []" "list_all is_lower_char scheme" "url_plain netloc" "url_word reg" "url_word acc" "url_word name"
  shows "parse_queue_url (scheme @ ''://'' @ netloc @ ''/queue/'' @ reg @ ''/'' @ acc @ ''/'' @ name) = Inr (acc, Some reg, name)"
proof -
  have ws: "[''queue'', reg, acc, name] \<noteq> []" "\<forall>w \<in> set [''queue'', reg, acc, name]. url_word w"
    using assms by (auto simp: url_word_def url_plain_def)
  note p = parse_queue_url_parts [OF assms(1-3) ws]
  have j: "''/'' @ py_join ''/'' [''queue'', reg, acc, name] = ''/queue/'' @ reg @ ''/'' @ acc @ ''/'' @ name" by simp
  show ?thesis
    unfolding parse_queue_url_def Let_def p(1) [unfolded j] url_parts.simps p(2) [unfolded j] by simp
qed

lemma py_contains_append: "py_contains t p \<Longrightarrow> py_contains (s @ t) p"
  by (induction s) simp_all

lemma region_not_sqs:
  assumes "CHR ''.'' \<notin> set r" "r \<noteq> ''sqs''"
  shows "\<not> py_startswith (r @ ''.queue.'' @ h) ''sqs.''"
proof
  assume "py_startswith (r @ ''.queue.'' @ h) ''sqs.''"
  then obtain t where "r @ CHR ''.'' # ''queue.'' @ h = ''sqs'' @ CHR ''.'' # t" by (auto simp: prefix_def)
  then have "py_split CHR ''.'' (r @ CHR ''.'' # ''queue.'' @ h) = py_split CHR ''.'' (''sqs'' @ CHR ''.'' # t)" by (simp only:)
  then show False using py_split_append [OF assms(1)] py_split_append [of "CHR ''.''" "''sqs''" t] assms(2) by simp
qed

lemma queue_url_parses:
  assumes ctx: "cfg_strategy ctx \<in> {Standard, Domain, PathStrategy}" "url_host_ok (cfg_host_and_port ctx)"
    and scheme: "cfg_protocol ctx \<noteq> []" "list_all is_lower_char (cfg_protocol ctx)"
      "request_scheme ctx \<noteq> []" "list_all is_lower_char (request_scheme ctx)"
    and q: "url_region_ok (region q)" "url_word (account_id q)" "url_word (queue_name q)"
  shows "parse_queue_url (queue_url ctx q) = Inr (account_id q, Some (region q), queue_name q)"
proof -
  let ?h = "cfg_host_and_port ctx" and ?r = "region q"
  have h: "?h \<noteq> []" "url_plain ?h" "last ?h \<noteq> CHR ''/''"
    using ctx(2) url_plain_last by (auto simp: url_host_ok_def)
  have r: "url_word ?r" "url_plain ?r" "?r \<noteq> []" "CHR ''.'' \<notin> set ?r" "?r \<noteq> ''sqs''"
    using q(1) by (auto simp: url_region_ok_def url_word_def)
  have strip: "py_rstrip CHR ''/'' (s @ ?h) = s @ ?h" "py_rstrip CHR ''/'' (s @ ?r) = s @ ?r" for s
    using h r url_plain_last by (auto intro!: py_rstrip_id)
  consider "cfg_strategy ctx = Standard" | "cfg_strategy ctx = PathStrategy"
    | "cfg_strategy ctx = Domain" "?r = ''us-east-1''" | "cfg_strategy ctx = Domain" "?r \<noteq> ''us-east-1''"
    using ctx(1) by blast
  then show ?thesis
  proof cases
    case 1
    have u: "queue_url ctx q = request_scheme ctx @ ''://'' @ (''sqs.'' @ ?r @ ''.'' @ ?h) @ ''/'' @ account_id q @ ''/'' @ queue_name q"
      using 1 strip(1) [of "request_scheme ctx @ ''://sqs.'' @ ?r @ ''.''"] by (simp add: queue_url_def)
    have pl: "url_plain (''sqs.'' @ ?r @ ''.'' @ ?h)" using h r by (simp add: url_plain_def)
    have sp: "py_split CHR ''.'' (''sqs.'' @ ?r @ ''.'' @ ?h) ! 1 = ?r"
      using py_split_append [of "CHR ''.''" "''sqs''" "?r @ ''.'' @ ?h"] py_split_append [of "CHR ''.''" ?r ?h] r by simp
    show ?thesis unfolding u parse_two_parts [OF scheme(3,4) pl q(2,3)] sp by simp
  next
    case 2
    have u: "queue_url ctx q = cfg_protocol ctx @ ''://'' @ ?h @ ''/queue/'' @ ?r @ ''/'' @ account_id q @ ''/'' @ queue_name q"
      using 2 strip(2) [of "cfg_protocol ctx @ ''://'' @ ?h @ ''/queue/''"] by (simp add: queue_url_def)
    show ?thesis unfolding u by (rule parse_four_parts [OF scheme(1,2) h(2) r(1) q(2,3)])
  next
    case 3
    have u: "queue_url ctx q = cfg_protocol ctx @ ''://'' @ (''queue.'' @ ?h) @ ''/'' @ account_id q @ ''/'' @ queue_name q"
      using 3 strip(1) [of "cfg_protocol ctx @ ''://queue.''"] by (simp add: queue_url_def)
    have pl: "url_plain (''queue.'' @ ?h)" using h by (simp add: url_plain_def)
    have nc: "\<not> py_contains (''queue.'' @ ?h) ''.queue.''" using ctx(2) by (simp add: url_host_ok_def)
    have ns: "\<not> py_startswith (''queue.'' @ ?h) ''sqs.''" "py_startswith (''queue.'' @ ?h) ''queue''" by simp_all
    show ?thesis unfolding u parse_two_parts [OF scheme(1,2) pl q(2,3)] using nc ns 3(2) by (simp only: if_False if_True)
  next
    case 4
    have u: "queue_url ctx q = cfg_protocol ctx @ ''://'' @ (?r @ ''.queue.'' @ ?h) @ ''/'' @ account_id q @ ''/'' @ queue_name q"
      using 4 strip(1) [of "cfg_protocol ctx @ ''://'' @ ?r @ ''.queue.''"] by (simp add: queue_url_def)
    have pl: "url_plain (?r @ ''.queue.'' @ ?h)" using h r by (simp add: url_plain_def)
    have c: "py_contains (?r @ ''.queue.'' @ ?h) ''.queue.''" by (rule py_contains_append) simp
    have ns: "\<not> py_startswith (?r @ ''.queue.'' @ ?h) ''sqs.''" using r(4,5) by (rule region_not_sqs)
    have sp: "py_split CHR ''.'' (?r @ ''.queue.'' @ ?h) = ?r # ''queue'' # py_split CHR ''.'' ?h"
      using py_split_append [of "CHR ''.''" ?r "''queue.'' @ ?h"] py_split_append [of "CHR ''.''" "''queue''" ?h] r by simp
    show ?thesis unfolding u parse_two_parts [OF scheme(1,2) pl q(2,3)] sp using c ns by simp
  qed
qed

text \<open>With the strategy \<open>off\<close> the URL has the account and the name but no region.\<close>

lemma legacy_url_parses:
  assumes ctx: "cfg_strategy ctx = LegacyStrategy" "url_host_ok (cfg_host_and_port ctx)"
    and host: "\<not> py_startswith (cfg_host_and_port ctx) ''sqs.''" "\<not> py_startswith (cfg_host_and_port ctx) ''queue''"
    and scheme: "cfg_protocol ctx \<noteq> []" "list_all is_lower_char (cfg_protocol ctx)"
    and q: "url_word (account_id q)" "url_word (queue_name q)"
  shows "parse_queue_url (queue_url ctx q) = Inr (account_id q, None, queue_name q)"
proof -
  let ?h = "cfg_host_and_port ctx"
  have h: "?h \<noteq> []" "url_plain ?h" "last ?h \<noteq> CHR ''/''" "\<not> py_contains ?h ''.queue.''"
    using ctx(2) url_plain_last by (auto simp: url_host_ok_def)
  have "py_rstrip CHR ''/'' ((cfg_protocol ctx @ ''://'') @ ?h) = (cfg_protocol ctx @ ''://'') @ ?h"
    using h by (auto intro!: py_rstrip_id)
  then have u: "queue_url ctx q = cfg_protocol ctx @ ''://'' @ ?h @ ''/'' @ account_id q @ ''/'' @ queue_name q"
    using ctx(1) by (simp add: queue_url_def)
  show ?thesis unfolding u parse_two_parts [OF scheme h(2) q] using h(4) host by simp
qed

end
