(* ===== verification/SqsApiSpec.thy ===== *)
theory SqsApiSpec
  imports SqsUrls SqsStandardRun
begin

text \<open>
  The properties of the API operations, each with an instance on a small service: one region, one account, and
  a queue named \<open>q\<close>.
\<close>

subsection \<open>A small service\<close>

definition api_ext :: externals where
  "api_ext = \<lparr>ext_parse_arn = split_arn, ext_md5 = (\<lambda>s. s), ext_sha256 = (\<lambda>s. s), ext_str_float = (\<lambda>t. ''1.5'')\<rparr>"

definition api_env :: sqs_env where
  "api_env =
     \<lparr>env_ext = api_ext, env_uid = (\<lambda>n. ''id'' @ replicate n CHR ''x''),
      env_stores = \<lparr>allow_nonstandard_regions = False, valid_regions_for_service = (\<lambda>_. [''us-east-1'']), unicode_digit = (\<lambda>_. False)\<rparr>,
      env_protocol = ''http'', env_host_and_port = ''localhost:4566'', env_strategy = PathStrategy,
      env_delay_recently_deleted = True, env_delay_purge_retry = True, env_disable_max_number_of_messages = False,
      env_enable_retention_period = False, env_cloudwatch_disabled = False, env_tick = 1/1000,
      env_operation_names = [''SendMessage''], env_unicode_word = (\<lambda>_. False)\<rparr>"

definition api_ctx :: request_context where
  "api_ctx =
     \<lparr>ctx_account_id = ''000000000000'', ctx_region = ''us-east-1'', ctx_is_query = False, ctx_base_url = [],
      ctx_scheme = ''http'', ctx_host = ''localhost:4566'', ctx_trace_id = None, ctx_message_count = None, ctx_wait_time = None\<rparr>"

definition api_w0 :: sqs_world where
  "api_w0 = sqs_world_init 0"

definition api_create :: "string result \<times> sqs_world" where
  "api_create = create_queue api_env 100 api_ctx ''q'' None (Some [(''k'', ''v'')]) api_w0"

definition api_w1 :: sqs_world where
  "api_w1 = snd api_create"

definition api_url :: string where
  "api_url = ''http://localhost:4566/queue/us-east-1/000000000000/q''"

definition api_key :: queue_key where
  "api_key = (''000000000000'', ''us-east-1'', ''q'')"

lemma api_create_ok: "fst api_create = Inr api_url"
  by code_simp

lemma api_resolve: "resolve_key api_ctx api_url = api_key"
  by code_simp

lemma api_delete_ok: "fst (delete_queue api_env 200 api_ctx api_url api_w1) = Inr ()"
  by code_simp

lemma api_send_ok:
  "map_sum id sent_message_id (fst (send_message api_env 200 api_ctx api_url ''hello'' None None None None None api_w1)) = Inr ''id''"
  by code_simp

lemma api_create_run: "create_queue api_env 100 api_ctx ''q'' None (Some [(''k'', ''v'')]) api_w0 = (Inr api_url, api_w1)"
  using api_create_ok by (cases api_create) (simp add: api_w1_def api_create_def)

lemma api_reachable: "sqs_reachable api_env api_w1"
  using sqs_reachable.step [OF sqs_reachable.start, of api_env 100 api_ctx "CreateQueue ''q'' None (Some [(''k'', ''v'')])" 0]
  by (simp add: api_w1_def api_create_def api_w0_def)

lemma api_registry: "registry_ok api_w0" "registry_ok api_w1"
  using registry_reachable [OF api_reachable] registry_reachable [OF sqs_reachable.start [of api_env 0]]
  by (simp_all add: api_w0_def)

lemma api_found: "find_queue api_key api_w1 \<noteq> None"
  using create_queue_cases [OF api_create_run] by (fastforce simp: api_key_def api_ctx_def)




definition api_url2 :: string where
  "api_url2 = ''http://localhost:4566/queue/us-east-1/000000000000/q2''"

definition api_key2 :: queue_key where
  "api_key2 = (''000000000000'', ''us-east-1'', ''q2'')"




lemma api_resolve2: "resolve_key api_ctx api_url2 = api_key2"
  by code_simp


subsection \<open>The registry\<close>

text \<open>
  C9: in every state the service reaches, whatever requests and background steps led there, the queue
  registered under an account, a region and a name is a queue of that account, region and name.
\<close>

theorem registered_under_own_name:
  assumes "sqs_reachable env w" "find_queue (a, r, n) w = Some q"
  shows "q_account q = a \<and> q_region q = r \<and> q_name q = n"
  using registry_okD [OF registry_reachable [OF assms(1)] assms(2)] by (simp add: q_id_def)

theorem registered_under_own_name_witness:
  "\<exists>q. find_queue (''000000000000'', ''us-east-1'', ''q'') api_w1 = Some q \<and>
    q_account q = ''000000000000'' \<and> q_region q = ''us-east-1'' \<and> q_name q = ''q''"
  using api_found registered_under_own_name [OF api_reachable, of "''000000000000''" "''us-east-1''" "''q''"]
  by (auto simp: api_key_def)

text \<open>
  C10: creating a queue. The name is registered afterwards under the account and region of the request, an
  existing queue is kept as it is, every other queue is left alone, and the URL that is returned is
  the one \<open>GetQueueUrl\<close> gives from then on.
\<close>

theorem create_queue_registers:
  assumes "registry_ok w" "create_queue env now ctx name attrs tags w = (Inr url, w')"
  shows "\<exists>q. find_queue (ctx_account_id ctx, ctx_region ctx, name) w' = Some q \<and>
    q_id q = (ctx_account_id ctx, ctx_region ctx, name) \<and>
    find_queue (ctx_account_id ctx, ctx_region ctx, name) w \<in> {None, Some q} \<and>
    url = q_url (url_ctx env ctx) q \<and> fst (get_queue_url env ctx name None w') = Inr url \<and>
    (\<forall>k. k \<noteq> (ctx_account_id ctx, ctx_region ctx, name) \<longrightarrow> find_queue k w' = find_queue k w)"
proof -
  have w': "registry_ok w'" using keeps_invD [OF keeps_create_queue assms(1)] assms(2) by (metis snd_conv)
  note url = get_queue_url_run [OF registry_stores_ok [OF w'] create_queue_valid [OF registry_stores_ok [OF assms(1)] assms(2)]]
  from assms(2) show ?thesis
  proof (cases rule: create_queue_cases)
    case (existing q)
    then show ?thesis using url [of name q] registry_okD [OF w'] by (intro exI [of _ q]) simp
  next
    case (created fifo attrs' q)
    then show ?thesis using url [of name q] registry_okD [OF w'] by (intro exI [of _ q]) simp
  qed
qed

theorem create_queue_registers_witness:
  "\<exists>q. find_queue (''000000000000'', ''us-east-1'', ''q'') api_w1 = Some q \<and> api_url = q_url (url_ctx api_env api_ctx) q \<and>
    fst (get_queue_url api_env api_ctx ''q'' None api_w1) = Inr api_url"
  using create_queue_registers [OF api_registry(1) api_create_run] by (auto simp: api_ctx_def)

text \<open>
  C11: deleting a queue. Whatever the configuration, the name is free afterwards, every other queue is left alone, and
  the tags of the queue are gone. Only where \<open>SQS_DELAY_RECENTLY_DELETED\<close> is set is the name then refused for
  sixty seconds from the deletion (the clock at the deletion not being zero). The URL does not spell an empty region.
\<close>

theorem delete_queue_removes:
  assumes "registry_ok w" "delete_queue env now ctx url w = (Inr u, w')" "resolve_key ctx url = (a, r, n)"
    and "\<And>a n. parse_queue_url url \<noteq> Inr (a, Some [], n)"
  shows "find_queue (a, r, n) w' = None \<and> (\<forall>k. k \<noteq> (a, r, n) \<longrightarrow> find_queue k w' = find_queue k w) \<and>
    (\<exists>q. find_queue (a, r, n) w = Some q \<and> tags_at a r (q_arn q) w' = []) \<and>
    (env_delay_recently_deleted env \<and> now \<noteq> 0 \<and> later < now + 60 \<and> ctx_account_id ctx' = a \<and> ctx_region ctx' = r \<longrightarrow>
      exn_name (projl (fst (create_queue env later ctx' n attrs tags w'))) = ''QueueDeletedRecently'' \<and>
      isl (fst (create_queue env later ctx' n attrs tags w')))"
proof -
  obtain reg0 n0 a0 where p0: "parse_queue_url url = Inr (a0, reg0, n0)"
    using assms(2) by (cases "parse_queue_url url") (auto simp: delete_queue_def bind_op_def run_ops)
  have "url \<noteq> []" using p0 parse_queue_url_Nil by auto
  then have p: "parse_queue_url url = Inr (a, reg0, n)" and r: "r = (case reg0 of Some r \<Rightarrow> r | None \<Rightarrow> ctx_region ctx)"
    using p0 assms(3,4) by (auto simp: resolve_key_def resolve_queue_location_def truthy_def split: option.splits if_splits)
  obtain q where q: "find_queue (resolve_key ctx url) w = Some q" and "q_name q = n"
    and q': "find_queue (a, r, n) w' = None"
    "\<And>k. k \<noteq> (a, r, n) \<Longrightarrow> find_queue k w' = find_queue k w"
    "deleted_at (a, r, n) w' = Some now" "tags_at (q_account q) (q_region q) (q_arn q) w' = []"
    by (rule delete_queue_effect [OF assms(1,2) p, folded r]) (rule that)
  have id: "q_account q = a" "q_region q = r" using registry_okD [OF assms(1) q] assms(3) by (simp_all add: q_id_def)
  have w': "stores_ok w'"
    using registry_stores_ok keeps_invD [OF keeps_delete_queue assms(1), of env now ctx url] assms(2) by simp
  obtain st1 w1 where "get_store_op env a r w = (Inr st1, w1)"
    using assms(2) p unfolding delete_queue_def by (auto simp: Let_def r elim!: bind_op_InrE)
  then have "valid_key env a r" using get_store_op_valid [OF registry_stores_ok [OF assms(1)], of env a r] by auto
  then obtain st where st: "fst (get_store_op env a r w') = Inr st" using get_store_op_valid [OF w', of env a r] by blast
  have cr: "isl (fst (create_queue env later ctx' n attrs tags w')) \<and>
      exn_name (projl (fst (create_queue env later ctx' n attrs tags w'))) = ''QueueDeletedRecently''"
    if "env_delay_recently_deleted env" "now \<noteq> 0" "later < now + 60" "ctx_account_id ctx' = a" "ctx_region ctx' = r"
    using create_queue_deleted [of ctx' n w' env now later st attrs tags] q'(1,3) st that by (simp add: RECENTLY_DELETED_TIMEOUT_def)
  show ?thesis using q q'(1,2,4) id cr assms(3) by auto
qed

theorem delete_queue_removes_witness:
  "find_queue api_key (snd (delete_queue (api_env\<lparr>env_delay_recently_deleted := False\<rparr>) 200 api_ctx api_url api_w1)) = None \<and>
   find_queue api_key (snd (delete_queue api_env 200 api_ctx api_url api_w1)) = None \<and>
   exn_name (projl (fst (create_queue api_env 230 api_ctx ''q'' None None (snd (delete_queue api_env 200 api_ctx api_url api_w1))))) =
     ''QueueDeletedRecently''"
proof -
  have d: "delete_queue api_env 200 api_ctx api_url api_w1 = (Inr (), snd (delete_queue api_env 200 api_ctx api_url api_w1))"
    using api_delete_ok by (metis prod.collapse)
  let ?env = "api_env\<lparr>env_delay_recently_deleted := False\<rparr>"
  have "fst (delete_queue ?env 200 api_ctx api_url api_w1) = Inr ()" by code_simp
  then have d': "delete_queue ?env 200 api_ctx api_url api_w1 = (Inr (), snd (delete_queue ?env 200 api_ctx api_url api_w1))"
    by (metis prod.collapse)
  have p: "parse_queue_url api_url \<noteq> Inr (a, Some [], n)" for a n
  proof -
    have "parse_queue_url api_url = Inr (''000000000000'', Some ''us-east-1'', ''q'')" by code_simp
    then show ?thesis by simp
  qed
  note r = delete_queue_removes [OF api_registry(2) _ api_resolve [unfolded api_key_def] p]
  show ?thesis
    using r [OF d, of 230 api_ctx None None] r [OF d', of 230 api_ctx None None]
    by (simp add: api_key_def) (simp add: api_env_def api_ctx_def)
qed





subsection \<open>Sending\<close>


lemma api_queue:
  obtains s where "find_queue api_key api_w1 = Some (Std s)" "standard_inv s" "visible s = []" "delayed s = []" "inflight s = []"
proof -
  have std: "case find_queue api_key api_w1 of Some (Std s) \<Rightarrow> True | _ \<Rightarrow> False" by code_simp
  obtain fifo attrs' q where q: "new_queue fifo 100 ''q'' ''us-east-1'' ''000000000000'' attrs' (Some [(''k'', ''v'')]) = Inr q"
    "find_queue api_key api_w1 = Some q"
    using api_create_run
  proof (cases rule: create_queue_cases)
    case (existing q)
    then show thesis by (simp add: find_queue_def api_w0_def sqs_world_init_def arb_init_def find_store_def)
  next
    case (created fifo attrs' q)
    then show thesis using that by (simp add: api_ctx_def api_key_def)
  qed
  obtain s where s: "q = Std s" using std q(2) by (cases q) auto
  then have i: "standard_queue_init 100 ''q'' ''us-east-1'' ''000000000000'' attrs' (Some [(''k'', ''v'')]) = Inr s"
    using q(1) by (auto simp: new_queue_def map_sum_def split: if_splits sum.splits)
  then have "visible s = []" "delayed s = []" "inflight s = []"
    by (auto simp: standard_queue_init_def Let_def bind_result_Inr_iff split: if_splits)
  then show thesis using that q(2) s standard_init_inv(1) [OF i] by simp
qed

lemma api_send_run: "\<exists>res w'. send_message api_env 200 api_ctx api_url ''hello'' None None None None None api_w1 = (Inr res, w')"
  using api_send_ok by (cases "send_message api_env 200 api_ctx api_url ''hello'' None None None None None api_w1")
    (auto split: sum.splits simp: map_sum_def)


text \<open>
  C15: what is refused. \<open>SendMessage\<close> succeeds only when the body is not empty, the body and its attributes
  together do not exceed the \<open>MaximumMessageSize\<close> of the queue, and every character of the body is
  one the service allows.
\<close>

theorem send_message_within_limits:
  assumes "find_queue (resolve_key ctx url) w = Some q"
    and "send_message env now ctx url body delay attrs sys dedup grp w = (Inr res, w')"
  shows "\<exists>limit. q_int_attribute ''MaximumMessageSize'' q = Inr limit \<and> 0 < length body \<and>
    int (length body + message_attributes_size attrs) \<le> limit \<and> list_all is_content_point (code_points body)"
proof -
  obtain w1 m hs where w1: "\<And>k. find_queue k w1 = find_queue k w"
    and p: "put_message env now (resolve_key ctx url) ctx body delay attrs sys dedup grp w1 = (Inr m, w')"
    using send_message_run [OF assms(2)] by metis
  have q: "find_queue (resolve_key ctx url) w1 = Some q" using assms(1) w1 by simp
  have "check_put_message q body attrs sys dedup grp = Inr ()" by (rule put_message_run [OF q p])
  then have *: "check_message_min_size body = Inr ()" "check_message_content body = Inr ()"
    "\<exists>limit. q_int_attribute ''MaximumMessageSize'' q = Inr limit \<and> check_message_max_size body attrs limit = Inr ()"
    unfolding check_put_message_def bind_result_Inr_iff by (simp_all, blast+)
  have "list_all is_content_point cs" if "cs \<noteq> []" "last cs = 10" "list_all is_content_point (butlast cs)" for cs
  proof -
    have "list_all is_content_point (butlast cs @ [last cs])" using that(2,3) by (simp add: is_content_point_def)
    then show ?thesis using that(1) by simp
  qed
  then have "list_all is_content_point (code_points body)"
    using *(2) by (auto simp: check_message_content_def re_points_match_def Let_def split: if_splits)
  then show ?thesis
    using *(1,3) by (auto simp: check_message_min_size_def check_message_max_size_def message_body_size_def split: if_splits)
qed

theorem send_message_within_limits_witness:
  "\<exists>q limit. find_queue api_key api_w1 = Some q \<and> q_int_attribute ''MaximumMessageSize'' q = Inr limit \<and> 5 \<le> limit \<and>
    list_all is_content_point (code_points ''hello'')"
proof -
  obtain s where s: "find_queue (resolve_key api_ctx api_url) api_w1 = Some (Std s)" using api_queue api_resolve by metis
  obtain res w' where r: "send_message api_env 200 api_ctx api_url ''hello'' None None None None None api_w1 = (Inr res, w')"
    using api_send_run by blast
  show ?thesis using send_message_within_limits [OF s r] s by (auto simp: api_resolve message_attributes_size_def)
qed

end
