(* ===== verification/SqsRequestSpec.thy ===== *)
theory SqsRequestSpec
  imports SqsApiSpec
begin

text \<open>
  More properties of the API operations: batches, purging, tags, listing, the redrive policy, message move
  tasks and the background workers.
\<close>

subsection \<open>Batches\<close>



text \<open>
  C20: every entry of a batch is answered once. When \<open>SendMessageBatch\<close> returns, each entry is either among the
  successful or among the failed ones, in the order of the request, and the accepted batch is within the size limit.
\<close>

theorem send_batch_answers_every_entry:
  assumes "send_message_batch env now ctx url entries w = (Inr (ok, failed), w')"
  defines "sent \<equiv> map fst (case ok of Some xs \<Rightarrow> xs | None \<Rightarrow> [])"
    and "refused \<equiv> map error_id (case failed of Some xs \<Rightarrow> xs | None \<Rightarrow> [])"
  shows "mset sent + mset refused = mset (map se_id entries) \<and> subseq sent (map se_id entries) \<and>
    subseq refused (map se_id entries) \<and> distinct (map se_id entries) \<and> length entries \<le> 10 \<and>
    int (sum_list (map (\<lambda>e. length (se_body e) + message_attributes_size (se_attributes e)) entries)) \<le> 1048576"
proof -
  obtain key w1 q oks errs w2 where chk: "assert_batch (env_unicode_word env) (q_is_fifo q) (q_dedup_required q) None
       (map send_entry_item entries) = Inr ()"
    and size: "assert_valid_batch_size (map (\<lambda>e. (se_body e, se_attributes e)) entries) DEFAULT_MAXIMUM_MESSAGE_SIZE = Inr ()"
    and run: "run_batch (\<lambda>e. send_error_entry (se_id e))
       (\<lambda>e. bind_op (put_message env now key ctx (se_body e) (se_delay e) (se_attributes e) (se_system_attributes e)
               (se_deduplication_id e) (se_group_id e)) (\<lambda>m. ret (se_id e, sent_result m None))) entries w1 = ((oks, errs), w2)"
    and ok: "ok = (if oks = [] then None else Some oks)" "failed = (if errs = [] then None else Some errs)"
    using assms(1) unfolding send_message_batch_def batch_op_def
    by (elim bind_op_InrE) (auto simp: run_ops split: prod.splits)
  have sent: "sent = map fst oks" "refused = map error_id errs" by (simp_all add: sent_def refused_def ok)
  have "fst r = se_id e" if "bind_op (put_message env now key ctx (se_body e) (se_delay e) (se_attributes e) (se_system_attributes e)
               (se_deduplication_id e) (se_group_id e)) (\<lambda>m. ret (se_id e, sent_result m None)) w3 = (Inr r, w4)" for e w3 r w4
    using that by (elim bind_op_InrE) (auto simp: run_ops)
  moreover have "error_id (send_error_entry (se_id e) x) = se_id e" for e x by (cases x) (simp_all add: send_error_entry_def)
  ultimately have part: "mset sent + mset refused = mset (map se_id entries)" "subseq sent (map se_id entries)"
    "subseq refused (map se_id entries)"
    unfolding sent using run_batch_partition [OF run, where rid = fst and eid = se_id] by blast+
  have "item_id \<circ> send_entry_item = se_id" by (auto simp: send_entry_item_def)
  then have "distinct (map se_id entries)" "length entries \<le> 10"
    using chk unfolding assert_batch_iff map_map by simp_all
  moreover have "int (sum_list (map (\<lambda>e. length (se_body e) + message_attributes_size (se_attributes e)) entries)) \<le> 1048576"
    using size by (simp add: assert_valid_batch_size_def Let_def DEFAULT_MAXIMUM_MESSAGE_SIZE_def comp_def message_body_size_def
        split: if_splits)
  ultimately show ?thesis using part by simp
qed

definition api_entry :: "string \<Rightarrow> string \<Rightarrow> send_entry" where
  "api_entry i body = \<lparr>se_id = i, se_body = body, se_delay = None, se_attributes = None, se_system_attributes = None,
     se_deduplication_id = None, se_group_id = None\<rparr>"

theorem send_batch_answers_every_entry_witness:
  "\<exists>ok failed w'. send_message_batch api_env 200 api_ctx api_url [api_entry ''e1'' ''hello'', api_entry ''e2'' []] api_w1 = (Inr (ok, failed), w') \<and>
    mset (map fst (case ok of Some xs \<Rightarrow> xs | None \<Rightarrow> [])) + mset (map error_id (case failed of Some xs \<Rightarrow> xs | None \<Rightarrow> [])) =
      {#''e1'', ''e2''#}"
proof -
  let ?es = "[api_entry ''e1'' ''hello'', api_entry ''e2'' []]"
  have "\<not> isl (fst (send_message_batch api_env 200 api_ctx api_url ?es api_w1))" by code_simp
  then obtain ok failed w' where r: "send_message_batch api_env 200 api_ctx api_url ?es api_w1 = (Inr (ok, failed), w')"
    by (metis isl_def old.sum.exhaust prod.collapse)
  have "mset (map se_id ?es) = {#''e1'', ''e2''#}" by (simp add: api_entry_def)
  then show ?thesis
    using r conjunct1 [OF send_batch_answers_every_entry [OF r]] by (intro exI conjI) (assumption, simp only:)
qed

subsection \<open>Purging and tags\<close>

text \<open>
  C22: \<open>PurgeQueue\<close>. Within 60 seconds of the last purge the request is refused, where that is configured, and the
  queue stays as it is; otherwise no message is left in the queue and the time of the purge is remembered.
\<close>

theorem purge_queue_empties:
  assumes "find_queue (resolve_key ctx url) w = Some q" "registry_ok w"
    and "valid_key env (fst (resolve_key ctx url)) (fst (snd (resolve_key ctx url)))"
    and "purge_queue env now ctx url w = (res, w')"
  shows "if env_delay_purge_retry env \<and> (\<exists>t. q_purge_timestamp q = Some t \<and> t \<noteq> 0 \<and> now < t + 60)
    then exn_name (projl res) = ''PurgeQueueInProgress'' \<and> isl res \<and> find_queue (resolve_key ctx url) w' = Some q
    else res = Inr () \<and> (\<exists>q'. find_queue (resolve_key ctx url) w' = Some q' \<and> q_messages q' = [] \<and>
      q_purge_timestamp q' = Some now)"
  using purge_queue_run [OF assms(4,1) registry_stores_ok [OF assms(2)] assms(3)] q_clear_empty [of now q]
  by (simp split: if_splits)

lemma api_valid: "valid_key api_env ''000000000000'' ''us-east-1''"
  by code_simp

theorem purge_queue_empties_witness:
  "\<exists>w' q'. purge_queue api_env 300 api_ctx api_url api_w1 = (Inr (), w') \<and> find_queue api_key w' = Some q' \<and> q_messages q' = []"
proof -
  obtain q where q: "find_queue (resolve_key api_ctx api_url) api_w1 = Some q" using api_found api_resolve by auto
  have "map_option q_purge_timestamp (find_queue api_key api_w1) = Some None" by code_simp
  then have "q_purge_timestamp q = None" using q api_resolve by simp
  moreover obtain res w' where "purge_queue api_env 300 api_ctx api_url api_w1 = (res, w')" by fastforce
  moreover note purge_queue_empties [OF q api_registry(2) _ this]
  ultimately show ?thesis using api_valid by (auto simp: api_resolve api_key_def)
qed

lemma resolve_queue_tags:
  "resolve_queue env ctx url w = (Inr key, w') \<Longrightarrow> tags_at a r arn w' = tags_at a r arn w"
  using get_store_op_views(2) by (auto simp: resolve_queue_def require_queue_def bind_op_def run_ops split: prod.splits
      sum.splits if_splits) (metis snd_conv)+

text \<open>
  C27: tagging. After \<open>TagQueue\<close> succeeds, \<open>ListQueueTags\<close> returns the tags the queue had, updated with the
  new ones.
\<close>

theorem tag_queue_then_list:
  assumes "registry_ok w" "tags \<noteq> []" "tag_queue env ctx url tags w = (Inr u, w1)" "list_queue_tags env ctx url w1 = (Inr listed, w2)"
  shows "\<exists>q. find_queue (resolve_key ctx url) w = Some q \<and>
    (case listed of Some t \<Rightarrow> t | None \<Rightarrow> []) = dict_update (tags_at (q_account q) (q_region q) (q_arn q) w) tags"
proof -
  obtain q where q: "find_queue (resolve_key ctx url) w = Some q" "find_queue (resolve_key ctx url) w1 = Some q"
    and t: "tags_at (q_account q) (q_region q) (q_arn q) w1 = dict_update (tags_at (q_account q) (q_region q) (q_arn q) w) tags"
    by (rule tag_queue_run [OF assms(1,3,2)])
  obtain key w3 q' st w4 where l: "resolve_queue env ctx url w1 = (Inr key, w3)" "find_queue key w3 = Some q'"
      "get_store_op env (q_account q') (q_region q') w3 = (Inr st, w4)"
      "listed = (let tags = tags_get (q_arn q') (store_tags st) in if tags = [] then None else Some tags)"
    using assms(4) unfolding list_queue_tags_def Let_def by (auto simp: read_queue_ok run_ops elim!: bind_op_InrE)
  note ok = resolve_queue_ok [OF l(1)]
  have q': "q' = q" using l(2) ok(1,3) q(2) by simp
  have "tags_at (q_account q) (q_region q) (q_arn q) w3 = tags_at (q_account q) (q_region q) (q_arn q) w1"
    by (rule resolve_queue_tags [OF l(1)])
  moreover have "tags_get (q_arn q) (store_tags st) = tags_at (q_account q) (q_region q) (q_arn q) w3"
    using get_store_op_found [OF l(3)] get_store_op_views(2) [of "q_account q" "q_region q" "q_arn q" env "q_account q" "q_region q" w3] l(3) q'
    by (simp add: tags_at_def)
  ultimately show ?thesis using l(4) q' q(1) t by (auto simp: Let_def)
qed

theorem tag_queue_then_list_witness:
  "\<exists>w1 listed w2. tag_queue api_env api_ctx api_url [(''a'', ''b'')] api_w1 = (Inr (), w1) \<and>
    list_queue_tags api_env api_ctx api_url w1 = (Inr listed, w2) \<and>
    dict_get (case listed of Some t \<Rightarrow> t | None \<Rightarrow> []) ''a'' = Some ''b''"
proof -
  define w1 where "w1 = snd (tag_queue api_env api_ctx api_url [(''a'', ''b'')] api_w1)"
  have "fst (tag_queue api_env api_ctx api_url [(''a'', ''b'')] api_w1) = Inr ()" by code_simp
  then have t: "tag_queue api_env api_ctx api_url [(''a'', ''b'')] api_w1 = (Inr (), w1)" unfolding w1_def by (metis prod.collapse)
  have "\<not> isl (fst (list_queue_tags api_env api_ctx api_url w1))" unfolding w1_def by code_simp
  then obtain listed w2 where l: "list_queue_tags api_env api_ctx api_url w1 = (Inr listed, w2)"
    by (metis isl_def old.sum.exhaust prod.collapse)
  show ?thesis using tag_queue_then_list [OF api_registry(2) _ t l] t l by (auto simp: dict_update_Cons dict_update_Nil)
qed

subsection \<open>Listing queues\<close>



subsection \<open>A redrive policy that is not JSON\<close>

lemma queue_set_broken_policy:
  assumes "q_validate_queue_attributes [(''RedrivePolicy'', doc)] q = Inr ()" "json_loads doc = Inl e" "doc \<noteq> []"
    and "queue_set_attributes [(''RedrivePolicy'', doc)] q = (res, q')"
  shows "res = Inl e" "dict_get (q_attributes q') ''RedrivePolicy'' = Some doc"
proof -
  define stored0 where "stored0 = dict_set ''RedrivePolicy'' doc (q_attributes q)"
  define stored where "stored = (if dict_get stored0 ''Policy'' = Some [] then dict_del ''Policy'' stored0 else stored0)"
  have s: "store_attributes [(''RedrivePolicy'', doc)] (q_attributes q) = (Inr (), stored0)"
    by (simp add: stored0_def INTERNAL_QUEUE_ATTRIBUTES_def DELETE_IF_DEFAULT_def)
  have g: "dict_get stored ''RedrivePolicy'' = Some doc" by (simp add: stored_def stored0_def)
  have c: "check_redrive_policy doc = Inl e" using assms(2) by (simp add: check_redrive_policy_def)
  have "queue_set_attributes [(''RedrivePolicy'', doc)] q = (Inl e, q_set_attributes stored q)"
    unfolding queue_set_attributes_def assms(1) s sum.case prod.case Let_def stored_def [symmetric] g option.case c
    using assms(3) by simp
  then show "res = Inl e" "dict_get (q_attributes q') ''RedrivePolicy'' = Some doc"
    using assms(4) g by (auto simp: q_attributes_def q_set_attributes_def split: queue.splits)
qed

lemma max_receive_count_broken:
  "dict_get (attributes s) ''RedrivePolicy'' = Some doc \<Longrightarrow> doc \<noteq> [] \<Longrightarrow> json_loads doc = Inl e \<Longrightarrow> max_receive_count s = Inl e"
  by (simp add: max_receive_count_def redrive_policy_def truthy_def)

lemma receive_broken_policy:
  assumes "dict_get (q_attributes q) ''RedrivePolicy'' = Some doc" "doc \<noteq> []" "json_loads doc = Inl e"
  shows "q_receive ext fresh now num wait timeout poll q = (Inl e, q)"
proof (cases q)
  case (Std s)
  then have "max_receive_count s = Inl e" using assms by (intro max_receive_count_broken) (simp_all add: q_attributes_def)
  then show ?thesis by (simp add: Std q_receive_def lift_std_def standard_receive_def)
next
  case (Fifo s)
  then have "max_receive_count s = Inl e" using assms by (intro max_receive_count_broken) (simp_all add: q_attributes_def)
  then show ?thesis by (simp add: Fifo q_receive_def lift_fifo_def fifo_receive_def)
qed

text \<open>
  C26: a refused redrive policy stays. When \<open>SetQueueAttributes\<close> is given a redrive policy that cannot be
  parsed, the request fails, but the policy has been stored, and from then on every receive on the queue
  fails with the same error.
\<close>

theorem refused_redrive_policy_is_kept:
  assumes "registry_ok w" "find_queue (resolve_key ctx url) w = Some q"
    and "valid_key env (fst (resolve_key ctx url)) (fst (snd (resolve_key ctx url)))"
    and "q_validate_queue_attributes [(''RedrivePolicy'', doc)] q = Inr ()" "json_loads doc = Inl e" "doc \<noteq> []"
    and "set_queue_attributes env ctx url [(''RedrivePolicy'', doc)] w = (res, w')"
  shows "res = Inl e \<and> (\<exists>q'. find_queue (resolve_key ctx url) w' = Some q' \<and>
    dict_get (q_attributes q') ''RedrivePolicy'' = Some doc \<and> q_receive ext fresh later num wait timeout poll q' = (Inl e, q'))"
proof -
  obtain a r n where k: "resolve_key ctx url = (a, r, n)" by (cases "resolve_key ctx url")
  obtain w1 where rq: "resolve_queue env ctx url w = (Inr (a, r, n), w1)"
    using resolve_queue_total [OF registry_stores_ok [OF assms(1)] k _ assms(2) [unfolded k]] assms(3) k by auto
  have q: "find_queue (a, r, n) w1 = Some q" using resolve_queue_ok(3) [OF rq] assms(2) k by simp
  obtain res1 q' where s: "queue_set_attributes [(''RedrivePolicy'', doc)] q = (res1, q')" by fastforce
  note b = queue_set_broken_policy [OF assms(4-6) s]
  have "res = res1" "w' = set_queue (a, r, n) q' w1"
    using assms(7) s unfolding set_queue_attributes_def by (simp_all add: bind_op_def rq on_queue_run [OF q])
  then show ?thesis
    using b receive_broken_policy [OF b(2) assms(6,5)] find_queue_set_same [OF q, of q'] k by auto
qed

theorem refused_redrive_policy_is_kept_witness:
  "\<exists>e w' q'. set_queue_attributes api_env api_ctx api_url [(''RedrivePolicy'', ''x'')] api_w1 = (Inl e, w') \<and>
    find_queue api_key w' = Some q' \<and> q_receive api_ext (\<lambda>_. []) 400 1 None None False q' = (Inl e, q')"
proof -
  obtain s where q: "find_queue (resolve_key api_ctx api_url) api_w1 = Some (Std s)" using api_queue api_resolve by metis
  have "isl (json_loads ''x'')" by code_simp
  then obtain e where e: "json_loads ''x'' = Inl e" by (auto simp: isl_def)
  have "standard_validate_queue_attributes [(''RedrivePolicy'', ''x'')] = Inr ()" by code_simp
  then have v: "q_validate_queue_attributes [(''RedrivePolicy'', ''x'')] (Std s) = Inr ()" by (simp add: q_validate_queue_attributes_def)
  obtain res w' where r: "set_queue_attributes api_env api_ctx api_url [(''RedrivePolicy'', ''x'')] api_w1 = (res, w')" by fastforce
  have k: "valid_key api_env (fst (resolve_key api_ctx api_url)) (fst (snd (resolve_key api_ctx api_url)))"
    using api_valid by (simp add: api_resolve api_key_def)
  from refused_redrive_policy_is_kept [OF api_registry(2) q k v e _ r, of api_ext "\<lambda>_. []" 400 1 None None False]
  show ?thesis using r by (auto simp: api_resolve)
qed

subsection \<open>Move task handles\<close>

text \<open>The characters of task ids and ARNs: ASCII without control characters, quotes and backslashes.\<close>

definition handle_text :: "string \<Rightarrow> bool" where
  "handle_text s \<longleftrightarrow> list_all (\<lambda>c. 32 \<le> ord_char c \<and> ord_char c < 128 \<and> c \<noteq> CHR 0x22 \<and> c \<noteq> CHR 0x5C) s"

lemma json_string_plain:
  "handle_text s \<Longrightarrow> length s < n \<Longrightarrow> json_string n (s @ CHR 0x22 # rest) = Some (s, rest)"
proof (induction s arbitrary: n)
  case Nil
  then show ?case by (cases n) simp_all
next
  case (Cons c s)
  then obtain m where "n = Suc m" by (cases n) simp_all
  then show ?case using Cons by (simp add: handle_text_def)
qed

lemma json_value_string:
  "handle_text s \<Longrightarrow> json_value (Suc n) (CHR 0x22 # s @ CHR 0x22 # rest) = Some (JStr s, rest)"
  using json_string_plain [of s _ rest] by simp

lemma skip_ws_id: "c \<notin> {CHR '' '', CHR 0x09, CHR 0x0A, CHR 0x0D} \<Longrightarrow> skip_ws (c # s) = c # s"
  by (simp add: is_json_ws_def)

lemma json_members_text:
  assumes "handle_text k" "handle_text v"
  shows "json_members (Suc (Suc n)) acc (CHR 0x22 # k @ CHR 0x22 # CHR '':'' # CHR 0x22 # v @ CHR 0x22 # CHR ''}'' # rest) =
      Some (dict_set k (JStr v) acc, rest)"
    "json_members (Suc (Suc n)) acc (CHR 0x22 # k @ CHR 0x22 # CHR '':'' # CHR 0x22 # v @ CHR 0x22 # CHR '','' # CHR 0x22 # rest) =
      json_members (Suc n) (dict_set k (JStr v) acc) (CHR 0x22 # rest)"
  by (simp_all add: json_members.simps(2) [of "Suc n"] json_string_plain [OF assms(1)] json_value_string [OF assms(2)] is_json_ws_def
      del: json_value.simps json_members.simps)

lemma json_loads_handle:
  assumes "handle_text tid" "handle_text arn"
  shows "json_loads (''{'' @ dq @ ''taskId'' @ dq @ '':'' @ dq @ tid @ dq @ '','' @ dq @ ''sourceArn'' @ dq @ '':'' @ dq @ arn @ dq @ ''}'') =
    Inr (JObj [(''taskId'', JStr tid), (''sourceArn'', JStr arn)])"
proof -
  have k: "handle_text ''taskId''" "handle_text ''sourceArn''" by (simp_all add: handle_text_def)
  have m: "json_members (Suc (Suc (Suc n))) [] (CHR 0x22 # ''taskId'' @ CHR 0x22 # CHR '':'' # CHR 0x22 # tid @ CHR 0x22 # CHR '','' #
        CHR 0x22 # ''sourceArn'' @ CHR 0x22 # CHR '':'' # CHR 0x22 # arn @ CHR 0x22 # CHR ''}'' # []) =
      Some ([(''taskId'', JStr tid), (''sourceArn'', JStr arn)], [])" for n
    unfolding json_members_text(2) [OF k(1) assms(1)] json_members_text(1) [OF k(2) assms(2)] by simp
  show ?thesis using m unfolding json_loads_def dq_def by (simp add: is_json_ws_def del: json_members.simps)
qed

lemma length_b64encode: "length (b64encode s) mod 4 = 0"
  by (induction s rule: b64encode.induct) simp_all

lemma b64_char_plain: "n < 64 \<Longrightarrow> b64_char n \<noteq> CHR ''-'' \<and> b64_char n \<noteq> CHR ''_''"
  using b64_val_char [of n] by (auto simp: b64_val_def is_upper_char_def is_lower_char_def is_digit_char_def in_range_def)

lemma set_b64encode: "c \<in> set (b64encode s) \<Longrightarrow> c \<noteq> CHR ''-'' \<and> c \<noteq> CHR ''_''"
proof (induction s rule: b64encode.induct)
  case (1 a b c xs)
  note bounds = sextet_bounds [OF ord_less_256 [of a] ord_less_256 [of b] ord_less_256 [of c]]
  show ?case using 1 b64_char_plain [OF bounds(1)] b64_char_plain [OF bounds(2)] b64_char_plain [OF bounds(3)]
      b64_char_plain [OF bounds(4)] by auto
next
  case (2 a b)
  note bounds = sextet_bounds [OF ord_less_256 [of a] ord_less_256 [of b] ord_less_256 [of b]]
  show ?case using 2 b64_char_plain [OF bounds(1)] b64_char_plain [OF bounds(2)] b64_char_plain by auto
next
  case (3 a)
  note bounds = sextet_bounds [OF ord_less_256 [of a] ord_less_256 [of a] ord_less_256 [of a]]
  show ?case using 3 b64_char_plain [OF bounds(1)] b64_char_plain by auto
qed simp

lemma base64_decode_encode: "base64_decode (b64encode s) = Inr s"
  using set_b64encode [of _ s] by (auto simp: base64_decode_def length_b64encode b64decode_encode Let_def)

lemma move_task_handle_roundtrip:
  assumes "handle_text tid" "handle_text arn"
  shows "decode_move_task_handle (encode_move_task_handle tid arn) = Inr (JStr tid, JStr arn)"
proof -
  let ?t = "''{'' @ dq @ ''taskId'' @ dq @ '':'' @ dq @ tid @ dq @ '','' @ dq @ ''sourceArn'' @ dq @ '':'' @ dq @ arn @ dq @ ''}''"
  have "is_ascii tid" "is_ascii arn" using assms by (auto simp: handle_text_def is_ascii_def list_all_iff)
  then have "is_ascii ?t" by (simp add: dq_def)
  then have "utf8_valid ?t" by (rule utf8_valid_ascii)
  then show ?thesis
    unfolding decode_move_task_handle_def encode_move_task_handle_def base64_decode_encode
    by (simp only: bind_result.simps json_loads_handle [OF assms] not_True_eq_False if_False) simp
qed
text \<open>
  C28: task handles. Decoding the handle of a move task gives back the id of the task and the ARN of its source.
\<close>

theorem move_task_handle_decodes:
  assumes "handle_text (task_id t)" "handle_text (source_arn t)"
  shows "decode_move_task_handle (task_handle t) = Inr (JStr (task_id t), JStr (source_arn t))"
  unfolding task_handle_def using assms by (rule move_task_handle_roundtrip)

definition api_task :: message_move_task where
  "api_task = (move_task_init ''t1'' ''arn:aws:sqs:us-east-1:000000000000:q'' None None)\<lparr>status := COMPLETED\<rparr>"

theorem move_task_handle_decodes_witness:
  "decode_move_task_handle (task_handle api_task) = Inr (JStr ''t1'', JStr ''arn:aws:sqs:us-east-1:000000000000:q'')"
  using move_task_handle_decodes [of api_task] by (simp add: api_task_def move_task_init_def handle_text_def)

subsection \<open>Message move tasks\<close>











subsection \<open>Background work\<close>



text \<open>
  C29: metrics. A pass of the metrics publisher reports the three approximate counts of every queue of every
  store exactly once, in batches of at most 900 values, within the limit of one request.
\<close>

theorem metrics_cover_every_queue:
  "concat (map (\<lambda>(account, reg, ms). ms) (publish_approximate_cloudwatch_metrics w)) =
     concat (map approximate_metrics (all_queues w)) \<and>
   list_all (\<lambda>(account, reg, ms). 0 < length ms \<and> length ms \<le> 900) (publish_approximate_cloudwatch_metrics w)"
proof
  have chunks: "concat (iter_chunks_from (length xs) 0 metric_batch_size xs) = xs" for xs :: "queue list"
    using iter_chunks_from_concat [of metric_batch_size xs 0 "length xs"] by (simp add: metric_batch_size_def)
  have cc: "concat (map (\<lambda>qs. concat (map f qs)) xss) = concat (map f (concat xss))" for f :: "queue \<Rightarrow> (string \<times> string \<times> nat) list" and xss
    by (induction xss) simp_all
  have "concat (map (\<lambda>(account, reg, ms). ms) (map (\<lambda>qs. (account, reg, concat (map approximate_metrics qs)))
      (iter_chunks_from (length (store_queues st)) 0 metric_batch_size (map snd (store_queues st))))) =
      concat (map approximate_metrics (map snd (store_queues st)))" for account reg :: string and st
    using chunks [of "map snd (store_queues st)"] by (simp add: comp_def cc)
  note one = this
  have "concat (map (\<lambda>(account, reg, ms). ms) (concat (map (\<lambda>(account, reg, st).
         map (\<lambda>qs. (account, reg, concat (map approximate_metrics qs)))
           (iter_chunks_from (length (store_queues st)) 0 metric_batch_size (map snd (store_queues st)))) xs))) =
      concat (map approximate_metrics (concat (map (\<lambda>(account, reg, st). map snd (store_queues st)) xs)))"
    for xs :: "(string \<times> string \<times> sqs_store) list"
  proof (induction xs)
    case (Cons x xs)
    then show ?case using one by (cases x) simp
  qed simp
  then show "concat (map (\<lambda>(account, reg, ms). ms) (publish_approximate_cloudwatch_metrics w)) =
     concat (map approximate_metrics (all_queues w))"
    unfolding publish_approximate_cloudwatch_metrics_def all_queues_def .
  have "0 < length (concat (map approximate_metrics qs)) \<and> length (concat (map approximate_metrics qs)) \<le> 900"
    if "qs \<in> set (iter_chunks_from fuel 0 metric_batch_size items)" for qs fuel items
  proof -
    have "qs \<noteq> [] \<and> length qs \<le> metric_batch_size" using iter_chunks_from_sizes [OF _ that] by (simp add: metric_batch_size_def)
    moreover have "length (concat (map approximate_metrics qs)) = 3 * length qs"
      by (induction qs) (simp_all add: approximate_metrics_def)
    ultimately show ?thesis by (cases qs) (simp_all add: metric_batch_size_def del: length_concat)
  qed
  then show "list_all (\<lambda>(account, reg, ms). 0 < length ms \<and> length ms \<le> 900) (publish_approximate_cloudwatch_metrics w)"
    by (auto simp: publish_approximate_cloudwatch_metrics_def list_all_iff simp del: length_greater_0_conv concat_eq_Nil_conv)
qed

end
