(* ===== verification/StoresSpec.thy ===== *)
theory StoresSpec
  imports Stores
begin

text \<open>
  What service providers rely on when they keep their state in stores: the scope of each kind of attribute, the
  validation of account ids and region names, and the reset.
\<close>

definition demo_stores :: stores_config where
  "demo_stores = \<lparr>allow_nonstandard_regions = False, valid_regions_for_service = (\<lambda>_. [''us-east-1'', ''eu-west-1'']),
     unicode_digit = (\<lambda>_. False)\<rparr>"

abbreviation demo_bundles :: "nat attr_bundles" where
  "demo_bundles \<equiv> arb_init attr_store_class ''sqs'' True"

lemma arb_init_uniform: "bundle_uniform (arb_init cls service validate)"
  by (simp add: bundle_uniform_def arb_init_def)

lemma demo_keys:
  "key_ok demo_stores demo_bundles ''000000000000'' ''us-east-1''" "key_ok demo_stores demo_bundles ''000000000000'' ''eu-west-1''"
  by code_simp+

text \<open>
  C30: the scope of an attribute. After an attribute of a store is assigned, reading any attribute through any store
  gives the new value if it is the same attribute and the store is in its scope (the same store for a local
  attribute, any region of the account for a cross-region one, any store for a cross-account one), and
  otherwise the value it gave before.
\<close>

theorem attribute_scopes:
  assumes "bundle_uniform b" "key_ok cfg b a r" "key_ok cfg b a' r'" "attr_set cfg scope name v a r b = (res, b')"
  shows "res = Inr () \<and> fst (attr_get cfg scope' name' dflt a' r' b') =
    (if scope' = scope \<and> name' = name \<and> same_scope scope (a, r) (a', r') then Inr v
     else fst (attr_get cfg scope' name' dflt a' r' b))"
proof -
  have b': "b' = snd (attr_set cfg scope name v a r b)" using assms(4) by simp
  note s = attr_set_spec [OF assms(1,2) b']
  have "key_ok cfg b' a' r'" using s(2) assms(3) by simp
  note g = attr_get_value [OF s(1) this] attr_get_value [OF assms(1,3)]
  obtain st b1 where "get_store cfg attr_store_class a r b = (Inr st, b1)"
    by (rule get_store_ok [OF assms(1,2), where cls = attr_store_class]) (rule that)
  then have "res = Inr ()" using assms(4) by (simp add: attr_set_def)
  then show ?thesis unfolding g s(3) by simp
qed

theorem attribute_scopes_witness:
  "\<exists>b'. attr_set demo_stores CrossRegionAttribute ''x'' 7 ''000000000000'' ''us-east-1'' demo_bundles = (Inr (), b') \<and>
    fst (attr_get demo_stores CrossRegionAttribute ''x'' 0 ''000000000000'' ''eu-west-1'' b') = Inr 7"
proof -
  obtain res b' where s: "attr_set demo_stores CrossRegionAttribute ''x'' 7 ''000000000000'' ''us-east-1'' demo_bundles = (res, b')"
    by fastforce
  from attribute_scopes [OF arb_init_uniform demo_keys s, of CrossRegionAttribute "''x''" 0]
  show ?thesis using s by simp
qed





text \<open>
  C32: reset. \<open>AccountRegionBundle.reset\<close> leaves no store in the bundles, against its docstring. Every store that
  had been created is cleared first: whoever still holds an instance reads the default value for each of its attributes,
  local, cross-region and cross-account, and so does whoever asks the bundles for a store again.
\<close>

theorem reset_restores_defaults:
  assumes "bundle_uniform b" "key_ok cfg b a r" "bundles_reset b = (held, b')"
  shows "iter_stores b' = [] \<and> map (\<lambda>(account, region, st). (account, region)) held = map (\<lambda>(account, region, st). (account, region)) (iter_stores b) \<and>
    list_all (\<lambda>(account, region, st). held_get scope name dflt st b' = dflt) held \<and>
    fst (attr_get cfg scope name dflt a r b') = Inr dflt"
proof -
  have b': "b' = b\<lparr>arb_bundles := [], arb_universal := []\<rparr>" using bundles_reset_bundles [of b] assms(3) by simp
  have h: "held = map (\<lambda>(account, region, obj). (account, region, clear_local obj, [])) (iter_stores b)"
    using bundles_reset_held [of b] assms(3) by simp
  have "bundle_uniform b'" "key_ok cfg b' a r"
    using assms(2) key_ok_cong [of b' b cfg] by (simp_all add: b' bundle_uniform_def)
  note g = attr_get_value [OF this, of scope name dflt]
  have "fst (attr_get cfg scope name dflt a r b') = Inr dflt"
    unfolding g by (simp add: b' attr_value_at_def find_store_def global_of_def split: attr_scope.split)
  moreover have "held_get scope name dflt (clear_local obj, []) b' = dflt" for obj
    by (simp add: held_get_def local_get_def Let_def dict_get_clear_local shared_get_value b' split: attr_scope.split)
  ultimately show ?thesis by (simp add: h list_all_iff split_beta comp_def) (simp add: iter_stores_def b')
qed

theorem reset_restores_defaults_witness:
  "let b = snd (attr_set demo_stores LocalAttribute ''x'' 7 ''000000000000'' ''us-east-1'' demo_bundles) in
     map (\<lambda>(account, region, st). (account, region, fst st)) (fst (bundles_reset b)) = [(''000000000000'', ''us-east-1'', [])] \<and>
     fst (attr_get demo_stores LocalAttribute ''x'' 0 ''000000000000'' ''us-east-1'' (snd (bundles_reset b))) = Inr 0 \<and>
     list_all (\<lambda>(account, region, st). held_get LocalAttribute ''x'' 0 st (snd (bundles_reset b)) = 0) (fst (bundles_reset b))"
proof -
  let ?b = "snd (attr_set demo_stores LocalAttribute ''x'' 7 ''000000000000'' ''us-east-1'' demo_bundles)"
  have "bundle_uniform ?b" "key_ok demo_stores ?b ''000000000000'' ''us-east-1''"
    using attr_set_spec(1,2) [OF arb_init_uniform demo_keys(1) refl] demo_keys(1) by simp_all
  note r = reset_restores_defaults [OF this prod.collapse [symmetric], of LocalAttribute "''x''" 0]
  have "map (\<lambda>(account, region, st). (account, region, fst st)) (fst (bundles_reset ?b)) = [(''000000000000'', ''us-east-1'', [])]"
    by code_simp
  then show ?thesis using r by (simp add: Let_def)
qed

end
