(* ===== verification/SqsFifoInv.thy ===== *)
theory SqsFifoInv
  imports SqsFifo SqsStandardRun
begin

text \<open>
  The invariant of FIFO queues. The heaps of the message groups partition the waiting messages, and a
  group that has waiting messages is in \<open>message_group_queue\<close> or in \<open>inflight_groups\<close>. \<open>FifoQueue\<close> keeps the
  contract of the base class, so the operations it inherits are correct by the theorems about that contract; the
  operations it overrides are treated here.
\<close>

subsection \<open>Message groups\<close>

lemma mset_dict_set:
  "mset (concat (map snd (dict_set g h d))) + mset (case dict_get d g of Some x \<Rightarrow> x | None \<Rightarrow> []) =
   mset (concat (map snd d)) + mset h"
proof (induction d)
  case (Cons p d)
  then show ?case by (cases p) (auto simp: ac_simps)
qed simp

lemma dict_get_absent: "k \<notin> fst ` set d \<Longrightarrow> dict_get d k = None"
  by (simp add: map_of_eq_None_iff)

lemma dict_keys_set: "fst ` set (dict_set k v d) = insert k (fst ` set d)"
  by (induction d) auto

lemma group_messages_set [simp]:
  "group_messages (q\<lparr>message_groups := dict_set g h (message_groups q)\<rparr>) g' = (if g' = g then h else group_messages q g')"
  by (simp add: group_messages_def)

lemma group_messages_cong: "message_groups q' = message_groups q \<Longrightarrow> group_messages q' = group_messages q"
  by (rule ext) (simp add: group_messages_def)

lemma fifo_waiting_cong: "message_groups q' = message_groups q \<Longrightarrow> fifo_waiting q' = fifo_waiting q"
  by (simp add: fifo_waiting_def)

lemma fifo_waiting_set:
  "mset (fifo_waiting (q\<lparr>message_groups := dict_set g h (message_groups q)\<rparr>)) + mset (group_messages q g) =
   mset (fifo_waiting q) + mset h"
  unfolding fifo_waiting_def group_messages_def using mset_dict_set [of g h "message_groups q"] by simp

lemma set_fifo_waiting: "dict_wf (message_groups q) \<Longrightarrow> set (fifo_waiting q) = (\<Union>g. set (group_messages q g))"
  unfolding fifo_waiting_def group_messages_def
  by (force simp: map_of_eq_Some_iff split: option.splits dest: map_of_SomeD)

lemma in_group_waiting: "r \<in> set (group_messages q g) \<Longrightarrow> r \<in> set (fifo_waiting q)"
  unfolding fifo_waiting_def group_messages_def
  by (cases "dict_get (message_groups q) g") (simp, auto dest!: map_of_SomeD, metis snd_conv)

lemma fifo_more:
  assumes "sqs_queue.more q = sqs_queue.more (q' :: fifo_queue)"
  shows "message_groups q = message_groups q'" "inflight_groups q = inflight_groups q'"
    "message_group_queue q = message_group_queue q'" "deduplication q = deduplication q'"
    "deduplication_scope q = deduplication_scope q'"
  using assms by (cases q, cases q', simp)+

subsection \<open>The contract of the base class\<close>

definition fifo_ok :: "fifo_queue \<Rightarrow> bool" where
  "fifo_ok q \<longleftrightarrow> dict_wf (message_groups q) \<and>
     (\<forall>g. is_heap (msg_priority q) (group_messages q g) \<and>
        (\<forall>r \<in> set (group_messages q g). r < next_ref q \<and> message_group_id (obj q r) = g) \<and>
        (group_messages q g \<noteq> [] \<longrightarrow> g \<in> set (message_group_queue q) \<union> set (inflight_groups q)))"

lemma fifo_okI:
  assumes "dict_wf (message_groups q)" "\<And>g. is_heap (msg_priority q) (group_messages q g)"
    and "\<And>g r. r \<in> set (group_messages q g) \<Longrightarrow> r < next_ref q \<and> message_group_id (obj q r) = g"
    and "\<And>g. group_messages q g \<noteq> [] \<Longrightarrow> g \<in> set (message_group_queue q) \<union> set (inflight_groups q)"
  shows "fifo_ok q"
  unfolding fifo_ok_def using assms by blast

lemma fifo_okD:
  assumes "fifo_ok q"
  shows "dict_wf (message_groups q)" "is_heap (msg_priority q) (group_messages q g)"
    "r \<in> set (group_messages q g) \<Longrightarrow> r < next_ref q \<and> message_group_id (obj q r) = g"
    "group_messages q g \<noteq> [] \<Longrightarrow> g \<in> set (message_group_queue q) \<union> set (inflight_groups q)"
  using assms unfolding fifo_ok_def by blast+

lemma fifo_waiting_group:
  assumes "fifo_ok q" "r \<in> set (fifo_waiting q)"
  shows "r \<in> set (group_messages q (message_group_id (obj q r)))"
  using assms(2) fifo_okD(3) [OF assms(1)] unfolding set_fifo_waiting [OF fifo_okD(1) [OF assms(1)]] by auto

lemma get_message_group_simps [simp]:
  "group_messages (get_message_group g q) g' = group_messages q g'"
  "mset (fifo_waiting (get_message_group g q)) = mset (fifo_waiting q)"
  "sqs_queue.truncate (get_message_group g q) = sqs_queue.truncate q"
  "inflight_groups (get_message_group g q) = inflight_groups q"
  "message_group_queue (get_message_group g q) = message_group_queue q"
  "deduplication (get_message_group g q) = deduplication q"
  "deduplication_scope (get_message_group g q) = deduplication_scope q"
  "objs (get_message_group g q) = objs q" "next_ref (get_message_group g q) = next_ref q"
  "inflight (get_message_group g q) = inflight q" "delayed (get_message_group g q) = delayed q"
  "dict_wf (message_groups q) \<Longrightarrow> dict_wf (message_groups (get_message_group g q))"
  "dict_has (message_groups (get_message_group g q)) g"
proof -
  show "mset (fifo_waiting (get_message_group g q)) = mset (fifo_waiting q)"
    using fifo_waiting_set [of g "[]" q]
    by (auto simp: get_message_group_def group_messages_def dict_get_absent)
qed (auto simp: get_message_group_def group_messages_def sqs_queue.truncate_def dict_get_absent dict_keys_set)

text \<open>What \<open>_put_message\<close> does to the groups.\<close>

lemma fifo_put_message_simps [simp]:
  "group_messages (fifo_put_message r q) g =
     (if g = message_group_id (obj q r) then heappush (msg_priority q) (group_messages q g) r else group_messages q g)"
  "mset (fifo_waiting (fifo_put_message r q)) = add_mset r (mset (fifo_waiting q))"
  "sqs_queue.truncate (fifo_put_message r q) = sqs_queue.truncate q"
  "deduplication (fifo_put_message r q) = deduplication q"
  "deduplication_scope (fifo_put_message r q) = deduplication_scope q"
  "dict_wf (message_groups q) \<Longrightarrow> dict_wf (message_groups (fifo_put_message r q))"
proof -
  let ?g = "message_group_id (obj q r)"
  let ?q1 = "get_message_group ?g q"
  define q2 where "q2 = group_push ?g r ?q1"
  have m: "message_groups (fifo_put_message r q) = message_groups q2"
    by (simp add: fifo_put_message_def Let_def q2_def)
  have w: "mset (fifo_waiting q2) = add_mset r (mset (fifo_waiting q))"
    using fifo_waiting_set [of ?g "heappush (msg_priority ?q1) (group_messages ?q1 ?g) r" ?q1]
    by (simp add: q2_def group_push_def)
  show "group_messages (fifo_put_message r q) g =
     (if g = ?g then heappush (msg_priority q) (group_messages q g) r else group_messages q g)"
    unfolding group_messages_cong [OF m] by (simp add: q2_def group_push_def)
  show "mset (fifo_waiting (fifo_put_message r q)) = add_mset r (mset (fifo_waiting q))"
    unfolding fifo_waiting_cong [OF m] by (rule w)
  show "sqs_queue.truncate (fifo_put_message r q) = sqs_queue.truncate q"
    using get_message_group_simps(3) [of ?g q]
    by (simp add: fifo_put_message_def Let_def group_push_def sqs_queue.truncate_def)
  show "deduplication (fifo_put_message r q) = deduplication q"
    "deduplication_scope (fifo_put_message r q) = deduplication_scope q"
    by (simp_all add: fifo_put_message_def Let_def group_push_def)
  show "dict_wf (message_groups (fifo_put_message r q))" if "dict_wf (message_groups q)"
    using that get_message_group_simps(12) unfolding m by (simp add: q2_def group_push_def)
qed

lemma fifo_put_message_groups:
  fixes q r
  defines "g \<equiv> message_group_id (obj q r)"
  shows "inflight_groups (fifo_put_message r q) =
      (if 1 \<le> receive_count (obj q r) then removeAll g (inflight_groups q) else inflight_groups q)"
    "message_group_queue (fifo_put_message r q) = message_group_queue q @
      (if (if g \<in> set (inflight_groups q) then 1 \<le> receive_count (obj q r) else group_messages q g = []) then [g] else [])"
  unfolding g_def by (auto simp: fifo_put_message_def Let_def group_push_def group_empty_def)

lemma fifo_put_message_base [simp]:
  "objs (fifo_put_message r q) = objs q" "next_ref (fifo_put_message r q) = next_ref q"
  "inflight (fifo_put_message r q) = inflight q" "delayed (fifo_put_message r q) = delayed q"
  "receipts (fifo_put_message r q) = receipts q" "attributes (fifo_put_message r q) = attributes q"
  using fifo_put_message_simps(3) [of r q] by (simp_all add: sqs_queue.truncate_def)

lemma fifo_ok_put:
  assumes "fifo_ok q" "r < next_ref q"
  shows "fifo_ok (fifo_put_message r q)"
proof (rule fifo_okI)
  note ok = fifo_okD [OF assms(1)]
  show "dict_wf (message_groups (fifo_put_message r q))" by (simp add: ok)
  fix g
  show "is_heap (msg_priority (fifo_put_message r q)) (group_messages (fifo_put_message r q) g)"
    using ok(2) [of g] by auto
  show "x < next_ref (fifo_put_message r q) \<and> message_group_id (obj (fifo_put_message r q) x) = g"
    if "x \<in> set (group_messages (fifo_put_message r q) g)" for x
  proof -
    have "x = r \<and> g = message_group_id (obj q r) \<or> x \<in> set (group_messages q g)"
      using that set_mset_mset [of "heappush (msg_priority q) (group_messages q g) r"] by (auto split: if_splits)
    then show ?thesis using ok(3) [of x g] assms(2) by auto
  qed
  show "g \<in> set (message_group_queue (fifo_put_message r q)) \<union> set (inflight_groups (fifo_put_message r q))"
    if "group_messages (fifo_put_message r q) g \<noteq> []"
    using that ok(4) [of g] by (auto simp: fifo_put_message_groups split: if_splits)
qed

lemma fifo_ok_frame:
  assumes "fifo_ok q" "sqs_queue.more q' = sqs_queue.more q" "next_ref q \<le> next_ref q'"
    and same: "\<And>r. r < next_ref q \<Longrightarrow> priority (obj q' r) = priority (obj q r) \<and>
         message_group_id (obj q' r) = message_group_id (obj q r)"
  shows "fifo_ok q'"
proof (rule fifo_okI)
  note ok = fifo_okD [OF assms(1)] and more = fifo_more [OF assms(2)]
  have gm: "group_messages q' = group_messages q" by (rule group_messages_cong [OF more(1)])
  show "dict_wf (message_groups q')" using ok(1) more by simp
  fix g
  show "is_heap (msg_priority q') (group_messages q' g)"
    using ok(2) [of g] ok(3) same heap_from_cong [of "group_messages q g" "msg_priority q'" "msg_priority q" 0] by (simp add: gm)
  show "r < next_ref q' \<and> message_group_id (obj q' r) = g" if "r \<in> set (group_messages q' g)" for r
    using ok(3) [of r g] that same [of r] assms(3) unfolding gm by auto
  show "g \<in> set (message_group_queue q') \<union> set (inflight_groups q')" if "group_messages q' g \<noteq> []"
    using ok(4) [of g] that more unfolding gm by simp
qed

text \<open>Removing a message: its group becomes visible again when none of its messages is in flight any more.\<close>

lemma update_visibility_simps [simp]:
  "message_groups (update_message_group_visibility g q) = message_groups q"
  "sqs_queue.truncate (update_message_group_visibility g q) = sqs_queue.truncate q"
  "deduplication (update_message_group_visibility g q) = deduplication q"
  "deduplication_scope (update_message_group_visibility g q) = deduplication_scope q"
  by (simp_all add: update_message_group_visibility_def Let_def sqs_queue.truncate_def)

lemma update_visibility_base [simp]:
  "objs (update_message_group_visibility g q) = objs q" "next_ref (update_message_group_visibility g q) = next_ref q"
  "inflight (update_message_group_visibility g q) = inflight q" "delayed (update_message_group_visibility g q) = delayed q"
  "receipts (update_message_group_visibility g q) = receipts q" "attributes (update_message_group_visibility g q) = attributes q"
  using update_visibility_simps(2) [of g q] by (simp_all add: sqs_queue.truncate_def)

lemma fifo_ok_update_visibility:
  assumes "fifo_ok q"
  shows "fifo_ok (update_message_group_visibility g q)"
proof (rule fifo_okI)
  note ok = fifo_okD [OF assms]
  let ?q = "update_message_group_visibility g q"
  have gm: "group_messages ?q = group_messages q" by (rule group_messages_cong) simp
  show "dict_wf (message_groups ?q)" using ok(1) by simp
  fix g'
  show "is_heap (msg_priority ?q) (group_messages ?q g')" using ok(2) by (simp add: gm)
  show "r < next_ref ?q \<and> message_group_id (obj ?q r) = g'" if "r \<in> set (group_messages ?q g')" for r
    using ok(3) that by (simp add: gm)
  show "g' \<in> set (message_group_queue ?q) \<union> set (inflight_groups ?q)" if "group_messages ?q g' \<noteq> []"
    using ok(4) [of g'] that unfolding gm
    by (auto simp: update_message_group_visibility_def Let_def group_empty_def group_messages_def)
qed

lemma fifo_ok_get_group: "fifo_ok q \<Longrightarrow> fifo_ok (get_message_group g q)"
  unfolding fifo_ok_def using get_message_group_simps(12) [of q g] by simp

lemma fifo_on_remove_simps:
  "message_groups (fifo_on_remove_message r q) = message_groups (get_message_group (message_group_id (obj q r)) q)"
  "inflight (fifo_on_remove_message r q) = remove_by_id q r (inflight q)"
  by (simp_all add: fifo_on_remove_message_def Let_def remove_by_id_cong [of "get_message_group (message_group_id (obj q r)) q" q])

interpretation fifo: removing_queue_class fifo_waiting fifo_put_message fifo_ok
  fifo_on_remove_message "\<lambda>r q. r \<notin> set (fifo_waiting q)"
proof unfold_locales
  fix r :: ref and q q' :: fifo_queue
  show "fifo_waiting q = fifo_waiting q'" if "sqs_queue.more q = sqs_queue.more q'"
    using fifo_more(1) [OF that] by (simp add: fifo_waiting_def)
  then show "(r \<notin> set (fifo_waiting q)) = (r \<notin> set (fifo_waiting q'))" if "sqs_queue.more q = sqs_queue.more q'"
    using that by simp
  have w: "mset (fifo_waiting (fifo_on_remove_message r q)) = mset (fifo_waiting q)"
    unfolding fifo_waiting_cong [OF fifo_on_remove_simps(1)] by simp
  show "mset (fifo_waiting (fifo_on_remove_message r q)) + mset (inflight (fifo_on_remove_message r q)) \<subseteq>#
      mset (fifo_waiting q) + mset (inflight q)"
    unfolding w fifo_on_remove_simps(2) using mset_remove_by_id [of q r] by simp
  show "r \<notin> set (fifo_waiting (fifo_on_remove_message r q)) \<union> set (inflight (fifo_on_remove_message r q))"
    if "r \<notin> set (fifo_waiting q)" "distinct (map (mid q) (fifo_waiting q @ inflight q))"
  proof -
    have "distinct (map (mid q) (inflight q))" using that(2) by simp
    then show ?thesis
      using that(1) mset_eq_setD [OF w] by (simp add: fifo_on_remove_simps(2) remove_by_id_filter)
  qed
  show "sqs_queue.truncate (fifo_on_remove_message r q) = (sqs_queue.truncate q)\<lparr>inflight := inflight (fifo_on_remove_message r q)\<rparr>"
    by (simp add: fifo_on_remove_message_def Let_def) (simp add: sqs_queue.truncate_def get_message_group_def)
  show "fifo_ok (fifo_on_remove_message r q)" if "fifo_ok q"
    unfolding fifo_on_remove_message_def Let_def
    by (rule fifo_ok_update_visibility, rule fifo_ok_frame [OF fifo_ok_get_group [OF that]]) simp_all
qed (simp_all add: fifo_ok_put fifo_ok_frame)

subsection \<open>What \<open>receive\<close> collects\<close>

text \<open>
  The messages the inner loop takes from a group are the oldest ones, in order; they are marked as received and the
  other groups stay as they are.
\<close>

definition group_takes ::
  "time \<Rightarrow> int \<Rightarrow> int option \<Rightarrow> group_id \<Rightarrow> fifo_queue \<Rightarrow> ref list \<Rightarrow> fifo_queue \<Rightarrow> bool" where
  "group_takes now v limit g q xs q' \<longleftrightarrow>
     q' = q\<lparr>objs := (\<lambda>r. if r \<in> set xs then received now v limit (obj q r) else obj q r), message_groups := message_groups q'\<rparr> \<and>
     (\<forall>g'. g' \<noteq> g \<longrightarrow> group_messages q' g' = group_messages q g') \<and>
     mset (group_messages q g) = mset xs + mset (group_messages q' g) \<and>
     mset (fifo_waiting q) = mset xs + mset (fifo_waiting q') \<and>
     dict_wf (message_groups q') \<and> is_heap (msg_priority q) (group_messages q' g) \<and>
     sorted (map (msg_priority q) xs) \<and>
     (\<forall>x \<in> set xs. \<forall>y \<in> set (group_messages q' g). msg_priority q x \<le> msg_priority q y)"

lemma group_takesD:
  assumes "group_takes now v limit g q xs q'"
  shows "q' = q\<lparr>objs := (\<lambda>r. if r \<in> set xs then received now v limit (obj q r) else obj q r), message_groups := message_groups q'\<rparr>"
    "g' \<noteq> g \<Longrightarrow> group_messages q' g' = group_messages q g'"
    "mset (group_messages q g) = mset xs + mset (group_messages q' g)"
    "mset (fifo_waiting q) = mset xs + mset (fifo_waiting q')"
    "dict_wf (message_groups q')" "is_heap (msg_priority q) (group_messages q' g)" "sorted (map (msg_priority q) xs)"
    "x \<in> set xs \<Longrightarrow> y \<in> set (group_messages q' g) \<Longrightarrow> msg_priority q x \<le> msg_priority q y"
  using assms unfolding group_takes_def by blast+

lemma group_takes_frame:
  assumes "group_takes now v limit g q xs q'"
  shows "obj q' r = (if r \<in> set xs then received now v limit (obj q r) else obj q r)"
    "message_group_queue q' = message_group_queue q" "inflight_groups q' = inflight_groups q"
    "inflight q' = inflight q" "delayed q' = delayed q" "receipts q' = receipts q" "next_ref q' = next_ref q"
    "attributes q' = attributes q" "is_shutdown q' = is_shutdown q" "queue_arn q' = queue_arn q"
    "deduplication q' = deduplication q" "deduplication_scope q' = deduplication_scope q"
    "set (group_messages q g) = set xs \<union> set (group_messages q' g)"
    "set (fifo_waiting q) = set xs \<union> set (fifo_waiting q')"
proof -
  show "obj q' r = (if r \<in> set xs then received now v limit (obj q r) else obj q r)"
    "message_group_queue q' = message_group_queue q" "inflight_groups q' = inflight_groups q"
    "inflight q' = inflight q" "delayed q' = delayed q" "receipts q' = receipts q" "next_ref q' = next_ref q"
    "attributes q' = attributes q" "is_shutdown q' = is_shutdown q" "queue_arn q' = queue_arn q"
    "deduplication q' = deduplication q" "deduplication_scope q' = deduplication_scope q"
    by (subst group_takesD(1) [OF assms], simp add: queue_arn_def)+
  show "set (group_messages q g) = set xs \<union> set (group_messages q' g)"
    "set (fifo_waiting q) = set xs \<union> set (fifo_waiting q')"
    using group_takesD(3,4) [OF assms] by (metis set_mset_mset set_mset_union)+
qed

lemma group_takes_Nil:
  assumes "fifo_ok q"
  shows "group_takes now v limit g q [] q"
  using fifo_okD [OF assms] by (simp add: group_takes_def)

lemma group_takes_Cons:
  assumes pop: "heappop (msg_priority q) (group_messages q g) = Some (r, rest)" and ok: "fifo_ok q"
    and dist: "distinct (fifo_waiting q)"
    and q3: "q3 = q\<lparr>message_groups := dict_set g rest (message_groups q), objs := (objs q)(r := received now v limit (obj q r))\<rparr>"
    and t: "group_takes now v limit g q3 xs q'"
  shows "group_takes now v limit g q (r # xs) q'"
proof -
  have p: "is_heap (msg_priority q) rest" "mset (group_messages q g) = add_mset r (mset rest)"
    "\<forall>y \<in> set (group_messages q g). msg_priority q r \<le> msg_priority q y"
    using heappop_spec [OF fifo_okD(2) [OF ok] pop] by blast+
  note D = group_takesD [OF t] and F = group_takes_frame [OF t]
  have prio: "msg_priority q3 x = msg_priority q x" for x by (simp add: q3)
  have prio': "msg_priority q3 = msg_priority q" by (rule ext) (rule prio)
  have gm: "group_messages q3 g' = (if g' = g then rest else group_messages q g')" for g'
    by (simp add: q3 group_messages_def)
  have w: "mset (fifo_waiting q) = add_mset r (mset (fifo_waiting q3))"
    using fifo_waiting_set [of g rest q] p(2) by (simp add: q3 fifo_waiting_def)
  then have "distinct (r # fifo_waiting q3)" using dist mset_eq_imp_distinct_iff [of "fifo_waiting q" "r # fifo_waiting q3"] by simp
  then have r: "r \<notin> set xs" using F(14) by auto
  have set_g: "set (group_messages q g) = insert r (set rest)" using p(2) by (metis set_mset_mset set_mset_add_mset_insert)
  have rest: "set rest = set xs \<union> set (group_messages q' g)" using F(13) by (simp add: gm)
  have "(\<lambda>x. if x \<in> set xs then received now v limit (obj q3 x) else obj q3 x) =
      (\<lambda>x. if x \<in> set (r # xs) then received now v limit (obj q x) else obj q x)"
    using r by (auto simp: q3)
  then have "q' = q\<lparr>objs := (\<lambda>x. if x \<in> set (r # xs) then received now v limit (obj q x) else obj q x), message_groups := message_groups q'\<rparr>"
    using D(1) by (simp add: q3)
  moreover have "group_messages q' g' = group_messages q g'" if "g' \<noteq> g" for g' using D(2) [OF that] that by (simp add: gm)
  moreover have "mset (group_messages q g) = mset (r # xs) + mset (group_messages q' g)"
    "mset (fifo_waiting q) = mset (r # xs) + mset (fifo_waiting q')" using D(3,4) p(2) w by (simp_all add: gm)
  moreover have "sorted (map (msg_priority q) (r # xs))" using D(7) p(3) set_g rest unfolding prio' by auto
  moreover have "\<forall>x \<in> set (r # xs). \<forall>y \<in> set (group_messages q' g). msg_priority q x \<le> msg_priority q y"
    using D(8) p(3) set_g rest by (auto simp: prio)
  ultimately show ?thesis using D(5,6) unfolding group_takes_def prio' by blast
qed

lemma group_takes_ok:
  assumes "group_takes now v limit g q xs q'" "fifo_ok q"
  shows "fifo_ok q'"
proof (rule fifo_okI)
  note D = group_takesD [OF assms(1)] and F = group_takes_frame [OF assms(1)] and ok = fifo_okD [OF assms(2)]
  have prio: "msg_priority q' = msg_priority q" by (rule ext) (simp add: F(1))
  have grp: "message_group_id (obj q' x) = message_group_id (obj q x)" for x by (simp add: F(1))
  show "dict_wf (message_groups q')" by (rule D(5))
  fix g'
  have sub: "set (group_messages q' g') \<subseteq> set (group_messages q g')"
    using F(13) D(2) [of g'] by (cases "g' = g") auto
  show "is_heap (msg_priority q') (group_messages q' g')"
    unfolding prio using D(2) [of g'] D(6) ok(2) [of g'] by (cases "g' = g") auto
  show "r < next_ref q' \<and> message_group_id (obj q' r) = g'" if "r \<in> set (group_messages q' g')" for r
    using ok(3) [of r g'] that sub unfolding grp F(7) by blast
  show "g' \<in> set (message_group_queue q') \<union> set (inflight_groups q')" if "group_messages q' g' \<noteq> []"
  proof -
    have "group_messages q g' \<noteq> []" using that sub by (cases "group_messages q' g'") auto
    then show ?thesis using ok(4) unfolding F(2,3) by blast
  qed
qed

text \<open>The messages beyond the receive limit go to the dead letters, the others are returned.\<close>

definition sorts_out ::
  "time \<Rightarrow> int \<Rightarrow> int option \<Rightarrow> fifo_queue \<Rightarrow> ref list \<Rightarrow> ref list \<Rightarrow> ref list \<Rightarrow> (ref list \<times> ref list) result \<Rightarrow> bool" where
  "sorts_out now v limit q ok dead xs res \<longleftrightarrow>
     (\<forall>ok' dead'. res = Inr (ok', dead') \<longrightarrow>
        ok' = ok @ filter (\<lambda>r. \<not> exceeds_max_receive_count limit (mark_received now v (obj q r))) xs \<and>
        dead' = dead @ filter (\<lambda>r. exceeds_max_receive_count limit (mark_received now v (obj q r))) xs)"

lemma sorts_out_Nil: "sorts_out now v limit q ok dead [] (Inr (ok, dead))"
  by (simp add: sorts_out_def)

lemma sorts_out_Inl: "sorts_out now v limit q ok dead xs (Inl e)"
  by (simp add: sorts_out_def)

lemma sorts_out_Cons:
  assumes "sorts_out now v limit q' (ok @ (if exceeds_max_receive_count limit (mark_received now v (obj q r)) then [] else [r]))
      (dead @ (if exceeds_max_receive_count limit (mark_received now v (obj q r)) then [r] else [])) xs res"
    and "\<And>x. x \<in> set xs \<Longrightarrow> obj q' x = obj q x"
  shows "sorts_out now v limit q ok dead (r # xs) res"
proof -
  have "filter (\<lambda>r. exceeds_max_receive_count limit (mark_received now v (obj q' r))) xs =
      filter (\<lambda>r. exceeds_max_receive_count limit (mark_received now v (obj q r))) xs"
    "filter (\<lambda>r. \<not> exceeds_max_receive_count limit (mark_received now v (obj q' r))) xs =
      filter (\<lambda>r. \<not> exceeds_max_receive_count limit (mark_received now v (obj q r))) xs"
    by (rule filter_cong; simp add: assms(2))+
  then show ?thesis using assms(1) unfolding sorts_out_def by (simp split: if_splits)
qed

lemma sorts_out_append:
  assumes "sorts_out now v limit q ok dead xs (Inr (ok1, dead1))" "sorts_out now v limit q' ok1 dead1 ys res"
    and "\<And>x. x \<in> set ys \<Longrightarrow> obj q' x = obj q x"
  shows "sorts_out now v limit q ok dead (xs @ ys) res"
proof -
  have "filter (\<lambda>r. exceeds_max_receive_count limit (mark_received now v (obj q' r))) ys =
      filter (\<lambda>r. exceeds_max_receive_count limit (mark_received now v (obj q r))) ys"
    "filter (\<lambda>r. \<not> exceeds_max_receive_count limit (mark_received now v (obj q' r))) ys =
      filter (\<lambda>r. \<not> exceeds_max_receive_count limit (mark_received now v (obj q r))) ys"
    by (rule filter_cong; simp add: assms(3))+
  then show ?thesis using assms(1,2) unfolding sorts_out_def by simp
qed

lemma fifo_collect_group_takes:
  assumes "fifo_ok q" "distinct (fifo_waiting q)" "\<forall>r \<in> set (fifo_waiting q). \<not> deleted (obj q r)"
    and "fifo_collect_group now v limit num g q ok dead = (res, q')"
  shows "\<exists>xs. group_takes now v limit g q xs q' \<and> (group_messages q g \<noteq> [] \<longrightarrow> xs \<noteq> []) \<and>
    sorts_out now v limit q ok dead xs res \<and>
    (\<forall>ok' dead'. res = Inr (ok', dead') \<longrightarrow> group_messages q' g = [] \<or> int (length ok') = num)"
  using assms
proof (induction "length (group_messages q g)" arbitrary: q ok dead rule: less_induct)
  case less
  note ok_q = less.prems(1)
  show ?case
  proof (cases "heappop (msg_priority q) (group_messages q g)")
    case None
    then have "q' = q" "res = Inr (ok, dead)" "group_messages q g = []"
      using less.prems(4) by (subst (asm) fifo_collect_group.simps, simp add: group_pop_def)+
    then show ?thesis using group_takes_Nil [OF ok_q] sorts_out_Nil by blast
  next
    case (Some p)
    then obtain r rest where pop: "heappop (msg_priority q) (group_messages q g) = Some (r, rest)" by (cases p) simp
    have p: "is_heap (msg_priority q) rest" "mset (group_messages q g) = add_mset r (mset rest)"
      using heappop_spec [OF fifo_okD(2) [OF ok_q] pop] by blast+
    let ?rec = "received now v limit (obj q r)" and ?m = "mark_received now v (obj q r)"
    define q3 where "q3 = q\<lparr>message_groups := dict_set g rest (message_groups q), objs := (objs q)(r := ?rec)\<rparr>"
    define ok3 where "ok3 = ok @ (if exceeds_max_receive_count limit ?m then [] else [r])"
    define dead3 where "dead3 = dead @ (if exceeds_max_receive_count limit ?m then [r] else [])"
    note cons = group_takes_Cons [OF pop ok_q less.prems(2) q3_def]
    have "group_takes now v limit g q [r] q3"
    proof -
      have gm: "group_messages q3 g' = (if g' = g then rest else group_messages q g')" for g'
        by (simp add: q3_def group_messages_def)
      have w: "mset (fifo_waiting q) = add_mset r (mset (fifo_waiting q3))"
        using fifo_waiting_set [of g rest q] p(2) by (simp add: q3_def fifo_waiting_def)
      have "msg_priority q3 x = msg_priority q x" for x by (simp add: q3_def)
      then have "is_heap (msg_priority q3) rest"
        using p(1) heap_from_cong [of rest "msg_priority q3" "msg_priority q" 0] by simp
      then have "group_takes now v limit g q3 [] q3"
        using fifo_okD(1) [OF ok_q] by (auto simp: group_takes_def gm) (simp add: q3_def)
      then show ?thesis by (rule cons)
    qed
    note ok3 = group_takes_ok [OF this ok_q] and F = group_takes_frame [OF this]
    have r: "r \<in> set (fifo_waiting q)" using F(14) by simp
    have alive: "\<not> deleted (obj q r)" using less.prems(3) r by blast
    have len: "length (group_messages q3 g) < length (group_messages q g)"
      using heappop_length [OF pop] by (simp add: q3_def group_messages_def)
    have dist: "distinct (r # fifo_waiting q3)"
      using less.prems(2) group_takesD(4) [OF \<open>group_takes now v limit g q [r] q3\<close>]
        mset_eq_imp_distinct_iff [of "fifo_waiting q" "r # fifo_waiting q3"] by simp
    have d3: "distinct (fifo_waiting q3)" "\<forall>x \<in> set (fifo_waiting q3). \<not> deleted (obj q3 x)"
      using dist less.prems(3) F(1,14) by auto
    note IH = less.hyps [OF len ok3 d3]
    have step: "(res, q') = fifo_collect_group now v limit num g q3 ok3 dead3 \<or>
      q' = q3 \<and> (res = Inr (ok3, dead3) \<and> int (length ok3) = num \<or> (\<exists>e. res = Inl e))"
      using less.prems(4) alive
      by (subst (asm) fifo_collect_group.simps)
        (auto simp: group_pop_def pop Let_def q3_def ok3_def dead3_def upd_obj_def received_def split: if_splits sum.splits)
    have res: ?thesis
      if "group_takes now v limit g q3 xs q'" "sorts_out now v limit q3 ok3 dead3 xs res"
        "\<forall>ok' dead'. res = Inr (ok', dead') \<longrightarrow> group_messages q' g = [] \<or> int (length ok') = num" for xs
    proof -
      have "obj q3 x = obj q x" if "x \<in> set xs" for x
        using that dist group_takes_frame(14) [OF \<open>group_takes now v limit g q3 xs q'\<close>] by (auto simp: q3_def)
      then have "sorts_out now v limit q ok dead (r # xs) res"
        using sorts_out_Cons [of now v limit q3 ok q r dead xs res] that(2) by (simp add: ok3_def dead3_def)
      then show ?thesis using cons [OF that(1)] that(3) by (intro exI [of _ "r # xs"]) simp
    qed
    from step show ?thesis
    proof (elim disjE conjE)
      assume "(res, q') = fifo_collect_group now v limit num g q3 ok3 dead3"
      then show ?thesis using IH [of ok3 dead3] res by metis
    next
      assume "q' = q3" "res = Inr (ok3, dead3)" "int (length ok3) = num"
      then show ?thesis using res [of "[]"] group_takes_Nil [OF ok3] sorts_out_Nil by blast
    next
      assume "q' = q3" "\<exists>e. res = Inl e"
      then show ?thesis using res [of "[]"] group_takes_Nil [OF ok3] sorts_out_Inl by blast
    qed
  qed
qed

text \<open>
  The outer loop takes groups from the front of the group queue: an empty group is dropped, any other goes
  into flight with the messages taken from it, and only the last one may keep some.
\<close>

inductive fifo_takes ::
  "time \<Rightarrow> int \<Rightarrow> int option \<Rightarrow> fifo_queue \<Rightarrow> (group_id \<times> ref list) list \<Rightarrow> fifo_queue \<Rightarrow> bool" for now v limit where
  fifo_takes_stop: "fifo_takes now v limit q [] q"
| fifo_takes_skip: "message_group_queue q = g # rest \<Longrightarrow> group_messages q g = [] \<Longrightarrow>
    fifo_takes now v limit (q\<lparr>message_group_queue := rest\<rparr>) segs q' \<Longrightarrow> fifo_takes now v limit q segs q'"
| fifo_takes_group: "message_group_queue q = g # rest \<Longrightarrow> xs \<noteq> [] \<Longrightarrow>
    group_takes now v limit g (q\<lparr>message_group_queue := rest, inflight_groups := List.insert g (inflight_groups q)\<rparr>) xs q3 \<Longrightarrow>
    segs = [] \<or> group_messages q3 g = [] \<Longrightarrow> fifo_takes now v limit q3 segs q' \<Longrightarrow>
    fifo_takes now v limit q ((g, xs) # segs) q'"

abbreviation taken :: "(group_id \<times> ref list) list \<Rightarrow> ref list" where
  "taken segs \<equiv> concat (map snd segs)"

lemma fifo_waiting_upd [simp]:
  "fifo_waiting (q\<lparr>message_group_queue := x\<rparr>) = fifo_waiting q"
  "fifo_waiting (q\<lparr>inflight_groups := y\<rparr>) = fifo_waiting q"
  "group_messages (q\<lparr>message_group_queue := x\<rparr>) g = group_messages q g"
  "group_messages (q\<lparr>inflight_groups := y\<rparr>) g = group_messages q g"
  by (simp_all add: fifo_waiting_def group_messages_def)

lemma fifo_ok_skip:
  assumes "fifo_ok q" "message_group_queue q = g # rest" "group_messages q g = []"
  shows "fifo_ok (q\<lparr>message_group_queue := rest\<rparr>)"
  using assms unfolding fifo_ok_def by auto

lemma fifo_ok_pop:
  assumes "fifo_ok q" "message_group_queue q = g # rest"
  shows "fifo_ok (q\<lparr>message_group_queue := rest, inflight_groups := List.insert g (inflight_groups q)\<rparr>)"
  using assms unfolding fifo_ok_def by auto

lemma interruptible_popleft:
  "interruptible_get queue_popleft sd block wait gs = Inr (Some (g, rest)) \<Longrightarrow> gs = g # rest"
  "interruptible_get queue_popleft sd block wait gs = Inr None \<Longrightarrow> sd \<or> gs = []"
  by (auto simp: interruptible_get_def queue_popleft_def split: if_splits list.splits)

lemma fifo_collect_takes:
  assumes "fifo_ok q" "distinct (fifo_waiting q)" "\<forall>r \<in> set (fifo_waiting q). \<not> deleted (obj q r)"
    and "fifo_collect now v limit num poll block wait q ok dead = (res, q')"
  shows "\<exists>segs. fifo_takes now v limit q segs q' \<and> sorts_out now v limit q ok dead (taken segs) res \<and>
    set (taken segs) \<subseteq> set (fifo_waiting q) \<and>
    (\<forall>ok' dead'. res = Inr (ok', dead') \<longrightarrow> message_group_queue q' = [] \<or> is_shutdown q \<or> int (length ok') = num)"
  using assms
proof (induction "length (message_group_queue q)" arbitrary: q block wait ok dead rule: less_induct)
  case less
  note ok_q = less.prems(1)
  let ?get = "interruptible_get queue_popleft (is_shutdown q) block wait (message_group_queue q)"
  show ?case
  proof (cases "\<exists>g rest. ?get = Inr (Some (g, rest))")
    case False
    then have "q' = q \<and> (res = Inr (ok, dead) \<and> (is_shutdown q \<or> message_group_queue q = []) \<or> (\<exists>e. res = Inl e))"
      using less.prems(4) interruptible_popleft(2) [of "is_shutdown q" block wait "message_group_queue q"]
      by (subst (asm) fifo_collect.simps) (auto split: sum.splits option.splits if_splits)
    then show ?thesis using fifo_takes_stop sorts_out_Nil sorts_out_Inl by (intro exI [of _ "[]"]) auto
  next
    case True
    then obtain g rest where get: "?get = Inr (Some (g, rest))" by blast
    note gq = interruptible_popleft(1) [OF get]
    let ?q1 = "q\<lparr>message_group_queue := rest\<rparr>"
    let ?q2 = "q\<lparr>message_group_queue := rest, inflight_groups := List.insert g (inflight_groups q)\<rparr>"
    note out = less.prems(4) [unfolded fifo_collect.simps [of now v limit num poll block wait q ok dead]]
    show ?thesis
    proof (cases "group_messages q g = []")
      case True
      then have c: "fifo_collect now v limit num poll block (max 0 wait) ?q1 ok dead = (res, q')"
        using out by (simp add: get group_empty_def)
      have "\<exists>segs. fifo_takes now v limit ?q1 segs q' \<and> sorts_out now v limit ?q1 ok dead (taken segs) res \<and>
        set (taken segs) \<subseteq> set (fifo_waiting ?q1) \<and>
        (\<forall>ok' dead'. res = Inr (ok', dead') \<longrightarrow> message_group_queue q' = [] \<or> is_shutdown ?q1 \<or> int (length ok') = num)"
        by (rule less.hyps [OF _ fifo_ok_skip [OF ok_q gq True] _ _ c]) (use less.prems(2,3) gq in simp_all)
      then obtain segs where "fifo_takes now v limit ?q1 segs q'" "sorts_out now v limit q ok dead (taken segs) res"
        "set (taken segs) \<subseteq> set (fifo_waiting q)"
        "\<forall>ok' dead'. res = Inr (ok', dead') \<longrightarrow> message_group_queue q' = [] \<or> is_shutdown q \<or> int (length ok') = num"
        by (auto simp: sorts_out_def)
      then show ?thesis using fifo_takes_skip [OF gq True] by blast
    next
      case False
      obtain res1 q3 where g1: "fifo_collect_group now v limit num g ?q2 ok dead = (res1, q3)" by fastforce
      have ok2: "fifo_ok ?q2" by (rule fifo_ok_pop [OF ok_q gq])
      obtain xs where xs: "group_takes now v limit g ?q2 xs q3" "xs \<noteq> []" "sorts_out now v limit ?q2 ok dead xs res1"
        "\<And>ok' dead'. res1 = Inr (ok', dead') \<Longrightarrow> group_messages q3 g = [] \<or> int (length ok') = num"
        using fifo_collect_group_takes [OF ok2 _ _ g1] less.prems(2,3) False by auto
      note F = group_takes_frame [OF xs(1)]
      have so: "sorts_out now v limit q ok dead xs res1" using xs(3) by (simp add: sorts_out_def)
      have sub: "set xs \<subseteq> set (fifo_waiting q)" using F(14) by auto
      have stop: ?thesis if "q' = q3" "res = res1" "\<And>ok' dead'. res1 = Inr (ok', dead') \<Longrightarrow> int (length ok') = num"
        using that so sub fifo_takes_group [OF gq xs(2,1) _ fifo_takes_stop]
        by (intro exI [of _ "[(g, xs)]"]) auto
      show ?thesis
      proof (cases res1)
        case (Inl e)
        then have "q' = q3" "res = res1" using out by (simp_all add: get group_empty_def False g1)
        then show ?thesis by (rule stop) (simp add: Inl)
      next
        case (Inr od)
        obtain ok1 dead1 where od: "res1 = Inr (ok1, dead1)" using Inr by (cases od) simp
        show ?thesis
        proof (cases "int (length ok1) = num")
          case True
          then have "q' = q3" "res = res1" using out od by (simp_all add: get group_empty_def False g1)
          then show ?thesis by (rule stop) (use od True in simp)
        next
          case more: False
          then have c: "fifo_collect now v limit num poll (block \<and> poll) wait q3 ok1 dead1 = (res, q')"
            using out by (simp add: get group_empty_def False g1 od)
          have w: "mset (fifo_waiting q) = mset (xs @ fifo_waiting q3)" using group_takesD(4) [OF xs(1)] by simp
          have d: "distinct (xs @ fifo_waiting q3)" using less.prems(2) mset_eq_imp_distinct_iff [OF w] by blast
          have sub3: "set (fifo_waiting q3) \<subseteq> set (fifo_waiting q)" using F(14) by auto
          have obj3: "obj q3 x = obj q x" if "x \<in> set (fifo_waiting q3)" for x using that d F(1) [of x] by auto
          have len: "length (message_group_queue q3) < length (message_group_queue q)" using F(2) gq by simp
          have "\<forall>r \<in> set (fifo_waiting q3). \<not> deleted (obj q3 r)" using obj3 sub3 less.prems(3) by auto
          note IH = less.hyps [OF len group_takes_ok [OF xs(1) ok2] _ this c]
          obtain segs where segs: "fifo_takes now v limit q3 segs q'" "sorts_out now v limit q3 ok1 dead1 (taken segs) res"
            "set (taken segs) \<subseteq> set (fifo_waiting q3)"
            "\<And>ok' dead'. res = Inr (ok', dead') \<Longrightarrow> message_group_queue q' = [] \<or> is_shutdown q3 \<or> int (length ok') = num"
            using IH d by auto
          have "sorts_out now v limit q ok dead (xs @ taken segs) res"
            by (rule sorts_out_append [OF so [unfolded od] segs(2)]) (use obj3 segs(3) in blast)
          moreover have "group_messages q3 g = []" using xs(4) [OF od] more by blast
          ultimately show ?thesis
            using fifo_takes_group [OF gq xs(2,1) _ segs(1)] segs(3,4) sub sub3 F(9) by (intro exI [of _ "(g, xs) # segs"]) auto
        qed
      qed
    qed
  qed
qed

lemma fifo_takes_frame:
  assumes "fifo_takes now v limit q segs q'" "distinct (fifo_waiting q)"
  shows "(\<forall>r. obj q' r = (if r \<in> set (taken segs) then received now v limit (obj q r) else obj q r)) \<and>
    inflight q' = inflight q \<and> delayed q' = delayed q \<and> receipts q' = receipts q \<and> next_ref q' = next_ref q \<and>
    attributes q' = attributes q \<and> is_shutdown q' = is_shutdown q \<and> queue_arn q' = queue_arn q \<and>
    deduplication q' = deduplication q \<and> deduplication_scope q' = deduplication_scope q \<and>
    mset (fifo_waiting q) = mset (taken segs) + mset (fifo_waiting q') \<and>
    set (inflight_groups q') = set (inflight_groups q) \<union> fst ` set segs"
  using assms
proof (induction rule: fifo_takes.induct)
  case (fifo_takes_skip q g rest segs q')
  then show ?case by (simp add: queue_arn_def)
next
  case (fifo_takes_group q g rest xs q3 segs q')
  note F = group_takes_frame [OF fifo_takes_group(3)]
  have w: "mset (fifo_waiting q) = mset (xs @ fifo_waiting q3)" using group_takesD(4) [OF fifo_takes_group(3)] by simp
  have d: "distinct (xs @ fifo_waiting q3)" using fifo_takes_group.prems mset_eq_imp_distinct_iff [OF w] by blast
  then have "distinct (fifo_waiting q3)" by simp
  note IH = fifo_takes_group.IH [OF this]
  have "set (fifo_waiting q3) = set (taken segs) \<union> set (fifo_waiting q')" using IH by (metis set_mset_mset set_mset_union)
  then have "set xs \<inter> set (taken segs) = {}" using d by auto
  then have "obj q' r = (if r \<in> set (taken ((g, xs) # segs)) then received now v limit (obj q r) else obj q r)" for r
    using IH F(1) [of r] by auto
  then show ?case using IH F w by (auto simp: queue_arn_def)
qed simp

lemma fifo_takes_ok: "fifo_takes now v limit q segs q' \<Longrightarrow> fifo_ok q \<Longrightarrow> fifo_ok q'"
  by (induction rule: fifo_takes.induct) (blast intro: fifo_ok_skip fifo_ok_pop group_takes_ok)+

lemma fifo_takes_other:
  "fifo_takes now v limit q segs q' \<Longrightarrow> g \<notin> fst ` set segs \<Longrightarrow> group_messages q' g = group_messages q g"
  by (induction rule: fifo_takes.induct) (auto dest: group_takesD(2))

lemma fifo_takes_empty:
  "fifo_takes now v limit q segs q' \<Longrightarrow> group_messages q g = [] \<Longrightarrow> g \<notin> fst ` set segs"
proof (induction rule: fifo_takes.induct)
  case (fifo_takes_group q g' rest xs q3 segs q')
  have "g \<noteq> g'" using group_takesD(3) [OF fifo_takes_group(3)] fifo_takes_group(2,7) by auto
  then show ?case using fifo_takes_group.IH fifo_takes_group.prems group_takesD(2) [OF fifo_takes_group(3), of g] by auto
qed auto

lemma fifo_takes_in_group:
  assumes "fifo_takes now v limit q segs q'" "(g, xs) \<in> set segs"
  shows "xs \<noteq> [] \<and> mset (group_messages q g) = mset xs + mset (group_messages q' g) \<and> sorted (map (msg_priority q) xs) \<and>
    (\<forall>x \<in> set xs. \<forall>y \<in> set (group_messages q' g). msg_priority q x \<le> msg_priority q y)"
  using assms
proof (induction rule: fifo_takes.induct)
  case (fifo_takes_group q g' rest xs' q3 segs q')
  note D = group_takesD [OF fifo_takes_group(3)] and F = group_takes_frame [OF fifo_takes_group(3)]
  have last: "group_messages q' g' = group_messages q3 g'"
    using fifo_takes_group(4,5) fifo_takes_empty [OF fifo_takes_group(5), of g'] fifo_takes_other [OF fifo_takes_group(5), of g']
    by (cases "segs = []") auto
  have prio: "msg_priority q3 x = msg_priority q x" for x by (simp add: F(1))
  have prio': "msg_priority q3 = msg_priority q" by (rule ext) (rule prio)
  show ?case
  proof (cases "(g, xs) = (g', xs')")
    case True
    then show ?thesis using fifo_takes_group(2) D(3,7,8) last by simp
  next
    case False
    then have s: "(g, xs) \<in> set segs" using fifo_takes_group.prems by auto
    then have "segs \<noteq> []" "g \<in> fst ` set segs" by (auto intro: rev_image_eqI)
    then have "g \<noteq> g'" using fifo_takes_group(4) fifo_takes_empty [OF fifo_takes_group(5), of g'] by auto
    then show ?thesis using fifo_takes_group.IH [OF s] D(2) [of g] unfolding prio' by (simp add: prio)
  qed
qed auto

lemma fifo_takes_distinct: "fifo_takes now v limit q segs q' \<Longrightarrow> distinct (map fst segs)"
proof (induction rule: fifo_takes.induct)
  case (fifo_takes_group q g' rest xs' q3 segs q')
  then show ?case using fifo_takes_empty [OF fifo_takes_group(5), of g'] by auto
qed auto

lemma fifo_takes_prefix:
  "fifo_takes now v limit q segs q' \<Longrightarrow> \<exists>gs. message_group_queue q = gs @ message_group_queue q' \<and>
     subseq (map fst segs) gs \<and> (\<forall>g \<in> set gs. g \<in> fst ` set segs \<or> group_messages q g = [])"
proof (induction rule: fifo_takes.induct)
  case (fifo_takes_skip q g rest segs q')
  then obtain gs where "rest = gs @ message_group_queue q'" "subseq (map fst segs) gs"
    "\<forall>g \<in> set gs. g \<in> fst ` set segs \<or> group_messages q g = []" by auto
  then show ?case using fifo_takes_skip(1,2) by (intro exI [of _ "g # gs"]) auto
next
  case (fifo_takes_group q g rest xs q3 segs q')
  then obtain gs where "rest = gs @ message_group_queue q'" "subseq (map fst segs) gs"
    "\<forall>g \<in> set gs. g \<in> fst ` set segs \<or> group_messages q3 g = []"
    using group_takes_frame(2) [OF fifo_takes_group(3)] by auto
  then show ?case using fifo_takes_group(1) group_takesD(2) [OF fifo_takes_group(3)]
    by (intro exI [of _ "g # gs"]) auto
qed simp

subsection \<open>The invariant\<close>

text \<open>
  Every waiting message is visible, so a message that can still be deleted is in flight; in-flight messages
  have been received and delayed ones have not.
\<close>

definition fifo_inv :: "time \<Rightarrow> fifo_queue \<Rightarrow> bool" where
  "fifo_inv t q \<longleftrightarrow> queue_wf (fifo_waiting q) q \<and> fifo_ok q \<and>
     (\<forall>r \<in> set (fifo_waiting q). is_visible t (obj q r)) \<and>
     (\<forall>r \<in> set (inflight q). 1 \<le> receive_count (obj q r)) \<and>
     (\<forall>r \<in> set (delayed q). receive_count (obj q r) = 0 \<and> visibility_deadline (obj q r) = None)"

text \<open>A group is offered to consumers at most once, and not while it is held back.\<close>

definition fifo_excl :: "fifo_queue \<Rightarrow> bool" where
  "fifo_excl q \<longleftrightarrow> distinct (message_group_queue q) \<and> set (message_group_queue q) \<inter> set (inflight_groups q) = {} \<and>
     (\<forall>g \<in> set (message_group_queue q). group_messages q g \<noteq> [])"

lemma fifo_invI:
  assumes "queue_wf (fifo_waiting q) q" "fifo_ok q" "\<And>r. r \<in> set (fifo_waiting q) \<Longrightarrow> is_visible t (obj q r)"
    and "\<And>r. r \<in> set (inflight q) \<Longrightarrow> 1 \<le> receive_count (obj q r)"
    and "\<And>r. r \<in> set (delayed q) \<Longrightarrow> receive_count (obj q r) = 0 \<and> visibility_deadline (obj q r) = None"
  shows "fifo_inv t q"
  unfolding fifo_inv_def using assms by blast

lemma fifo_invD:
  assumes "fifo_inv t q"
  shows "queue_wf (fifo_waiting q) q" "fifo_ok q" "r \<in> set (fifo_waiting q) \<Longrightarrow> is_visible t (obj q r)"
    "r \<in> set (inflight q) \<Longrightarrow> 1 \<le> receive_count (obj q r)"
    "r \<in> set (delayed q) \<Longrightarrow> receive_count (obj q r) = 0 \<and> visibility_deadline (obj q r) = None"
  using assms unfolding fifo_inv_def by blast+

lemma is_visible_mono: "is_visible t m \<Longrightarrow> t \<le> t' \<Longrightarrow> is_visible t' m"
  by (auto simp: is_visible_def split: option.splits)

lemma fifo_inv_mono: "fifo_inv t q \<Longrightarrow> t \<le> t' \<Longrightarrow> fifo_inv t' q"
  unfolding fifo_inv_def using is_visible_mono by blast

lemma fifo_inv_waiting:
  assumes "fifo_inv t q"
  shows "distinct (fifo_waiting q)" "\<forall>r \<in> set (fifo_waiting q). \<not> deleted (obj q r)"
  using queue_wf_ids [OF fifo_invD(1) [OF assms]] queue_wf_ref [OF fifo_invD(1) [OF assms]] by (auto simp: distinct_map)

lemma queue_wf_base:
  assumes "sqs_queue.truncate q' = sqs_queue.truncate q"
  shows "queue_wf ws q' = queue_wf ws q"
proof -
  have s: "objs q' = objs q" "inflight q' = inflight q" "delayed q' = delayed q" "receipts q' = receipts q" "next_ref q' = next_ref q"
    using assms by (simp_all add: sqs_queue.truncate_def)
  show ?thesis unfolding queue_wf_def receipts_ok_def s ..
qed

text \<open>A message becomes visible again: its group is offered again.\<close>

lemma fifo_put_excl: "fifo_excl q \<Longrightarrow> fifo_excl (fifo_put_message r q)"
proof -
  have "heappush (msg_priority q) h r \<noteq> []" for h
    using mset_heappush [of "msg_priority q" h r] by (metis add_mset_not_empty mset.simps(1))
  then show "fifo_excl q \<Longrightarrow> fifo_excl (fifo_put_message r q)"
    unfolding fifo_excl_def by (auto simp: fifo_put_message_groups split: if_splits)
qed

lemma fifo_requeue_one:
  assumes inv: "fifo_inv t q" and r: "r \<in> set (inflight q)" "is_visible t (obj q r)"
    and q': "q' = fifo_put_message r (q\<lparr>inflight := remove_by_id q r (inflight q)\<rparr>)"
  shows "fifo_inv t q'" "fifo_excl q \<Longrightarrow> fifo_excl q'" "inflight q' = remove1 r (inflight q)"
proof -
  note D = fifo_invD [OF inv]
  note s = fifo.requeue_step [OF D(1,2) r(1) q']
  show i: "inflight q' = remove1 r (inflight q)" by (rule s(3))
  have w: "set (fifo_waiting q') = insert r (set (fifo_waiting q))"
    using fifo.put_waiting [of r "q\<lparr>inflight := remove_by_id q r (inflight q)\<rparr>"]
    by (metis fifo.waiting_upd(1) q' set_mset_add_mset_insert set_mset_mset)
  have o: "objs q' = objs q" "delayed q' = delayed q" by (simp_all add: q')
  have sub: "set (inflight q') \<subseteq> set (inflight q)" unfolding i by (rule set_remove1_subset)
  show "fifo_inv t q'"
    by (rule fifo_invI [OF s(1,2)]) (use D r w sub o in auto)
  show "fifo_excl q'" if "fifo_excl q"
    unfolding q' by (rule fifo_put_excl) (use that in \<open>simp add: fifo_excl_def group_messages_def\<close>)
qed

text \<open>\<open>requeue_inflight_messages\<close> returns the visible messages up to the first one that is not.\<close>

lemma fifo_requeue_loop_spec:
  assumes "fifo_inv t q" "set rs \<subseteq> set (inflight q)" "distinct rs" "q' = fifo_requeue_loop t rs q"
  shows "fifo_inv t q' \<and> (fifo_excl q \<longrightarrow> fifo_excl q') \<and> objs q' = objs q \<and>
    delayed q' = delayed q \<and> receipts q' = receipts q \<and> next_ref q' = next_ref q \<and> queue_arn q' = queue_arn q \<and>
    deduplication q' = deduplication q \<and> deduplication_scope q' = deduplication_scope q \<and>
    inflight q' = filter (\<lambda>r. r \<notin> set (takeWhile (\<lambda>r. is_visible t (obj q r)) rs)) (inflight q) \<and>
    mset (fifo_waiting q') = mset (fifo_waiting q) + mset (takeWhile (\<lambda>r. is_visible t (obj q r)) rs)"
  using assms
proof (induction rs arbitrary: q)
  case (Cons r rs)
  show ?case
  proof (cases "is_visible t (obj q r)")
    case True
    define q1 where "q1 = fifo_put_message r (q\<lparr>inflight := remove_by_id q r (inflight q)\<rparr>)"
    have r: "r \<in> set (inflight q)" using Cons.prems(2) by simp
    note one = fifo_requeue_one [OF Cons.prems(1) r True q1_def]
    have d: "distinct (inflight q)" using queue_wf_ids [OF fifo_invD(1) [OF Cons.prems(1)]] by (simp add: distinct_map)
    then have i: "inflight q1 = filter (\<lambda>x. x \<noteq> r) (inflight q)"
      using one(3) by (simp add: distinct_remove1_removeAll removeAll_filter_not_eq eq_commute [of r])
    have s: "objs q1 = objs q" "delayed q1 = delayed q" "receipts q1 = receipts q" "next_ref q1 = next_ref q"
      "deduplication q1 = deduplication q" "deduplication_scope q1 = deduplication_scope q"
      "mset (fifo_waiting q1) = add_mset r (mset (fifo_waiting q))" by (simp_all add: q1_def)
    have arn: "queue_arn q1 = queue_arn q" by (rule queue_arn_cong) (simp_all add: q1_def)
    have sub: "set rs \<subseteq> set (inflight q1)" using Cons.prems(2,3) i by auto
    note IH = Cons.IH [OF one(1) sub]
    show ?thesis using IH one(2) Cons.prems(3,4) True s arn i
      by (simp add: q1_def [symmetric] conj_commute)
  next
    case False
    then show ?thesis using Cons.prems(1,4) by simp
  qed
qed simp

subsection \<open>Receiving\<close>

context queue_class
begin

lemma hand_out_all_objs:
  "hand_out_all put_message ext fresh rs q = (hs, q') \<Longrightarrow> \<exists>ks. obj q' x = (obj q x)\<lparr>receipt_handles := ks\<rparr>"
proof (induction rs arbitrary: q fresh hs)
  case (Cons r rs)
  from Cons.prems(1) show ?case
  proof (cases rule: hand_out_all_ConsE)
    case (1 k q2 hs')
    obtain ks where "obj q' x = (obj q2 x)\<lparr>receipt_handles := ks\<rparr>" using Cons.IH [OF 1(3)] by blast
    then show ?thesis using 1(7) [of x] 1(8) by (cases "x = r") auto
  qed
next
  case Nil
  then show ?case by (intro exI [of _ "receipt_handles (obj q x)"]) simp
qed

lemma hand_out_all_fields:
  assumes "hand_out_all put_message ext fresh rs q = (hs, q')"
  shows "receive_count (obj q' x) = receive_count (obj q x)" "message_group_id (obj q' x) = message_group_id (obj q x)"
    "visibility_timeout (obj q' x) = visibility_timeout (obj q x)" "is_visible t (obj q' x) = is_visible t (obj q x)"
    "visibility_deadline (obj q' x) = visibility_deadline (obj q x)"
  using hand_out_all_objs [OF assms, of x] by (auto simp: message_group_id_def msg_attributes_def is_visible_def)

end

lemma hand_out_all_more:
  "hand_out_all put ext fresh rs q = (hs, q') \<Longrightarrow> \<forall>r \<in> set rs. visibility_timeout (obj q r) \<noteq> Some 0 \<Longrightarrow>
   sqs_queue.more q' = sqs_queue.more q"
proof (induction rs arbitrary: q fresh hs)
  case (Cons r rs)
  obtain k q1 where k: "hand_out ext (fresh 0) r q = (k, q1)" by fastforce
  note s = hand_out_simps [OF k]
  obtain hs' where hs': "hand_out_all put ext (\<lambda>i. fresh (Suc i)) rs (add_inflight_message r q1) = (hs', q')"
    using Cons.prems k s(7) by (auto simp: Let_def split: prod.splits)
  have "visibility_timeout (obj (add_inflight_message r q1) x) = visibility_timeout (obj q x)" for x
    by (simp add: add_inflight_message_def s)
  then show ?case using Cons.IH [OF hs'] Cons.prems(2) s(6) by (simp add: add_inflight_message_def)
qed simp

lemma hand_out_all_back:
  "hand_out_all fifo_put_message ext fresh rs q = (hs, q') \<Longrightarrow>
   \<forall>r \<in> set rs. visibility_timeout (obj q r) = Some 0 \<and> 1 \<le> receive_count (obj q r) \<Longrightarrow>
   inflight q' = inflight q \<and> set (inflight_groups q') = set (inflight_groups q) - (\<lambda>r. message_group_id (obj q r)) ` set rs \<and>
   (fifo_excl q \<longrightarrow> fifo_excl q') \<and> deduplication q' = deduplication q \<and> deduplication_scope q' = deduplication_scope q"
proof (induction rs arbitrary: q fresh hs)
  case (Cons r rs)
  obtain k q1 where k: "hand_out ext (fresh 0) r q = (k, q1)" by fastforce
  note s = hand_out_simps [OF k]
  note more = fifo_more [OF s(6)]
  obtain hs' where hs': "hand_out_all fifo_put_message ext (\<lambda>i. fresh (Suc i)) rs (fifo_put_message r q1) = (hs', q')"
    using Cons.prems k s(7) by (auto simp: Let_def split: prod.splits)
  have o: "visibility_timeout (obj q1 x) = visibility_timeout (obj q x)" "receive_count (obj q1 x) = receive_count (obj q x)"
    "message_group_id (obj q1 x) = message_group_id (obj q x)" for x
    by (simp_all add: s message_group_id_def msg_attributes_def)
  have "fifo_excl q1 = fifo_excl q" using more by (simp add: fifo_excl_def group_messages_def)
  then have e: "fifo_excl q \<longrightarrow> fifo_excl (fifo_put_message r q1)" using fifo_put_excl by blast
  have "1 \<le> receive_count (obj q1 r)" using Cons.prems(2) o by simp
  then have i: "set (inflight_groups (fifo_put_message r q1)) = set (inflight_groups q) - {message_group_id (obj q r)}"
    using more(2) by (simp add: fifo_put_message_groups o)
  show ?case using Cons.IH [OF hs'] Cons.prems(2) e i more(4,5) s(2) by (auto simp: o)
qed simp

lemma fifo_takes_wf:
  assumes inv: "fifo_inv t q" and c: "fifo_takes now v limit q segs q'"
  shows "queue_wf (fifo_waiting q' @ filter P (taken segs)) q'"
proof -
  note F = fifo_takes_frame [OF c fifo_inv_waiting(1) [OF inv]] and wf = fifo_invD(1) [OF inv]
  have ms: "mset (fifo_waiting q) = mset (taken segs) + mset (fifo_waiting q')" using F by blast
  have sets: "set (fifo_waiting q) = set (taken segs) \<union> set (fifo_waiting q')" using ms by (metis set_mset_mset set_mset_union)
  have obj': "obj q' x = (if x \<in> set (taken segs) then received now v limit (obj q x) else obj q x)" for x using F by blast
  have mid': "mid q' x = mid q x" for x by (simp add: obj')
  have sel: "inflight q' = inflight q" "delayed q' = delayed q" "receipts q' = receipts q" "next_ref q' = next_ref q"
    using F by blast+
  have "mset (fifo_waiting q' @ filter P (taken segs)) \<subseteq># mset (fifo_waiting q)" by (simp add: ms add.commute)
  then have ids: "queue_ids (fifo_waiting q' @ filter P (taken segs)) q' \<subseteq># queue_ids (fifo_waiting q) q"
    unfolding queue_ids_def mid' sel by (intro image_mset_subseteq_mono subset_mset.add_mono) simp_all
  have "set (fifo_waiting q' @ filter P (taken segs)) \<subseteq> set (fifo_waiting q)" using sets by auto
  then show ?thesis
    by (intro queue_wf_shuffle [OF wf _ _ _ _ _ ids]) (auto simp: obj' sel)
qed

lemma fifo_receive_cases:
  assumes inv: "fifo_inv t q" and out: "fifo_receive ext fresh now num wait_time timeout poll q = (res, q')"
  obtains e where "res = Inl e" "q' = q"
  | e v limit segs where "res = Inl e" "fifo_takes now v limit q segs q'"
  | v limit segs ok dead q1 handles where
      "max_receive_count q = Inr limit" "(case timeout of Some v \<Rightarrow> Inr v | None \<Rightarrow> queue_visibility_timeout q) = Inr v"
      "fifo_takes now v limit q segs q1" "sorts_out now v limit q [] [] (taken segs) (Inr (ok, dead))"
      "message_group_queue q1 = [] \<or> is_shutdown q \<or> int (length ok) = num"
      "hand_out_all fifo_put_message ext fresh ok q1 = (handles, q')"
      "res = Inr \<lparr>successful = ok, result_handles = handles, dead_letter_messages = dead\<rparr>"
proof -
  have col: "\<exists>segs. fifo_takes now v limit q segs q1 \<and> sorts_out now v limit q [] [] (taken segs) r \<and>
      (\<forall>ok dead. r = Inr (ok, dead) \<longrightarrow> message_group_queue q1 = [] \<or> is_shutdown q \<or> int (length ok) = num)"
    if "fifo_collect now v limit num poll b w q [] [] = (r, q1)" for v limit b w r q1
    using fifo_collect_takes [OF fifo_invD(2) [OF inv] fifo_inv_waiting [OF inv] that] by blast
  note out' = out [unfolded fifo_receive_def Let_def]
  show thesis
  proof (cases "max_receive_count q")
    case (Inl e)
    then have "res = Inl e" "q' = q" using out' by simp_all
    then show thesis by (rule that(1))
  next
    case lim: (Inr limit)
    show thesis
    proof (cases "case timeout of Some v \<Rightarrow> Inr v | None \<Rightarrow> queue_visibility_timeout q")
      case (Inl e)
      then have "res = Inl e" "q' = q" using out' lim by simp_all
      then show thesis by (rule that(1))
    next
      case v: (Inr v)
      let ?w = "case wait_time of Some w \<Rightarrow> w | None \<Rightarrow> 0"
      obtain r q1 where c: "fifo_collect now v limit num poll (?w \<noteq> 0) ?w q [] [] = (r, q1)" by fastforce
      obtain segs where segs: "fifo_takes now v limit q segs q1" "sorts_out now v limit q [] [] (taken segs) r"
        "\<And>ok dead. r = Inr (ok, dead) \<Longrightarrow> message_group_queue q1 = [] \<or> is_shutdown q \<or> int (length ok) = num"
        using col [OF c] by blast
      show thesis
      proof (cases r)
        case (Inl e)
        then have "res = Inl e" "q' = q1" using out' lim v c by simp_all
        then show thesis using segs(1) that(2) by blast
      next
        case (Inr od)
        obtain ok dead where od: "r = Inr (ok, dead)" using Inr by (cases od) simp
        obtain handles q2 where h: "hand_out_all fifo_put_message ext fresh ok q1 = (handles, q2)" by fastforce
        have "q2 = q'" "res = Inr \<lparr>successful = ok, result_handles = handles, dead_letter_messages = dead\<rparr>"
          using out' lim v c od h by simp_all
        then show thesis using that(3) [OF lim v segs(1)] segs(2) segs(3) [OF od] h unfolding od by blast
      qed
    qed
  qed
qed

lemma fifo_takes_objs:
  assumes inv: "fifo_inv t q" and c: "fifo_takes now v limit q segs q'"
  shows "set (taken segs) \<subseteq> set (fifo_waiting q)" "set (fifo_waiting q') \<subseteq> set (fifo_waiting q)"
    "set (taken segs) \<inter> set (fifo_waiting q') = {}" "distinct (taken segs)"
    "x \<in> set (inflight q @ delayed q) \<Longrightarrow> x \<notin> set (taken segs) \<and> obj q' x = obj q x"
    "x \<in> set (fifo_waiting q') \<Longrightarrow> obj q' x = obj q x"
proof -
  note F = fifo_takes_frame [OF c fifo_inv_waiting(1) [OF inv]]
  have ms: "mset (fifo_waiting q) = mset (taken segs @ fifo_waiting q')" using F by simp
  have d: "distinct (taken segs @ fifo_waiting q')"
    using fifo_inv_waiting(1) [OF inv] mset_eq_imp_distinct_iff [OF ms] by blast
  have sets: "set (fifo_waiting q) = set (taken segs) \<union> set (fifo_waiting q')" using mset_eq_setD [OF ms] by simp
  show sub: "set (taken segs) \<subseteq> set (fifo_waiting q)" and "set (fifo_waiting q') \<subseteq> set (fifo_waiting q)"
    and dis: "set (taken segs) \<inter> set (fifo_waiting q') = {}" and "distinct (taken segs)" using sets d by auto
  have obj': "obj q' x = (if x \<in> set (taken segs) then received now v limit (obj q x) else obj q x)" for x using F by blast
  show "x \<notin> set (taken segs) \<and> obj q' x = obj q x" if "x \<in> set (inflight q @ delayed q)"
    using that sub queue_wf_not_elsewhere(3,4) [OF fifo_invD(1) [OF inv], of x] obj' [of x] by auto
  show "obj q' x = obj q x" if "x \<in> set (fifo_waiting q')" using that dis obj' [of x] by auto
qed

lemma fifo_takes_inv:
  assumes inv: "fifo_inv t q" and c: "fifo_takes now v limit q segs q'"
  shows "fifo_inv t q'"
proof (rule fifo_invI)
  note F = fifo_takes_frame [OF c fifo_inv_waiting(1) [OF inv]] and O = fifo_takes_objs [OF inv c] and D = fifo_invD [OF inv]
  show "queue_wf (fifo_waiting q') q'" using fifo_takes_wf [OF inv c, of "\<lambda>_. False"] by simp
  show "fifo_ok q'" by (rule fifo_takes_ok [OF c D(2)])
  show "is_visible t (obj q' r)" if "r \<in> set (fifo_waiting q')" for r
    using that O(2,6) D(3) by auto
  show "1 \<le> receive_count (obj q' r)" if "r \<in> set (inflight q')" for r
    using that O(5) [of r] D(4) [of r] F by auto
  show "receive_count (obj q' r) = 0 \<and> visibility_deadline (obj q' r) = None" if "r \<in> set (delayed q')" for r
    using that O(5) [of r] D(5) [of r] F by auto
qed

lemma fifo_takes_excl:
  assumes c: "fifo_takes now v limit q segs q'" and e: "fifo_excl q" and d: "distinct (fifo_waiting q)"
  shows "fifo_excl q'"
proof -
  obtain gs where gs: "message_group_queue q = gs @ message_group_queue q'" "subseq (map fst segs) gs"
    using fifo_takes_prefix [OF c] by blast
  have sub: "fst ` set segs \<subseteq> set gs" using list_emb_set [OF gs(2)] by (metis set_map subsetI)
  have dist: "distinct (gs @ message_group_queue q')" using e gs(1) by (simp add: fifo_excl_def)
  have "group_messages q' g \<noteq> []" if "g \<in> set (message_group_queue q')" for g
  proof -
    have "g \<notin> fst ` set segs" using that sub dist by auto
    then show ?thesis using fifo_takes_other [OF c] e that gs(1) by (simp add: fifo_excl_def)
  qed
  then show ?thesis
    using dist sub e gs(1) fifo_takes_frame [OF c d] by (auto simp: fifo_excl_def)
qed

lemma fifo_handed_out:
  assumes inv: "fifo_inv now q" and c: "fifo_takes now v limit q segs q1"
    and so: "sorts_out now v limit q [] [] (taken segs) (Inr (ok, dead))"
    and fresh: "fresh_handles ext fresh q" and out: "hand_out_all fifo_put_message ext fresh ok q1 = (handles, q')"
  shows "queue_wf (fifo_waiting q') q'" "fifo_ok q'" "queue_arn q' = queue_arn q" "delayed q' = delayed q" "next_ref q' = next_ref q"
    "mset (fifo_waiting q') = mset (fifo_waiting q1) + (if v = 0 then mset ok else {#})"
    "mset (inflight q') = mset (inflight q) + (if v = 0 then {#} else mset ok)"
    "set (inflight_groups q') = set (inflight_groups q) \<union> fst ` set segs - (if v = 0 then (\<lambda>r. message_group_id (obj q r)) ` set ok else {})"
    "v \<noteq> 0 \<Longrightarrow> message_group_queue q' = message_group_queue q1" "fifo_excl q \<Longrightarrow> fifo_excl q'"
    "deduplication q' = deduplication q \<and> deduplication_scope q' = deduplication_scope q"
proof -
  note F = fifo_takes_frame [OF c fifo_inv_waiting(1) [OF inv]] and O = fifo_takes_objs [OF inv c]
  have obj1: "obj q1 x = (if x \<in> set (taken segs) then received now v limit (obj q x) else obj q x)" for x using F by blast
  have ok: "ok = filter (\<lambda>r. \<not> exceeds_max_receive_count limit (mark_received now v (obj q r))) (taken segs)"
    using so by (simp add: sorts_out_def)
  then have oks: "set ok \<subseteq> set (taken segs)" by auto
  have wf1: "queue_wf (fifo_waiting q1 @ ok) q1" unfolding ok by (rule fifo_takes_wf [OF inv c])
  have arn1: "queue_arn q1 = queue_arn q" and rec1: "receipts q1 = receipts q" using F by blast+
  have fresh1: "fresh_handles ext fresh q1"
    using fresh unfolding fresh_handles_def create_receipt_handle_cong [OF arn1] rec1 .
  note S = fifo.hand_out_all_spec [OF wf1 fifo_takes_ok [OF c fifo_invD(2) [OF inv]] fresh1 out]
  show "queue_wf (fifo_waiting q') q'" "fifo_ok q'" "queue_arn q' = queue_arn q" "delayed q' = delayed q" "next_ref q' = next_ref q"
    using S F by simp_all
  have sum: "mset (fifo_waiting q') + mset (inflight q') = mset (fifo_waiting q1) + mset (inflight q) + mset ok" using S F by simp
  have t1: "\<forall>r \<in> set ok. visibility_timeout (obj q1 r) = Some v \<and> 1 \<le> receive_count (obj q1 r)"
    using oks obj1 by auto
  note ex1 = fifo_takes_excl [OF c _ fifo_inv_waiting(1) [OF inv]]
  have grp: "(\<lambda>r. message_group_id (obj q1 r)) = (\<lambda>r. message_group_id (obj q r))" by (rule ext) (simp add: obj1)
  have v0: "inflight q' = inflight q" "set (inflight_groups q') = set (inflight_groups q1) - (\<lambda>r. message_group_id (obj q r)) ` set ok"
    "fifo_excl q1 \<Longrightarrow> fifo_excl q'" "deduplication q' = deduplication q1" "deduplication_scope q' = deduplication_scope q1" if "v = 0"
    using hand_out_all_back [OF out] t1 that F unfolding grp by auto
  have v1: "sqs_queue.more q' = sqs_queue.more q1" if "v \<noteq> 0" by (rule hand_out_all_more [OF out]) (use t1 that in simp)
  note m = fifo_more [OF v1]
  have w1: "fifo_waiting q' = fifo_waiting q1" if "v \<noteq> 0" using m(1) [OF that] by (simp add: fifo_waiting_def)
  have e1: "fifo_excl q' = fifo_excl q1" if "v \<noteq> 0" using m(1-3) [OF that] by (simp add: fifo_excl_def group_messages_def)
  show "mset (fifo_waiting q') = mset (fifo_waiting q1) + (if v = 0 then mset ok else {#})"
    "mset (inflight q') = mset (inflight q) + (if v = 0 then {#} else mset ok)"
    using sum v0(1) w1 by (cases "v = 0"; simp)+
  show "set (inflight_groups q') = set (inflight_groups q) \<union> fst ` set segs - (if v = 0 then (\<lambda>r. message_group_id (obj q r)) ` set ok else {})"
    using v0(2) m(2) F by (cases "v = 0") auto
  show "message_group_queue q' = message_group_queue q1" if "v \<noteq> 0" using m(3) [OF that] .
  show "fifo_excl q'" if "fifo_excl q" using ex1 [OF that] v0(3) e1 by (cases "v = 0") auto
  show "deduplication q' = deduplication q \<and> deduplication_scope q' = deduplication_scope q"
    using v0(4,5) m(4,5) F by (cases "v = 0") auto
qed

lemma fifo_receive_inv:
  assumes inv: "fifo_inv now q" and fresh: "fresh_handles ext fresh q"
    and out: "fifo_receive ext fresh now num wait_time timeout poll q = (res, q')"
  shows "fifo_inv now q' \<and> (fifo_excl q \<longrightarrow> fifo_excl q')"
  using inv out
proof (cases rule: fifo_receive_cases)
  case (2 e v limit segs)
  then show ?thesis using fifo_takes_inv [OF inv 2(2)] fifo_takes_excl [OF 2(2) _ fifo_inv_waiting(1) [OF inv]] by blast
next
  case (3 v limit segs ok dead q1 handles)
  note H = fifo_handed_out [OF inv 3(3,4) fresh 3(6)] and O = fifo_takes_objs [OF inv 3(3)]
  note F = fifo_takes_frame [OF 3(3) fifo_inv_waiting(1) [OF inv]] and D1 = fifo_invD [OF fifo_takes_inv [OF inv 3(3)]]
  note fields = fifo.hand_out_all_fields [OF 3(6)]
  have ok: "set ok \<subseteq> set (taken segs)" using 3(4) by (auto simp: sorts_out_def)
  have obj1: "obj q1 x = received now v limit (obj q x)" if "x \<in> set ok" for x using F that ok by auto
  have sets: "set (fifo_waiting q') = set (fifo_waiting q1) \<union> (if v = 0 then set ok else {})"
    "set (inflight q') = set (inflight q1) \<union> (if v = 0 then {} else set ok)"
    using H(6,7) F by (auto dest!: arg_cong [where f = set_mset])
  have "fifo_inv now q'"
  proof (rule fifo_invI [OF H(1,2)])
    show "is_visible now (obj q' r)" if "r \<in> set (fifo_waiting q')" for r
      using that D1(3) obj1 [of r] unfolding sets fields by (auto simp: is_visible_def split: if_splits)
    show "1 \<le> receive_count (obj q' r)" if "r \<in> set (inflight q')" for r
      using that D1(4) obj1 [of r] unfolding sets fields by (auto split: if_splits)
    show "receive_count (obj q' r) = 0 \<and> visibility_deadline (obj q' r) = None" if "r \<in> set (delayed q')" for r
      using that D1(5) F unfolding fields H(4) by auto
  qed
  then show ?thesis using H(10) by blast
qed (use inv in simp)

end
