(* ===== verification/SqsFifoRun.thy ===== *)
theory SqsFifoRun
  imports SqsFifoInv
begin

text \<open>
  Runs of a FIFO queue: every call the provider and its worker threads make on it, with time passing between
  them. The expiry of old messages is an event only where the configuration enables it. Every reachable queue is
  well formed; without expiry, each group is offered to consumers at most once.
\<close>

subsection \<open>Sending\<close>

definition effective_dedup_id :: "externals \<Rightarrow> fifo_queue \<Rightarrow> api_message \<Rightarrow> string option \<Rightarrow> string" where
  "effective_dedup_id ext q msg dedup =
     (if truthy dedup then the dedup
      else if \<not> is_message_deduplication_id_required q then ext_sha256 ext (Body msg) else [])"

definition fifo_message :: "time \<Rightarrow> int \<Rightarrow> api_message \<Rightarrow> string \<Rightarrow> string option \<Rightarrow> int \<Rightarrow> int \<Rightarrow> sqs_message" where
  "fifo_message now seq msg d grp v delay =
     (sqs_message_init now now msg (Some d) grp (Some (str_of_int seq)))\<lparr>visibility_timeout := Some v, delay_seconds := Some delay\<rparr>"

lemma fifo_message_simps [simp]:
  "message_id (fifo_message now seq msg d grp v delay) = MessageId msg" "priority (fifo_message now seq msg d grp v delay) = now"
  "receipt_handles (fifo_message now seq msg d grp v delay) = []" "\<not> deleted (fifo_message now seq msg d grp v delay)"
  "receive_count (fifo_message now seq msg d grp v delay) = 0" "visibility_deadline (fifo_message now seq msg d grp v delay) = None"
  by (simp_all add: fifo_message_def sqs_message_init_def)

text \<open>The three outcomes of \<open>put\<close>: an error, a duplicate, a new message.\<close>

lemma fifo_put_cases:
  assumes out: "fifo_put ext now later seq msg timeout dedup grp delay q = ((res, q'), seq')"
  obtains e where "res = Inl e" "q' = q"
  | v d orig r where "is_duplicate q (effective_dedup_id ext q msg dedup)
        (fifo_message now seq msg (effective_dedup_id ext q msg dedup) grp v d) = Some orig"
      "truthy grp" "effective_dedup_id ext q msg dedup \<noteq> []"
      "new_obj (let m = fifo_message now seq msg (effective_dedup_id ext q msg dedup) grp v d
         in m\<lparr>message := (message m)\<lparr>MessageId := mid q orig\<rparr>\<rparr>) q = (r, q')" "res = Inr r"
  | v d m r q1 q2 where "m = fifo_message now seq msg (effective_dedup_id ext q msg dedup) grp v d"
      "truthy grp" "effective_dedup_id ext q msg dedup \<noteq> []"
      "is_duplicate q (effective_dedup_id ext q msg dedup) m = None" "new_obj m q = (r, q1)"
      "q2 = (if is_delayed later m then add_delayed_message r q1 else fifo_put_message r q1)"
      "q' = q2\<lparr>deduplication := dict_set (effective_dedup_id ext q msg dedup) r (deduplication q2)\<rparr>" "res = Inr r"
proof -
  let ?d = "effective_dedup_id ext q msg dedup"
  let ?v = "case timeout of Some v \<Rightarrow> Inr v | None \<Rightarrow> queue_visibility_timeout q"
  note out' = out [unfolded fifo_put_def effective_dedup_id_def [symmetric] Let_def]
  show thesis
  proof (cases "(delay \<noteq> None \<and> delay \<noteq> Some 0) \<or> \<not> truthy grp \<or> ?d = [] \<or> (\<exists>e. ?v = Inl e \<or> queue_delay_seconds q = Inl e)")
    case True
    then have "(\<exists>e. res = Inl e) \<and> q' = q" using out' by (auto split: if_splits sum.splits)
    then show thesis using that(1) by blast
  next
    case False
    then obtain v d where v: "?v = Inr v" "queue_delay_seconds q = Inr d" by (cases ?v; cases "queue_delay_seconds q"; blast)
    have ne: "\<not> (delay \<noteq> None \<and> delay \<noteq> Some 0)" "truthy grp" "?d \<noteq> []" using False by blast+
    define m where "m = fifo_message now seq msg ?d grp v d"
    have run: "(case is_duplicate q ?d m of
         Some orig \<Rightarrow> (let (r, q1) = new_obj (m\<lparr>message := (message m)\<lparr>MessageId := mid q orig\<rparr>\<rparr>) q in ((Inr r, q1), seq + 1))
       | None \<Rightarrow> (let (r, q1) = new_obj m q;
             q2 = (if is_delayed later m then add_delayed_message r q1 else fifo_put_message r q1)
           in ((Inr r, q2\<lparr>deduplication := dict_set ?d r (deduplication q2)\<rparr>), seq + 1))) = ((res, q'), seq')"
      using out' unfolding if_not_P [OF ne(1)] if_P [OF ne(3)] v sum.case m_def fifo_message_def Let_def
      by (simp only: ne(2,3) not_True_eq_False if_False)
    show thesis
    proof (cases "is_duplicate q ?d m")
      case None
      obtain r q1 where new: "new_obj m q = (r, q1)" by fastforce
      show thesis
        by (rule that(3) [OF m_def ne(2,3) None new refl])
          (use run in \<open>auto simp: None new Let_def split: if_splits\<close>)
    next
      case (Some orig)
      obtain r q1 where new: "new_obj (m\<lparr>message := (message m)\<lparr>MessageId := mid q orig\<rparr>\<rparr>) q = (r, q1)" by fastforce
      have "q1 = q'" "res = Inr r"
        using run by (simp_all add: Some new)
      then show thesis
        using that(2) [of v d orig r] Some new ne by (simp add: m_def Let_def)
    qed
  qed
qed

lemma fifo_dedup_upd [simp]:
  "fifo_waiting (q\<lparr>deduplication := d\<rparr>) = fifo_waiting q" "group_messages (q\<lparr>deduplication := d\<rparr>) g = group_messages q g"
  "fifo_excl (q\<lparr>deduplication := d\<rparr>) = fifo_excl q" "fifo_inv t (q\<lparr>deduplication := d\<rparr>) = fifo_inv t q"
proof -
  show g: "group_messages (q\<lparr>deduplication := d\<rparr>) g = group_messages q g" for g by (simp add: group_messages_def)
  show "fifo_waiting (q\<lparr>deduplication := d\<rparr>) = fifo_waiting q" by (simp add: fifo_waiting_def)
  show "fifo_excl (q\<lparr>deduplication := d\<rparr>) = fifo_excl q" by (simp add: fifo_excl_def g)
  have "queue_wf ws (q\<lparr>deduplication := d\<rparr>) = queue_wf ws q" for ws
    by (rule queue_wf_base) (simp add: sqs_queue.truncate_def)
  then show "fifo_inv t (q\<lparr>deduplication := d\<rparr>) = fifo_inv t q"
    by (simp add: fifo_inv_def fifo_ok_def g fifo_waiting_def)
qed

lemma fifo_inv_put:
  assumes inv: "fifo_inv now q" and out: "fifo_put ext now later seq msg timeout dedup grp delay q = ((res, q'), seq')"
    and fresh: "MessageId msg \<notin> mid q ` set (fifo_waiting q @ inflight q @ delayed q)"
  shows "fifo_inv now q' \<and> (fifo_excl q \<longrightarrow> fifo_excl q')"
proof -
  note D = fifo_invD [OF inv]
  have refs: "x < next_ref q" if "x \<in> set (fifo_waiting q @ inflight q @ delayed q)" for x
    using queue_wf_ref [OF D(1) that] by blast
  have base: "fifo_inv now q1" "fifo_excl q1 = fifo_excl q" if new: "new_obj m q = (r, q1)" for m r q1
  proof -
    have q1: "q1 = q\<lparr>objs := (objs q)(r := m), next_ref := Suc r\<rparr>" and r: "r = next_ref q" using new by (auto simp: new_obj_def)
    have gm: "group_messages q1 g = group_messages q g" for g by (simp add: q1 group_messages_def)
    have w: "fifo_waiting q1 = fifo_waiting q" by (simp add: q1 fifo_waiting_def)
    have ok: "fifo_ok q1" by (rule fifo_ok_frame [OF D(2)]) (use r in \<open>simp_all add: q1\<close>)
    have o: "obj q1 x = obj q x" if "x \<in> set (fifo_waiting q @ inflight q @ delayed q)" for x
      using refs [OF that] r by (simp add: q1)
    show "fifo_inv now q1"
    proof (rule fifo_invI [OF _ ok])
      show "queue_wf (fifo_waiting q1) q1" unfolding w by (rule queue_wf_unused [OF D(1) new])
      show "is_visible now (obj q1 x)" if "x \<in> set (fifo_waiting q1)" for x using that D(3) o [of x] by (simp add: w)
      show "1 \<le> receive_count (obj q1 x)" if "x \<in> set (inflight q1)" for x using that D(4) [of x] o [of x] by (simp add: q1)
      show "receive_count (obj q1 x) = 0 \<and> visibility_deadline (obj q1 x) = None" if "x \<in> set (delayed q1)" for x
        using that D(5) [of x] o [of x] by (simp add: q1)
    qed
    show "fifo_excl q1 = fifo_excl q" unfolding fifo_excl_def gm by (simp add: q1)
  qed
  show ?thesis
    using out
  proof (cases rule: fifo_put_cases)
    case 1
    then show ?thesis using inv by simp
  next
    case (2 v d orig r)
    then show ?thesis using base [OF 2(4)] by simp
  next
    case (3 v d m r q1 q2)
    note B = base [OF 3(5)] and m = 3(1)
    have q1: "q1 = q\<lparr>objs := (objs q)(r := m), next_ref := Suc r\<rparr>" using 3(5) by (auto simp: new_obj_def)
    have w1: "fifo_waiting q1 = fifo_waiting q" by (simp add: q1 fifo_waiting_def)
    have wf1: "queue_wf (r # fifo_waiting q) q1" "queue_wf (fifo_waiting q) (add_delayed_message r q1)"
      by (rule queue_wf_new [OF D(1) _ _ _ 3(5)]; use fresh in \<open>simp add: m\<close>)+
    have obj_r: "obj q1 r = m" by (simp add: q1)
    have "fifo_inv now q2 \<and> (fifo_excl q1 \<longrightarrow> fifo_excl q2)"
    proof (cases "is_delayed later m")
      case True
      have q2: "q2 = add_delayed_message r q1" using 3(6) True by simp
      have s: "objs q2 = objs q1" "inflight q2 = inflight q1" "fifo_waiting q2 = fifo_waiting q"
        "set (delayed q2) \<subseteq> insert r (set (delayed q1))" "\<And>g. group_messages q2 g = group_messages q1 g"
        by (auto simp: q2 add_delayed_message_def add_by_id_def w1 group_messages_def)
      have ok2: "fifo_ok q2" using fifo.ok_upd(2) fifo_invD(2) [OF B(1)] by (simp add: q2 add_delayed_message_def)
      have "fifo_inv now q2"
        by (rule fifo_invI [OF _ ok2]) (use wf1(2) q2 s fifo_invD [OF B(1)] obj_r m w1 in auto)
      then show ?thesis using s(5) by (simp add: fifo_excl_def q2 add_delayed_message_def)
    next
      case False
      then have q2: "q2 = fifo_put_message r q1" using 3(6) by simp
      have ok2: "fifo_ok q2" unfolding q2 by (rule fifo_ok_put [OF fifo_invD(2) [OF B(1)]]) (simp add: q1)
      have w2: "mset (fifo_waiting q2) = mset (r # fifo_waiting q)" by (simp add: q2 w1)
      have wf2: "queue_wf (fifo_waiting q2) q2"
        unfolding q2 using queue_wf_mset [OF w2 [symmetric] wf1(1)] queue_wf_base [OF fifo_put_message_simps(3), of _ r q1] q2 by simp
      have "fifo_inv now q2"
        by (rule fifo_invI [OF wf2 ok2]) (use fifo_invD [OF B(1)] mset_eq_setD [OF w2] obj_r m w1 in \<open>auto simp: q2 is_visible_def\<close>)
      then show ?thesis using fifo_put_excl q2 by blast
    qed
    then show ?thesis using 3(7) B(2) by simp
  qed
qed

subsection \<open>The other operations\<close>

text \<open>Removing a message keeps its group's place: the group is offered again only when it leaves the groups in flight.\<close>

lemma update_visibility_excl: "fifo_excl q \<Longrightarrow> fifo_excl (update_message_group_visibility g q)"
  unfolding fifo_excl_def
  by (auto simp: update_message_group_visibility_def Let_def group_empty_def group_messages_def)

lemma get_message_group_excl: "fifo_excl (get_message_group g q) = fifo_excl q"
  by (simp add: fifo_excl_def)

lemma fifo_remove_cases:
  assumes inv: "fifo_inv now q" and out: "fifo_remove ext now h q = (res, q')"
  obtains "q' = q"
  | r where "dict_get (receipts q) h = Some r" "r \<notin> set (fifo_waiting q)" "\<not> is_visible now (obj q r)"
      "q' = fifo_on_remove_message r (forget_message r q)" "res = Inr ()"
proof (cases "validate_receipt_handle ext q h")
  case (Inl e)
  then show thesis using out that(1) by (simp add: fifo_remove_def)
next
  case (Inr u)
  then have rm: "queue_remove (fifo_pre_delete_checks now) fifo_on_remove_message ext h q = (res, q')" and v: "validate_receipt_handle ext q h = Inr ()"
    using out by (simp_all add: fifo_remove_def)
  show thesis
  proof (cases "\<exists>r. dict_get (receipts q) h = Some r \<and> \<not> is_visible now (obj q r)")
    case True
    then obtain r where r: "dict_get (receipts q) h = Some r" "\<not> is_visible now (obj q r)" by blast
    then have "fifo_pre_delete_checks now (obj q r) h = Inr ()" by (simp add: fifo_pre_delete_checks_def)
    note c = fifo.queue_remove_cases [where pre = "fifo_pre_delete_checks now", OF fifo_invD(1) [OF inv] r(1) v this]
    have "r \<notin> set (fifo_waiting q)" using r(2) fifo_invD(3) [OF inv] by blast
    then show thesis using that(2) [OF r(1) _ r(2)] c rm by simp
  next
    case False
    then have "q' = q"
      by (intro fifo.queue_remove_noop [OF rm])
        (cases "dict_get (receipts q) h", auto simp: fifo_pre_delete_checks_def)
    then show thesis by (rule that(1))
  qed
qed

lemma fifo_removed:
  fixes q r
  defines "q' \<equiv> fifo_on_remove_message r (forget_message r q)"
  shows "group_messages q' g = group_messages q g" "mset (fifo_waiting q') = mset (fifo_waiting q)"
    "inflight q' = remove_by_id q r (inflight q)" "delayed q' = delayed q" "next_ref q' = next_ref q"
    "x \<noteq> r \<Longrightarrow> obj q' x = obj q x" "queue_arn q' = queue_arn q" "deduplication q' = deduplication q"
    "deduplication_scope q' = deduplication_scope q" "obj q' r = (obj q r)\<lparr>deleted := True, receipt_handles := []\<rparr>"
    "attributes q' = attributes q" "is_shutdown q' = is_shutdown q"
proof -
  let ?q1 = "forget_message r q"
  have more: "sqs_queue.more ?q1 = sqs_queue.more q" by simp
  note m = fifo_more [OF more]
  have mg: "message_groups q' = message_groups (get_message_group (message_group_id (obj ?q1 r)) ?q1)"
    unfolding q'_def by (rule fifo_on_remove_simps(1))
  show "group_messages q' g = group_messages q g" for g
    unfolding group_messages_cong [OF mg] using group_messages_cong [OF m(1)] by simp
  show "mset (fifo_waiting q') = mset (fifo_waiting q)"
    unfolding fifo_waiting_cong [OF mg] using fifo_waiting_cong [OF m(1)] by simp
  have "remove_by_id ?q1 r (inflight q) = remove_by_id q r (inflight q)" by (rule remove_by_id_cong) simp
  then show "inflight q' = remove_by_id q r (inflight q)" unfolding q'_def fifo_on_remove_simps(2) by simp
  show "delayed q' = delayed q" "next_ref q' = next_ref q" "x \<noteq> r \<Longrightarrow> obj q' x = obj q x" "queue_arn q' = queue_arn q"
    "obj q' r = (obj q r)\<lparr>deleted := True, receipt_handles := []\<rparr>" "attributes q' = attributes q" for x
    unfolding q'_def by (simp_all add: queue_arn_def)
  show "is_shutdown q' = is_shutdown q" unfolding q'_def by (simp add: forget_message_def)
  show "deduplication q' = deduplication q" "deduplication_scope q' = deduplication_scope q"
    unfolding q'_def fifo_on_remove_message_def Let_def using m(4,5) by simp_all
qed

lemma forget_more_excl: "fifo_excl (forget_message r q) = fifo_excl q"
proof -
  have "sqs_queue.more (forget_message r q) = sqs_queue.more q" by simp
  note m = fifo_more [OF this]
  show ?thesis unfolding fifo_excl_def using m by (simp add: group_messages_def)
qed

lemma fifo_inv_remove:
  assumes inv: "fifo_inv now q" and out: "fifo_remove ext now h q = (res, q')"
  shows "fifo_inv now q' \<and> (fifo_excl q \<longrightarrow> fifo_excl q')"
  using inv out
proof (cases rule: fifo_remove_cases)
  case (2 r)
  note D = fifo_invD [OF inv] and R = fifo_removed [where q = q and r = r, folded 2(4)]
  note W = fifo.forget_wf [OF D(1,2) 2(1,2,4)]
  have out: "r \<notin> set (fifo_waiting q' @ inflight q' @ delayed q')" by (rule W(3))
  have sub: "set (inflight q') \<subseteq> set (inflight q)" unfolding R(3) by (rule set_remove_by_id)
  have "fifo_inv now q'"
  proof (rule fifo_invI [OF W(1,2)])
    show "is_visible now (obj q' x)" if "x \<in> set (fifo_waiting q')" for x
      using that out D(3) [of x] R(6) [of x] mset_eq_setD [OF R(2)] by (cases "x = r") auto
    show "1 \<le> receive_count (obj q' x)" if "x \<in> set (inflight q')" for x
      using that out sub D(4) [of x] R(6) [of x] by (cases "x = r") auto
    show "receive_count (obj q' x) = 0 \<and> visibility_deadline (obj q' x) = None" if "x \<in> set (delayed q')" for x
      using that out D(5) [of x] R(4) R(6) [of x] by (cases "x = r") auto
  qed
  moreover have "fifo_excl q'" if "fifo_excl q"
    unfolding 2(4) fifo_on_remove_message_def Let_def
  proof (rule update_visibility_excl)
    have e: "fifo_excl (x\<lparr>inflight := i\<rparr>) = fifo_excl x" for x i by (simp add: fifo_excl_def group_messages_def)
    show "fifo_excl (get_message_group (message_group_id (obj (forget_message r q) r)) (forget_message r q)
        \<lparr>inflight := remove_by_id (get_message_group (message_group_id (obj (forget_message r q) r)) (forget_message r q)) r
          (inflight (get_message_group (message_group_id (obj (forget_message r q) r)) (forget_message r q)))\<rparr>)"
      unfolding e get_message_group_excl forget_more_excl by (rule that)
  qed
  ultimately show ?thesis by blast
qed (use inv in simp)

lemma fifo_change_visibility_cases:
  assumes out: "fifo_update_visibility_timeout ext now h v q = (res, q')"
  obtains "q' = q"
  | r where "dict_get (receipts q) h = Some r" "in_by_id q r (inflight q)" "v \<noteq> 0"
      "q' = upd_obj r (update_visibility_timeout now v) q"
  | r q1 where "dict_get (receipts q) h = Some r" "in_by_id q r (inflight q)" "v = 0"
      "q1 = upd_obj r (update_visibility_timeout now v) q"
      "q' = fifo_put_message r (q1\<lparr>inflight := remove_by_id q1 r (inflight q1)\<rparr>)"
proof (cases "\<exists>r. dict_get (receipts q) h = Some r \<and> in_by_id q r (inflight q) \<and> validate_receipt_handle ext q h = Inr ()")
  case True
  then obtain r where r: "dict_get (receipts q) h = Some r" "in_by_id q r (inflight q)" "validate_receipt_handle ext q h = Inr ()"
    by blast
  note out' = out [unfolded fifo_update_visibility_timeout_def queue_update_visibility_timeout_def r(1,3) sum.case option.case Let_def]
  show thesis
    by (cases "v = 0") (use out' r that(2,3) in auto)
next
  case False
  then have "q' = q"
    using out by (auto simp: fifo_update_visibility_timeout_def queue_update_visibility_timeout_def split: sum.splits option.splits if_splits)
  then show thesis by (rule that(1))
qed

lemma fifo_excl_frame: "sqs_queue.more q' = sqs_queue.more q \<Longrightarrow> fifo_excl q' = fifo_excl q"
  unfolding fifo_excl_def using fifo_more [of q' q] by (simp add: group_messages_def)

lemma fifo_inv_change_visibility:
  assumes inv: "fifo_inv now q" and out: "fifo_update_visibility_timeout ext now h v q = (res, q')"
  shows "fifo_inv now q' \<and> (fifo_excl q \<longrightarrow> fifo_excl q')"
proof -
  note D = fifo_invD [OF inv]
  note S = fifo.update_visibility_spec [OF D(1,2) out [unfolded fifo_update_visibility_timeout_def]]
  from out show ?thesis
  proof (cases rule: fifo_change_visibility_cases)
    case 1
    then show ?thesis using inv by simp
  next
    case (2 r)
    have x: "obj q' x = (if x = r then update_visibility_timeout now v (obj q x) else obj q x)" for x by (simp add: 2(4))
    have "r \<notin> set (fifo_waiting q)" using queue_wf_not_elsewhere(1) [OF D(1)] 2(2) by blast
    moreover have "r \<notin> set (delayed q)"
      using queue_wf_delayed [OF D(1), of r] receipts_okD(3) [OF queue_wf_receipts [OF D(1)] 2(1)] by auto
    moreover have s: "fifo_waiting q' = fifo_waiting q" "inflight q' = inflight q" "delayed q' = delayed q" by (simp_all add: 2(4))
    ultimately have "fifo_inv now q'"
      using D S by (intro fifo_invI) (auto simp: x update_visibility_timeout_def)
    moreover have "sqs_queue.more q' = sqs_queue.more q" by (simp add: 2(4) upd_obj_def)
    ultimately show ?thesis using fifo_excl_frame by blast
  next
    case (3 r q1)
    have x: "obj q' x = (if x = r then update_visibility_timeout now v (obj q x) else obj q x)" for x by (simp add: 3(4,5))
    have dl: "r \<notin> set (delayed q)"
      using queue_wf_delayed [OF D(1), of r] receipts_okD(3) [OF queue_wf_receipts [OF D(1)] 3(1)] by auto
    have "mset (fifo_waiting q') = add_mset r (mset (fifo_waiting q))" by (simp add: 3(4,5))
    then have w: "set (fifo_waiting q') = insert r (set (fifo_waiting q))" by (metis set_mset_add_mset_insert set_mset_mset)
    have i: "set (inflight q') \<subseteq> set (inflight q)" using set_remove_by_id [of q1 r "inflight q"] by (simp add: 3(4,5))
    have d: "delayed q' = delayed q" by (simp add: 3(4,5))
    have "fifo_inv now q'"
      using D S dl w i d 3(3) by (intro fifo_invI) (auto simp: x update_visibility_timeout_def is_visible_def)
    moreover have "fifo_excl q1 = fifo_excl q" by (rule fifo_excl_frame) (simp add: 3(4) upd_obj_def)
    then have "fifo_excl (q1\<lparr>inflight := i\<rparr>) = fifo_excl q" for i by (simp add: fifo_excl_def group_messages_def)
    ultimately show ?thesis using fifo_put_excl 3(5) by blast
  qed
qed

lemma fifo_inv_requeue:
  assumes inv: "fifo_inv now q"
  shows "fifo_inv now (fifo_requeue_inflight_messages now q) \<and> (fifo_excl q \<longrightarrow> fifo_excl (fifo_requeue_inflight_messages now q))"
proof -
  have "distinct (inflight q)" using queue_wf_ids [OF fifo_invD(1) [OF inv]] by (simp add: distinct_map)
  from fifo_requeue_loop_spec [OF inv subset_refl this refl] show ?thesis
    unfolding fifo_requeue_inflight_messages_def by blast
qed

lemma fifo_enqueue_excl:
  "fifo_excl q \<Longrightarrow> fifo_excl (fold (\<lambda>r acc. fifo_put_message r (acc\<lparr>delayed := remove_by_id acc r (delayed acc)\<rparr>)) rs q)"
proof (induction rs arbitrary: q)
  case (Cons r rs)
  have "fifo_excl (fifo_put_message r (q\<lparr>delayed := remove_by_id q r (delayed q)\<rparr>))"
    by (rule fifo_put_excl) (use Cons.prems in \<open>simp add: fifo_excl_def group_messages_def\<close>)
  then show ?case using Cons.IH by simp
qed simp

lemma fifo_inv_enqueue:
  assumes inv: "fifo_inv now q"
  shows "fifo_inv now (fifo_enqueue_delayed_messages now q) \<and> (fifo_excl q \<longrightarrow> fifo_excl (fifo_enqueue_delayed_messages now q))"
proof
  let ?q' = "fifo_enqueue_delayed_messages now q"
  note D = fifo_invD [OF inv]
  note S = fifo.enqueue_spec [OF D(1,2), of ?q' now, unfolded fifo_enqueue_delayed_messages_def, OF refl, folded fifo_enqueue_delayed_messages_def]
  have w: "set (fifo_waiting ?q') = set (fifo_waiting q) \<union> set (filter (\<lambda>r. \<not> is_delayed now (obj q r)) (delayed q))"
    using S(3) by (metis set_mset_mset set_mset_union)
  show "fifo_inv now ?q'"
    by (rule fifo_invI [OF S(1,2)]) (use D w in \<open>auto simp: S is_visible_def\<close>)
  show "fifo_excl q \<longrightarrow> fifo_excl ?q'"
    unfolding fifo_enqueue_delayed_messages_def enqueue_delayed_messages_def using fifo_enqueue_excl by blast
qed

text \<open>Expiry takes the oldest messages out of every group and leaves the group queue alone.\<close>

lemma fifo_expired_groups:
  assumes "fifo_ok q" "fifo_remove_expired_messages now q = (res, q')"
  shows "q' = q\<lparr>message_groups := message_groups q'\<rparr>" "mset (group_messages q' g) \<subseteq># mset (group_messages q g)"
    "is_heap (msg_priority q) (group_messages q' g)" "map fst (message_groups q') = map fst (message_groups q)"
proof -
  have "q' = q\<lparr>message_groups := message_groups q'\<rparr> \<and> mset (group_messages q' g) \<subseteq># mset (group_messages q g) \<and>
    is_heap (msg_priority q) (group_messages q' g) \<and> map fst (message_groups q') = map fst (message_groups q)"
  proof (cases "message_retention_period q")
    case (Inl e)
    then have "q' = q" using assms(2) by (simp add: fifo_remove_expired_messages_def)
    then show ?thesis using fifo_okD(2) [OF assms(1)] by simp
  next
    case (Inr retention)
    let ?f = "\<lambda>h. snd (remove_expired_messages_from_heap (objs q) now retention h)"
    have q': "q' = q\<lparr>message_groups := map (\<lambda>(g, h). (g, ?f h)) (message_groups q)\<rparr>"
      using assms(2) Inr by (simp add: fifo_remove_expired_messages_def)
    have f: "mset (?f h) \<subseteq># mset h \<and> is_heap (msg_priority q) (?f h)" if "is_heap (msg_priority q) h" for h
    proof -
      obtain x y where e: "remove_expired_messages_from_heap (objs q) now retention h = (x, y)" by fastforce
      from remove_expired_loop_spec [OF that e [unfolded remove_expired_messages_from_heap_def]] show ?thesis
        unfolding e by auto
    qed
    have "group_messages q' g = (case dict_get (message_groups q) g of None \<Rightarrow> [] | Some h \<Rightarrow> ?f h)"
      by (simp add: q' group_messages_def map_of_map split: option.splits)
    then have "mset (group_messages q' g) \<subseteq># mset (group_messages q g) \<and> is_heap (msg_priority q) (group_messages q' g)"
      using f [of "group_messages q g"] fifo_okD(2) [OF assms(1), of g]
      by (auto simp: group_messages_def heap_from_def split: option.splits)
    moreover have "map fst (message_groups q') = map fst (message_groups q)" by (simp add: q' comp_def case_prod_beta)
    ultimately show ?thesis using q' by simp
  qed
  then show "q' = q\<lparr>message_groups := message_groups q'\<rparr>" "mset (group_messages q' g) \<subseteq># mset (group_messages q g)"
    "is_heap (msg_priority q) (group_messages q' g)" "map fst (message_groups q') = map fst (message_groups q)" by blast+
qed

lemma mset_concat_mono:
  "map fst d' = map fst d \<Longrightarrow> dict_wf d \<Longrightarrow> (\<And>g h h'. dict_get d g = Some h \<Longrightarrow> dict_get d' g = Some h' \<Longrightarrow> mset h' \<subseteq># mset h) \<Longrightarrow>
   mset (concat (map snd d')) \<subseteq># mset (concat (map snd d))"
proof (induction d arbitrary: d')
  case (Cons p d)
  obtain g h where p: "p = (g, h)" by (cases p)
  obtain h' e where d': "d' = (g, h') # e" "map fst e = map fst d" using Cons.prems(1) p by (cases d') auto
  have fresh: "g \<notin> set (map fst d)" "g \<notin> set (map fst e)" using Cons.prems(2) p d'(2) by auto
  have "mset (concat (map snd e)) \<subseteq># mset (concat (map snd d))"
  proof (rule Cons.IH [OF d'(2)])
    show "dict_wf d" using Cons.prems(2) by simp
    fix g1 h1 h2 assume "dict_get d g1 = Some h1" "dict_get e g1 = Some h2"
    moreover from this fresh(1) have "g1 \<noteq> g" by (auto dest: dict_get_absent)
    ultimately show "mset h2 \<subseteq># mset h1" using Cons.prems(3) [of g1 h1 h2] p d' by simp
  qed
  moreover have "mset h' \<subseteq># mset h" using Cons.prems(3) [of g h h'] p d' by simp
  ultimately show ?case by (simp add: p d' subset_mset.add_mono)
qed simp

lemma fifo_inv_expired:
  assumes inv: "fifo_inv now q" and out: "fifo_remove_expired_messages now q = (res, q')"
  shows "fifo_inv now q'"
proof -
  note D = fifo_invD [OF inv] and ok = fifo_okD [OF fifo_invD(2) [OF inv]]
  note E = fifo_expired_groups [OF D(2) out]
  have s: "objs q' = objs q" "inflight q' = inflight q" "delayed q' = delayed q" "receipts q' = receipts q"
    "next_ref q' = next_ref q" "message_group_queue q' = message_group_queue q" "inflight_groups q' = inflight_groups q"
    by (subst E(1), simp)+
  have sub: "set (group_messages q' g) \<subseteq> set (group_messages q g)" for g using set_mset_mono [OF E(2) [of g]] by simp
  have "mset (fifo_waiting q') \<subseteq># mset (fifo_waiting q)"
    unfolding fifo_waiting_def
  proof (rule mset_concat_mono [OF E(4) ok(1)])
    fix g h h' assume "dict_get (message_groups q) g = Some h" "dict_get (message_groups q') g = Some h'"
    then show "mset h' \<subseteq># mset h" using E(2) [of g] by (simp add: group_messages_def)
  qed
  note w = this
  have ws: "set (fifo_waiting q') \<subseteq> set (fifo_waiting q)" using set_mset_mono [OF w] by simp
  have ids: "queue_ids (fifo_waiting q') q' \<subseteq># queue_ids (fifo_waiting q) q"
    unfolding queue_ids_def s using w by (intro image_mset_subseteq_mono subset_mset.add_mono) simp_all
  have wf: "queue_wf (fifo_waiting q') q'"
    by (rule queue_wf_shuffle [OF D(1) _ _ _ _ _ ids]) (use ws in \<open>auto simp: s\<close>)
  have "fifo_ok q'"
  proof (rule fifo_okI)
    show "dict_wf (message_groups q')" unfolding E(4) by (rule ok(1))
    fix g
    show "is_heap (msg_priority q') (group_messages q' g)" unfolding s by (rule E(3))
    show "r < next_ref q' \<and> message_group_id (obj q' r) = g" if "r \<in> set (group_messages q' g)" for r
      using ok(3) [of r g] that sub unfolding s by blast
    show "g \<in> set (message_group_queue q') \<union> set (inflight_groups q')" if "group_messages q' g \<noteq> []"
      using ok(4) [of g] that sub [of g] unfolding s by (cases "group_messages q g") auto
  qed
  then show ?thesis using D ws by (intro fifo_invI [OF wf]) (auto simp: s)
qed

lemma fifo_inv_clear: "fifo_inv t (fifo_clear q) \<and> fifo_excl (fifo_clear q)"
proof -
  have e: "fifo_waiting (fifo_clear q) = []" "inflight (fifo_clear q) = []" "delayed (fifo_clear q) = []" "receipts (fifo_clear q) = []"
    "message_groups (fifo_clear q) = []" "message_group_queue (fifo_clear q) = []"
    by (simp_all add: fifo_clear_def clear_base_def fifo_waiting_def)
  have "queue_wf [] (fifo_clear q)" by (rule queue_wfI) (simp_all add: e receipts_ok_def)
  moreover have "fifo_ok (fifo_clear q)" by (rule fifo_okI) (simp_all add: e group_messages_def heap_from_def)
  ultimately show ?thesis by (auto simp: fifo_inv_def e fifo_excl_def)
qed

lemma fifo_inv_base:
  assumes "fifo_inv t q" "objs q' = objs q" "inflight q' = inflight q" "delayed q' = delayed q" "receipts q' = receipts q"
    "next_ref q' = next_ref q" "fifo_ok q'" "mset (fifo_waiting q') = mset (fifo_waiting q)"
  shows "fifo_inv t q'"
proof (rule fifo_invI [OF _ assms(7)])
  note D = fifo_invD [OF assms(1)]
  show "queue_wf (fifo_waiting q') q'"
    by (rule queue_wf_shuffle [OF D(1)]) (use mset_eq_setD [OF assms(8)] in \<open>auto simp: assms queue_ids_def\<close>)
qed (use fifo_invD [OF assms(1)] mset_eq_setD [OF assms(8)] assms(2-6) in auto)

lemma fifo_inv_refresh:
  assumes inv: "fifo_inv t q"
  shows "fifo_inv t (update_message_group_visibility g (get_message_group g q)) \<and>
    (fifo_excl q \<longrightarrow> fifo_excl (update_message_group_visibility g (get_message_group g q)))"
proof
  let ?q' = "update_message_group_visibility g (get_message_group g q)"
  show "fifo_inv t ?q'"
  proof (rule fifo_inv_base [OF inv])
    show "fifo_ok ?q'" by (rule fifo_ok_update_visibility, rule fifo_ok_get_group, rule fifo_invD(2) [OF inv])
    have "fifo_waiting ?q' = fifo_waiting (get_message_group g q)" by (rule fifo_waiting_cong) simp
    then show "mset (fifo_waiting ?q') = mset (fifo_waiting q)" by simp
  qed (simp_all add: get_message_group_def)
  show "fifo_excl q \<longrightarrow> fifo_excl ?q'" using update_visibility_excl get_message_group_excl by blast
qed

subsection \<open>Events and steps\<close>

datatype fifo_event =
    FifoPut time int api_message "int option" "string option" "string option" "int option"
  | FifoReceive int "int option" "int option" bool
  | FifoRemove string
  | FifoChangeVisibility string int
  | FifoRequeue
  | FifoEnqueueDelayed
  | FifoRemoveExpired
  | FifoClear
  | FifoShutdown
  | FifoSetAttributes "(string, string) dict"
  | FifoRefreshGroup group_id

text \<open>
  A state is a queue with the number of identifiers drawn so far. \<open>FifoRefreshGroup\<close> is the call the provider makes
  after it has moved a dead letter of the group.
\<close>

fun fifo_exec ::
  "externals \<Rightarrow> (nat \<Rightarrow> string) \<Rightarrow> time \<Rightarrow> fifo_event \<Rightarrow> fifo_queue \<times> nat \<Rightarrow> ref list \<times> fifo_queue \<times> nat" where
  "fifo_exec ext uid now (FifoPut later seq msg timeout dedup grp delay) (q, n) =
     ([], snd (fst (fifo_put ext now later seq msg timeout dedup grp delay q)), n)"
| "fifo_exec ext uid now (FifoReceive num wait timeout poll) (q, n) =
     (case fifo_receive ext (\<lambda>i. uid (n + i)) now num wait timeout poll q of
        (Inl _, q') \<Rightarrow> ([], q', n)
      | (Inr res, q') \<Rightarrow> (successful res, q', n + length (result_handles res)))"
| "fifo_exec ext uid now (FifoRemove h) (q, n) = ([], snd (fifo_remove ext now h q), n)"
| "fifo_exec ext uid now (FifoChangeVisibility h v) (q, n) = ([], snd (fifo_update_visibility_timeout ext now h v q), n)"
| "fifo_exec ext uid now FifoRequeue (q, n) = ([], fifo_requeue_inflight_messages now q, n)"
| "fifo_exec ext uid now FifoEnqueueDelayed (q, n) = ([], fifo_enqueue_delayed_messages now q, n)"
| "fifo_exec ext uid now FifoRemoveExpired (q, n) = ([], snd (fifo_remove_expired_messages now q), n)"
| "fifo_exec ext uid now FifoClear (q, n) = ([], fifo_clear q, n)"
| "fifo_exec ext uid now FifoShutdown (q, n) = ([], queue_shutdown q, n)"
| "fifo_exec ext uid now (FifoSetAttributes a) (q, n) = ([], q\<lparr>attributes := a\<rparr>, n)"
| "fifo_exec ext uid now (FifoRefreshGroup g) (q, n) = ([], update_message_group_visibility g (get_message_group g q), n)"

text \<open>
  The message ids of the API are fresh UUIDs, and expiry runs only where \<open>SQS_ENABLE_MESSAGE_RETENTION_PERIOD\<close> is set
  (\<open>retention\<close>).
\<close>

fun fifo_admissible :: "bool \<Rightarrow> fifo_event \<Rightarrow> fifo_queue \<Rightarrow> bool" where
  "fifo_admissible retention (FifoPut later seq msg timeout dedup grp delay) q \<longleftrightarrow>
     MessageId msg \<notin> mid q ` set (fifo_waiting q @ inflight q @ delayed q)"
| "fifo_admissible retention FifoRemoveExpired q \<longleftrightarrow> retention"
| "fifo_admissible retention _ q \<longleftrightarrow> True"

inductive fifo_step ::
  "bool \<Rightarrow> externals \<Rightarrow> (nat \<Rightarrow> string) \<Rightarrow> fifo_queue \<times> nat \<times> time \<Rightarrow> fifo_event \<Rightarrow> ref list \<Rightarrow>
   fifo_queue \<times> nat \<times> time \<Rightarrow> bool" for retention ext uid where
  fifo_stepI: "t \<le> now \<Longrightarrow> fifo_admissible retention ev q \<Longrightarrow> fifo_exec ext uid now ev (q, n) = (out, q', n') \<Longrightarrow>
    fifo_step retention ext uid (q, n, t) ev out (q', n', now)"

inductive_cases fifo_stepE: "fifo_step retention ext uid s ev out s'"

inductive fifo_reachable ::
  "bool \<Rightarrow> externals \<Rightarrow> (nat \<Rightarrow> string) \<Rightarrow> fifo_queue \<times> nat \<times> time \<Rightarrow> bool" for retention ext uid where
  fifo_init: "fifo_queue_init now name reg account attrs tgs = Inr q \<Longrightarrow> fifo_reachable retention ext uid (q, 0, now)"
| fifo_more_steps: "fifo_reachable retention ext uid s \<Longrightarrow> fifo_step retention ext uid s ev out s' \<Longrightarrow>
    fifo_reachable retention ext uid s'"

subsection \<open>What no operation changes\<close>

definition fifo_frame :: "fifo_queue \<Rightarrow> fifo_queue \<Rightarrow> bool" where
  "fifo_frame q q' \<longleftrightarrow> queue_arn q' = queue_arn q \<and> deduplication_scope q' = deduplication_scope q \<and> next_ref q \<le> next_ref q' \<and>
     (\<forall>x < next_ref q. mid q' x = mid q x \<and> priority (obj q' x) = priority (obj q x) \<and>
        message_group_id (obj q' x) = message_group_id (obj q x))"

lemma fifo_frameI:
  "queue_arn q' = queue_arn q \<Longrightarrow> deduplication_scope q' = deduplication_scope q \<Longrightarrow> next_ref q \<le> next_ref q' \<Longrightarrow>
   (\<And>x. x < next_ref q \<Longrightarrow> mid q' x = mid q x \<and> priority (obj q' x) = priority (obj q x) \<and>
      message_group_id (obj q' x) = message_group_id (obj q x)) \<Longrightarrow> fifo_frame q q'"
  unfolding fifo_frame_def by blast

lemma fifo_frame_refl [simp]: "fifo_frame q q"
  by (simp add: fifo_frame_def)

lemma fifo_frame_trans: "fifo_frame q q1 \<Longrightarrow> fifo_frame q1 q2 \<Longrightarrow> fifo_frame q q2"
  unfolding fifo_frame_def by (metis dual_order.trans order_less_le_trans)

lemma fifo_put_message_arn [simp]: "queue_arn (fifo_put_message r q) = queue_arn q"
  using fifo_put_message_simps(3) [of r q] by (intro queue_arn_cong) (simp_all add: sqs_queue.truncate_def)

lemma fifo_put_frame:
  assumes out: "fifo_put ext now later seq msg timeout dedup grp delay q = ((res, q'), seq')"
  shows "fifo_frame q q'" "receipts q' = receipts q" "inflight q' = inflight q" "inflight_groups q' = inflight_groups q"
    "x < next_ref q \<Longrightarrow> obj q' x = obj q x"
    "set (message_group_queue q') \<subseteq> set (message_group_queue q) \<union> (- set (inflight_groups q))"
proof -
  have n: "queue_arn q1 = queue_arn q \<and> deduplication_scope q1 = deduplication_scope q \<and> next_ref q1 = Suc (next_ref q) \<and>
      (\<forall>x < next_ref q. obj q1 x = obj q x) \<and> receipts q1 = receipts q \<and> inflight q1 = inflight q \<and>
      message_group_queue q1 = message_group_queue q \<and> inflight_groups q1 = inflight_groups q" if "new_obj m q = (r, q1)" for m r q1
    using that by (auto simp: new_obj_def queue_arn_def)
  have "fifo_frame q q' \<and> receipts q' = receipts q \<and> inflight q' = inflight q \<and> inflight_groups q' = inflight_groups q \<and>
    (\<forall>x < next_ref q. obj q' x = obj q x) \<and> set (message_group_queue q') \<subseteq> set (message_group_queue q) \<union> (- set (inflight_groups q))"
    using out
  proof (cases rule: fifo_put_cases)
    case (2 v d orig r)
    then show ?thesis using n [OF 2(4)] by (auto simp: fifo_frame_def)
  next
    case (3 v d m r q1 q2)
    have o: "obj q1 r = m" using 3(5) by (auto simp: new_obj_def)
    have g: "inflight_groups q2 = inflight_groups q1 \<and> set (message_group_queue q2) \<subseteq> set (message_group_queue q1) \<union> (- set (inflight_groups q1))"
      unfolding 3(6) by (auto simp: add_delayed_message_def fifo_put_message_groups o 3(1) split: if_splits)
    moreover have "queue_arn q2 = queue_arn q1 \<and> deduplication_scope q2 = deduplication_scope q1 \<and> next_ref q2 = next_ref q1 \<and>
        objs q2 = objs q1 \<and> receipts q2 = receipts q1 \<and> inflight q2 = inflight q1"
      unfolding 3(6) by (auto simp: add_delayed_message_def queue_arn_def)
    ultimately have "queue_arn q' = queue_arn q1 \<and> deduplication_scope q' = deduplication_scope q1 \<and> next_ref q' = next_ref q1 \<and>
        objs q' = objs q1 \<and> receipts q' = receipts q1 \<and> inflight q' = inflight q1 \<and> inflight_groups q' = inflight_groups q1 \<and>
        set (message_group_queue q') \<subseteq> set (message_group_queue q1) \<union> (- set (inflight_groups q1))"
      unfolding 3(7) by (simp add: queue_arn_def)
    then show ?thesis using n [OF 3(5)] by (auto simp: fifo_frame_def)
  qed simp
  then show "fifo_frame q q'" "receipts q' = receipts q" "inflight q' = inflight q" "inflight_groups q' = inflight_groups q"
    "x < next_ref q \<Longrightarrow> obj q' x = obj q x"
    "set (message_group_queue q') \<subseteq> set (message_group_queue q) \<union> (- set (inflight_groups q))" by blast+
qed

lemma fifo_takes_fifo_frame:
  assumes inv: "fifo_inv t q" and c: "fifo_takes now v limit q segs q'"
  shows "fifo_frame q q'"
proof (rule fifo_frameI)
  note F = fifo_takes_frame [OF c fifo_inv_waiting(1) [OF inv]]
  then show "queue_arn q' = queue_arn q" "deduplication_scope q' = deduplication_scope q" "next_ref q \<le> next_ref q'" by auto
  have "obj q' x = (if x \<in> set (taken segs) then received now v limit (obj q x) else obj q x)" for x using F by blast
  then show "mid q' x = mid q x \<and> priority (obj q' x) = priority (obj q x) \<and> message_group_id (obj q' x) = message_group_id (obj q x)" for x
    by simp
qed

lemma fifo_receive_frame:
  assumes inv: "fifo_inv now q" and fresh: "fresh_handles ext fresh q"
    and out: "fifo_receive ext fresh now num wait_time timeout poll q = (res, q')"
  shows "fifo_frame q q'" "deduplication q' = deduplication q"
    "dict_has (receipts q') h \<Longrightarrow> dict_has (receipts q) h \<or>
      (\<exists>r i m. res = Inr r \<and> i < length (result_handles r) \<and> h = create_receipt_handle ext (fresh i) q m)"
proof -
  have "fifo_frame q q' \<and> deduplication q' = deduplication q \<and> (dict_has (receipts q') h \<longrightarrow> dict_has (receipts q) h \<or>
      (\<exists>r i m. res = Inr r \<and> i < length (result_handles r) \<and> h = create_receipt_handle ext (fresh i) q m))"
    using inv out
  proof (cases rule: fifo_receive_cases)
    case (2 e v limit segs)
    then show ?thesis
      using fifo_takes_fifo_frame [OF inv 2(2)] fifo_takes_frame [OF 2(2) fifo_inv_waiting(1) [OF inv]] by simp
  next
    case (3 v limit segs ok dead q1 handles)
    note H = fifo_handed_out [OF inv 3(3,4) fresh 3(6)] and F = fifo_takes_frame [OF 3(3) fifo_inv_waiting(1) [OF inv]]
    have arn1: "queue_arn q1 = queue_arn q" using F by blast
    have "fifo_frame q1 q'"
    proof (rule fifo_frameI)
      fix x
      obtain ks where "obj q' x = (obj q1 x)\<lparr>receipt_handles := ks\<rparr>" using fifo.hand_out_all_objs [OF 3(6)] by blast
      then show "mid q' x = mid q1 x \<and> priority (obj q' x) = priority (obj q1 x) \<and> message_group_id (obj q' x) = message_group_id (obj q1 x)"
        by (simp add: message_group_id_def msg_attributes_def)
    qed (use H F in simp_all)
    then have "fifo_frame q q'" using fifo_takes_fifo_frame [OF inv 3(3)] fifo_frame_trans by blast
    moreover have "length handles = length ok"
      using fifo.hand_out_all_spec [OF _ fifo_takes_ok [OF 3(3) fifo_invD(2) [OF inv]] _ 3(6)] 3(4)
        fifo_takes_wf [OF inv 3(3)] fresh arn1 F
      by (auto simp: sorts_out_def fresh_handles_def create_receipt_handle_cong [OF arn1])
    ultimately show ?thesis
      using fifo.hand_out_all_receipts [OF 3(6), of h] create_receipt_handle_cong [OF arn1] F H(11) 3(7) by auto
  qed simp
  then show "fifo_frame q q'" "deduplication q' = deduplication q"
    "dict_has (receipts q') h \<Longrightarrow> dict_has (receipts q) h \<or>
      (\<exists>r i m. res = Inr r \<and> i < length (result_handles r) \<and> h = create_receipt_handle ext (fresh i) q m)" by blast+
qed

lemma fifo_remove_frame:
  assumes inv: "fifo_inv now q" and out: "fifo_remove ext now h q = (res, q')"
  shows "fifo_frame q q'" "deduplication q' = deduplication q" "dict_has (receipts q') k \<Longrightarrow> dict_has (receipts q) k"
proof -
  have "fifo_frame q q' \<and> deduplication q' = deduplication q \<and> (dict_has (receipts q') k \<longrightarrow> dict_has (receipts q) k)"
    using inv out
  proof (cases rule: fifo_remove_cases)
    case (2 r)
    note R = fifo_removed [where q = q and r = r, folded 2(4)]
    have "mid q' x = mid q x \<and> priority (obj q' x) = priority (obj q x) \<and> message_group_id (obj q' x) = message_group_id (obj q x)" for x
      using R(6) [of x] R(10) by (cases "x = r") (simp_all add: message_group_id_def msg_attributes_def)
    moreover have "receipts q' = receipts (forget_message r q)" unfolding 2(4) by (rule fifo.on_remove_simps(2))
    ultimately show ?thesis using R by (auto simp: fifo_frame_def)
  qed simp
  then show "fifo_frame q q'" "deduplication q' = deduplication q" "dict_has (receipts q') k \<Longrightarrow> dict_has (receipts q) k" by blast+
qed

lemma fifo_change_visibility_frame:
  assumes "fifo_update_visibility_timeout ext now h v q = (res, q')"
  shows "fifo_frame q q' \<and> deduplication q' = deduplication q \<and> receipts q' = receipts q"
proof -
  have u: "fifo_frame q (upd_obj r (update_visibility_timeout now v) q)" for r
    by (rule fifo_frameI) (simp_all add: upd_obj_def queue_arn_def update_visibility_timeout_def message_group_id_def msg_attributes_def)
  from assms show ?thesis
  proof (cases rule: fifo_change_visibility_cases)
    case (2 r)
    then show ?thesis using u by (simp add: upd_obj_def)
  next
    case (3 r q1)
    have "fifo_frame q1 q'" unfolding 3(5) by (rule fifo_frameI) (simp_all add: queue_arn_def)
    then show ?thesis using fifo_frame_trans [OF u [of r, folded 3(4)]] by (simp add: 3(4,5) upd_obj_def)
  qed simp
qed

lemma fifo_frame_objs: "objs q' = objs q \<Longrightarrow> next_ref q' = next_ref q \<Longrightarrow> queue_arn q' = queue_arn q \<Longrightarrow>
    deduplication_scope q' = deduplication_scope q \<Longrightarrow> fifo_frame q q'"
  by (simp add: fifo_frame_def)

lemma fifo_enqueue_dedup:
  "deduplication (fold (\<lambda>r acc. fifo_put_message r (acc\<lparr>delayed := remove_by_id acc r (delayed acc)\<rparr>)) rs q) = deduplication q \<and>
   deduplication_scope (fold (\<lambda>r acc. fifo_put_message r (acc\<lparr>delayed := remove_by_id acc r (delayed acc)\<rparr>)) rs q) = deduplication_scope q"
  by (induction rs arbitrary: q) simp_all

lemma fifo_worker_frame:
  assumes inv: "fifo_inv now q"
    and q': "q' = fifo_requeue_inflight_messages now q \<or> q' = fifo_enqueue_delayed_messages now q \<or>
      q' = snd (fifo_remove_expired_messages now q) \<or> q' = queue_shutdown q \<or> q' = q\<lparr>attributes := a\<rparr> \<or>
      q' = update_message_group_visibility g (get_message_group g q)"
  shows "fifo_frame q q' \<and> deduplication q' = deduplication q \<and> receipts q' = receipts q \<and> objs q' = objs q"
  using q'
proof (elim disjE)
  assume q': "q' = fifo_requeue_inflight_messages now q"
  have "distinct (inflight q)" using queue_wf_ids [OF fifo_invD(1) [OF inv]] by (simp add: distinct_map)
  then show ?thesis
    using fifo_requeue_loop_spec [OF inv subset_refl _ q' [unfolded fifo_requeue_inflight_messages_def]] by (auto intro: fifo_frame_objs)
next
  assume q': "q' = fifo_enqueue_delayed_messages now q"
  note S = fifo.enqueue_spec [OF fifo_invD(1,2) [OF inv] q' [unfolded fifo_enqueue_delayed_messages_def]]
  then show ?thesis
    using fifo_enqueue_dedup [of "filter (\<lambda>r. \<not> is_delayed now (obj q r)) (delayed q)" q]
    by (auto intro: fifo_frame_objs simp: q' fifo_enqueue_delayed_messages_def enqueue_delayed_messages_def)
next
  assume q': "q' = snd (fifo_remove_expired_messages now q)"
  then obtain res where "fifo_remove_expired_messages now q = (res, q')" by (cases "fifo_remove_expired_messages now q") simp
  note E = fifo_expired_groups(1) [OF fifo_invD(2) [OF inv] this]
  have "objs q' = objs q \<and> next_ref q' = next_ref q \<and> queue_arn q' = queue_arn q \<and> receipts q' = receipts q \<and>
    deduplication q' = deduplication q \<and> deduplication_scope q' = deduplication_scope q"
    by (subst (1 2 3 4 5 6) E) (simp add: queue_arn_def)
  then show ?thesis by (auto intro: fifo_frame_objs)
qed (auto intro!: fifo_frame_objs simp: queue_shutdown_def queue_arn_def get_message_group_def update_message_group_visibility_def Let_def)

lemma fifo_exec_frame:
  assumes uid: "uids_ok uid" and inv: "fifo_inv now q" and below: "handles_below ext uid n q"
    and out: "fifo_exec ext uid now ev (q, n) = (rs, q', n')"
  shows "fifo_frame q q' \<and> handles_below ext uid n' q'"
proof -
  have plain: "handles_below ext uid n q'" if "fifo_frame q q'" "\<And>h. dict_has (receipts q') h \<Longrightarrow> dict_has (receipts q) h"
    by (rule handles_below_mono [OF below]) (use that in \<open>auto simp: fifo_frame_def\<close>)
  have worker: ?thesis if "n' = n" "q' = fifo_requeue_inflight_messages now q \<or> q' = fifo_enqueue_delayed_messages now q \<or>
      q' = snd (fifo_remove_expired_messages now q) \<or> q' = queue_shutdown q \<or> q' = q\<lparr>attributes := a\<rparr> \<or>
      q' = update_message_group_visibility g (get_message_group g q)" for a g
    using fifo_worker_frame [OF inv that(2)] plain that(1) by simp
  show ?thesis
  proof (cases ev)
    case (FifoPut later seq msg timeout dedup grp delay)
    obtain res x seq' where p: "fifo_put ext now later seq msg timeout dedup grp delay q = ((res, x), seq')" by (metis surj_pair)
    then have "x = q'" "n' = n" using out FifoPut by simp_all
    then show ?thesis using fifo_put_frame(1,2) [OF p] plain by simp
  next
    case (FifoReceive num wait timeout poll)
    note fresh = handles_below_fresh [OF uid below]
    obtain res where r: "fifo_receive ext (\<lambda>i. uid (n + i)) now num wait timeout poll q = (res, q')"
        and n': "n' = (case res of Inl _ \<Rightarrow> n | Inr x \<Rightarrow> n + length (result_handles x))"
      using out FifoReceive by (auto split: prod.splits sum.splits)
    note frame = fifo_receive_frame [OF inv fresh r]
    have "handles_below ext uid n' q'"
      by (rule handles_below_mono [OF below]) (use frame(1,3) n' in \<open>auto simp: fifo_frame_def split: sum.splits\<close>)
    then show ?thesis using frame(1) by blast
  next
    case (FifoRemove h)
    then obtain res where r: "fifo_remove ext now h q = (res, q')" "n' = n" using out by (cases "fifo_remove ext now h q") auto
    then show ?thesis using fifo_remove_frame [OF inv r(1)] plain by simp
  next
    case (FifoChangeVisibility h v)
    then obtain res where r: "fifo_update_visibility_timeout ext now h v q = (res, q')" "n' = n"
      using out by (cases "fifo_update_visibility_timeout ext now h v q") auto
    then show ?thesis using fifo_change_visibility_frame [OF r(1)] plain by simp
  next
    case FifoClear
    then show ?thesis
      using out by (auto simp: fifo_frame_def handles_below_def fifo_clear_def clear_base_def queue_arn_def)
  next
    case FifoRequeue
    show ?thesis by (rule worker [where a = "attributes q" and g = "None"]) (use out FifoRequeue in simp_all)
  next
    case FifoEnqueueDelayed
    show ?thesis by (rule worker [where a = "attributes q" and g = "None"]) (use out FifoEnqueueDelayed in simp_all)
  next
    case FifoRemoveExpired
    show ?thesis by (rule worker [where a = "attributes q" and g = "None"]) (use out FifoRemoveExpired in simp_all)
  next
    case FifoShutdown
    show ?thesis by (rule worker [where a = "attributes q" and g = "None"]) (use out FifoShutdown in simp_all)
  next
    case (FifoSetAttributes a)
    show ?thesis by (rule worker [where a = "a" and g = "None"]) (use out FifoSetAttributes in simp_all)
  next
    case (FifoRefreshGroup g)
    show ?thesis by (rule worker [where a = "attributes q" and g = "g"]) (use out FifoRefreshGroup in simp_all)
  qed
qed

lemma fifo_exec_inv:
  assumes uid: "uids_ok uid" and inv: "fifo_inv now q" and below: "handles_below ext uid n q" and adm: "fifo_admissible retention ev q"
    and out: "fifo_exec ext uid now ev (q, n) = (rs, q', n')"
  shows "fifo_inv now q' \<and> (\<not> retention \<longrightarrow> fifo_excl q \<longrightarrow> fifo_excl q')"
proof (cases ev)
  case (FifoPut later seq msg timeout dedup grp delay)
  obtain res x seq' where p: "fifo_put ext now later seq msg timeout dedup grp delay q = ((res, x), seq')" by (metis surj_pair)
  then have "x = q'" using out FifoPut by simp
  then show ?thesis using fifo_inv_put [OF inv p] adm FifoPut by simp
next
  case (FifoReceive num wait timeout poll)
  obtain res where r: "fifo_receive ext (\<lambda>i. uid (n + i)) now num wait timeout poll q = (res, q')"
    using out FifoReceive by (auto split: prod.splits sum.splits)
  then show ?thesis using fifo_receive_inv [OF inv handles_below_fresh [OF uid below] r] by blast
next
  case (FifoRemove h)
  then obtain res where "fifo_remove ext now h q = (res, q')" using out by (cases "fifo_remove ext now h q") auto
  then show ?thesis using fifo_inv_remove [OF inv] by blast
next
  case (FifoChangeVisibility h v)
  then obtain res where "fifo_update_visibility_timeout ext now h v q = (res, q')"
    using out by (cases "fifo_update_visibility_timeout ext now h v q") auto
  then show ?thesis using fifo_inv_change_visibility [OF inv] by blast
next
  case FifoRemoveExpired
  then obtain res where "fifo_remove_expired_messages now q = (res, q')" using out by (cases "fifo_remove_expired_messages now q") auto
  then show ?thesis using fifo_inv_expired [OF inv] adm FifoRemoveExpired by simp
next
  case FifoShutdown
  then have q': "q' = q\<lparr>is_shutdown := True\<rparr>" using out by (simp add: queue_shutdown_def)
  have "fifo_waiting q' = fifo_waiting q" by (rule fifo_waiting_cong) (simp add: q')
  moreover have more: "sqs_queue.more q' = sqs_queue.more q" by (simp add: q')
  moreover have "fifo_ok q'" by (rule fifo_ok_frame [OF fifo_invD(2) [OF inv] more]) (simp_all add: q')
  ultimately show ?thesis using fifo_inv_base [OF inv] fifo_excl_frame [OF more] by (simp add: q')
next
  case (FifoSetAttributes a)
  then have q': "q' = q\<lparr>attributes := a\<rparr>" using out by simp
  have "fifo_waiting q' = fifo_waiting q" by (rule fifo_waiting_cong) (simp add: q')
  moreover have more: "sqs_queue.more q' = sqs_queue.more q" by (simp add: q')
  moreover have "fifo_ok q'" by (rule fifo_ok_frame [OF fifo_invD(2) [OF inv] more]) (simp_all add: q')
  ultimately show ?thesis using fifo_inv_base [OF inv] fifo_excl_frame [OF more] by (simp add: q')
qed (use out fifo_inv_requeue [OF inv] fifo_inv_enqueue [OF inv] fifo_inv_clear fifo_inv_refresh [OF inv] in auto)

lemma fifo_init_inv:
  assumes "fifo_queue_init now name reg account attrs tgs = Inr q"
  shows "fifo_inv t q" "fifo_excl q" "handles_below ext uid 0 q" "deduplication q = []"
proof -
  have e: "inflight q = []" "delayed q = []" "receipts q = []" "message_groups q = []" "message_group_queue q = []" "deduplication q = []"
    using assms by (auto simp: fifo_queue_init_def Let_def bind_result_Inr_iff split: if_splits option.splits)
  have w: "fifo_waiting q = []" by (simp add: fifo_waiting_def e)
  have "queue_wf [] q" by (rule queue_wfI) (simp_all add: e receipts_ok_def)
  moreover have "fifo_ok q" by (rule fifo_okI) (simp_all add: e group_messages_def heap_from_def)
  ultimately show "fifo_inv t q" "fifo_excl q" "handles_below ext uid 0 q" "deduplication q = []"
    by (auto simp: fifo_inv_def fifo_excl_def handles_below_def e w)
qed

lemma fifo_reachable_inv:
  assumes "fifo_reachable retention ext uid s" "uids_ok uid"
  shows "fifo_inv (snd (snd s)) (fst s) \<and> handles_below ext uid (fst (snd s)) (fst s) \<and> (\<not> retention \<longrightarrow> fifo_excl (fst s))"
  using assms
proof (induction rule: fifo_reachable.induct)
  case (fifo_init now name reg account attrs tgs q)
  then show ?case using fifo_init_inv by simp
next
  case (fifo_more_steps s ev out s')
  from fifo_more_steps.hyps(2) obtain t now q n q' n' where s: "s = (q, n, t)" "s' = (q', n', now)" "t \<le> now" "fifo_admissible retention ev q"
    "fifo_exec ext uid now ev (q, n) = (out, q', n')" by (auto elim: fifo_stepE)
  note I = fifo_more_steps.IH [OF fifo_more_steps.prems]
  have inv: "fifo_inv now q" using I fifo_inv_mono s(3) unfolding s by auto
  have below: "handles_below ext uid n q" using I unfolding s by simp
  show ?case
    using fifo_exec_inv [OF fifo_more_steps.prems inv below s(4,5)] fifo_exec_frame [OF fifo_more_steps.prems inv below s(5)] I
    unfolding s by simp
qed

end
