(* ===== verification/SqsFifoSpec.thy ===== *)
theory SqsFifoSpec
  imports SqsFifoRun SqsStandardSpec
begin

text \<open>
  The guarantees of a FIFO queue: its containers stay consistent, a receive returns the oldest messages of a
  group in order, a group with messages in flight is held back, a deleted message releases its group, and a message
  that is sent again within five minutes is dropped. Two runs show where the guarantees end: when messages expire,
  and when two groups share a deduplication id.
\<close>

subsection \<open>Groups that are held back\<close>

abbreviation group_of :: "fifo_queue \<Rightarrow> ref \<Rightarrow> group_id" where
  "group_of q r \<equiv> message_group_id (obj q r)"















subsection \<open>Runs\<close>




subsection \<open>A FIFO queue with three messages\<close>

definition fifo_q0 :: fifo_queue where
  "fifo_q0 = projr (fifo_queue_init 0 ''q.fifo'' ''us-east-1'' ''000000000000'' (Some [(''FifoQueue'', ''true'')]) None)"

definition fifo_send :: "time \<Rightarrow> string \<Rightarrow> string \<Rightarrow> string \<Rightarrow> fifo_event" where
  "fifo_send now i g d = FifoPut (now + 1/2) 0 (demo_message i) None (Some d) (Some g) None"

definition fifo_q3 :: fifo_queue where
  "fifo_q3 = (let run = (\<lambda>t ev q. fst (snd (fifo_exec demo_ext demo_uid t ev (q, 0)))) in
     run 3 (fifo_send 3 ''m3'' ''h'' ''d3'') (run 2 (fifo_send 2 ''m2'' ''g'' ''d2'') (run 1 (fifo_send 1 ''m1'' ''g'' ''d1'') fifo_q0)))"

lemma fifo_q0_init: "fifo_queue_init 0 ''q.fifo'' ''us-east-1'' ''000000000000'' (Some [(''FifoQueue'', ''true'')]) None = Inr fifo_q0"
proof -
  have "\<not> isl (fifo_queue_init 0 ''q.fifo'' ''us-east-1'' ''000000000000'' (Some [(''FifoQueue'', ''true'')]) None)" by code_simp
  then show ?thesis by (simp add: fifo_q0_def)
qed

lemma fifo_q3_facts:
  "message_groups fifo_q3 = [(Some ''g'', [0, 1]), (Some ''h'', [2])]" "message_group_queue fifo_q3 = [Some ''g'', Some ''h'']"
  "inflight fifo_q3 = []" "inflight_groups fifo_q3 = []" "deduplication_scope fifo_q3 = ''queue''" "map (mid fifo_q3) [0, 1, 2] = [''m1'', ''m2'', ''m3'']"
  by code_simp+

lemma fifo_sent_step:
  assumes "fifo_reachable ret demo_ext demo_uid (q, 0, t)" "t \<le> now"
    "fifo_admissible ret (fifo_send now i g d) q"
  shows "fifo_reachable ret demo_ext demo_uid (fst (snd (fifo_exec demo_ext demo_uid now (fifo_send now i g d) (q, 0))), 0, now)"
  by (rule fifo_more_steps [OF assms(1)], rule fifo_stepI [OF assms(2,3), of _ _ _ "[]"]) (simp add: fifo_send_def)

lemma fifo_q3_reachable: "fifo_reachable ret demo_ext demo_uid (fifo_q3, 0, 3)"
proof -
  let ?q1 = "fst (snd (fifo_exec demo_ext demo_uid 1 (fifo_send 1 ''m1'' ''g'' ''d1'') (fifo_q0, 0)))"
  let ?q2 = "fst (snd (fifo_exec demo_ext demo_uid 2 (fifo_send 2 ''m2'' ''g'' ''d2'') (?q1, 0)))"
  have a: "fifo_admissible ret (fifo_send 1 ''m1'' ''g'' ''d1'') fifo_q0" "fifo_admissible ret (fifo_send 2 ''m2'' ''g'' ''d2'') ?q1"
    "fifo_admissible ret (fifo_send 3 ''m3'' ''h'' ''d3'') ?q2" for ret
    by code_simp+
  have "fifo_reachable ret demo_ext demo_uid (?q1, 0, 1)" by (rule fifo_sent_step [OF fifo_init [OF fifo_q0_init] _ a(1)]) simp
  then have "fifo_reachable ret demo_ext demo_uid (?q2, 0, 2)" by (rule fifo_sent_step [OF _ _ a(2)]) simp
  then show ?thesis unfolding fifo_q3_def Let_def by (rule fifo_sent_step [OF _ _ a(3)]) simp
qed

definition fifo_got :: "receive_message_result result \<times> fifo_queue" where
  "fifo_got = fifo_receive demo_ext (\<lambda>i. demo_uid (0 + i)) 4 1 None None False fifo_q3"

lemma fifo_got_facts: "map_sum id successful (fst fifo_got) = Inr [0]"
  "inflight (snd fifo_got) = [0]" "group_of fifo_q3 0 = Some ''g''" "group_of (snd fifo_got) 0 = Some ''g''"
  "queue_visibility_timeout fifo_q3 = Inr 30" "max_receive_count fifo_q3 = Inr None"
  by code_simp+

lemma fifo_got_run:
  obtains res where "fifo_receive demo_ext (\<lambda>i. demo_uid (0 + i)) 4 1 None None False fifo_q3 = (Inr res, snd fifo_got)"
    "successful res = [0]"
proof (cases "fst fifo_got")
  case (Inl e)
  then show thesis using fifo_got_facts(1) by simp
next
  case (Inr res)
  then have "successful res = [0]" using fifo_got_facts(1) by simp
  moreover have "fifo_receive demo_ext (\<lambda>i. demo_uid (0 + i)) 4 1 None None False fifo_q3 = (Inr res, snd fifo_got)"
    using Inr unfolding fifo_got_def by (metis prod.collapse)
  ultimately show thesis using that by blast
qed

subsection \<open>The invariant\<close>



subsection \<open>Order\<close>

lemma filter_taken:
  assumes "distinct (map fst segs)" "\<And>g xs x. (g, xs) \<in> set segs \<Longrightarrow> x \<in> set xs \<Longrightarrow> f x = g"
  shows "filter (\<lambda>x. f x = g) (taken segs) = (case map_of segs g of Some xs \<Rightarrow> xs | None \<Rightarrow> [])"
  using assms
proof (induction segs)
  case (Cons p segs)
  obtain g' xs where p: "p = (g', xs)" by (cases p)
  have h: "filter (\<lambda>x. f x = g) xs = (if g' = g then xs else [])"
    using Cons.prems(2) [of g' xs] p by (auto simp: filter_empty_conv filter_id_conv)
  have "filter (\<lambda>x. f x = g) (taken segs) = (case map_of segs g of Some xs \<Rightarrow> xs | None \<Rightarrow> [])"
    using Cons.prems by (intro Cons.IH) auto
  moreover have "g' = g \<Longrightarrow> map_of segs g = None" using Cons.prems(1) p by (simp add: map_of_eq_None_iff)
  ultimately show ?case by (cases "g' = g") (simp_all add: p h)
qed simp

lemma fifo_taken_group:
  assumes "fifo_takes now v limit q segs q'" "fifo_ok q"
  shows "filter (\<lambda>x. group_of q x = g) (taken segs) = (case map_of segs g of Some xs \<Rightarrow> xs | None \<Rightarrow> [])"
proof (rule filter_taken [OF fifo_takes_distinct [OF assms(1)]])
  fix g xs x assume s: "(g, xs) \<in> set segs" "x \<in> set xs"
  then have "x \<in> set (group_messages q g)"
    using fifo_takes_in_group [OF assms(1) s(1)] by (metis UnCI set_mset_mset set_mset_union)
  then show "group_of q x = g" using fifo_okD(3) [OF assms(2)] by blast
qed

text \<open>
  C7: order within a group. Of each group a receive takes the oldest messages in the order of their sending, all of
  them waiting before; those it takes are the returned messages and the dead letters, and no message is lost.
\<close>

theorem fifo_receive_in_order:
  assumes "fifo_reachable retention ext uid (q, n, t)" "uids_ok uid" "t \<le> now"
    and "fifo_receive ext (\<lambda>i. uid (n + i)) now num wait_time timeout poll q = (Inr res, q')"
  shows "(\<exists>xs rest. mset (group_messages q g) = mset xs + mset rest \<and> sorted (map (msg_priority q) xs) \<and>
      list_all (\<lambda>x. list_all (\<lambda>y. msg_priority q x \<le> msg_priority q y) rest) xs \<and>
      subseq (filter (\<lambda>r. group_of q r = g) (successful res)) xs \<and>
      mset xs = filter_mset (\<lambda>r. group_of q r = g) (mset (successful res) + mset (dead_letter_messages res))) \<and>
    mset (fifo_waiting q') + mset (inflight q') + mset (delayed q') + mset (dead_letter_messages res) =
      mset (fifo_waiting q) + mset (inflight q) + mset (delayed q)"
proof -
  from fifo_reachable_inv [OF assms(1,2)] have I: "fifo_inv now q" "handles_below ext uid n q"
    using fifo_inv_mono [OF _ assms(3)] by auto
  note fresh = handles_below_fresh [OF assms(2) I(2)]
  from I(1) assms(4) obtain v limit segs q1 where c: "fifo_takes now v limit q segs q1"
      "sorts_out now v limit q [] [] (taken segs) (Inr (successful res, dead_letter_messages res))"
      and h: "hand_out_all fifo_put_message ext (\<lambda>i. uid (n + i)) (successful res) q1 = (result_handles res, q')"
    by (cases rule: fifo_receive_cases) auto
  let ?over = "\<lambda>r. exceeds_max_receive_count limit (mark_received now v (obj q r))"
  have ok: "successful res = filter (\<lambda>r. \<not> ?over r) (taken segs)" and dead: "dead_letter_messages res = filter ?over (taken segs)"
    using c(2) by (simp_all add: sorts_out_def)
  have all: "mset (taken segs) = mset (successful res) + mset (dead_letter_messages res)" unfolding ok dead by (rule mset_split_filter)
  define xs where "xs = filter (\<lambda>r. group_of q r = g) (taken segs)"
  have xs: "xs = (case map_of segs g of Some xs \<Rightarrow> xs | None \<Rightarrow> [])"
    unfolding xs_def by (rule fifo_taken_group [OF c(1) fifo_invD(2) [OF I(1)]])
  have "mset (group_messages q g) = mset xs + mset (group_messages q1 g) \<and> sorted (map (msg_priority q) xs) \<and>
      (\<forall>x \<in> set xs. \<forall>y \<in> set (group_messages q1 g). msg_priority q x \<le> msg_priority q y)"
  proof (cases "map_of segs g")
    case None
    then have "g \<notin> fst ` set segs" by (simp add: map_of_eq_None_iff)
    then show ?thesis using fifo_takes_other [OF c(1)] xs None by simp
  next
    case (Some ys)
    then show ?thesis using fifo_takes_in_group [OF c(1) map_of_SomeD [OF Some]] xs by simp
  qed
  moreover have "filter (\<lambda>r. group_of q r = g) (successful res) = filter (\<lambda>r. \<not> ?over r) xs"
    unfolding ok xs_def by (simp add: conj_commute)
  then have "subseq (filter (\<lambda>r. group_of q r = g) (successful res)) xs" by simp
  moreover have "mset xs = filter_mset (\<lambda>r. group_of q r = g) (mset (successful res) + mset (dead_letter_messages res))"
    unfolding xs_def mset_filter all ..
  ultimately have order: "\<exists>xs rest. mset (group_messages q g) = mset xs + mset rest \<and> sorted (map (msg_priority q) xs) \<and>
      list_all (\<lambda>x. list_all (\<lambda>y. msg_priority q x \<le> msg_priority q y) rest) xs \<and>
      subseq (filter (\<lambda>r. group_of q r = g) (successful res)) xs \<and>
      mset xs = filter_mset (\<lambda>r. group_of q r = g) (mset (successful res) + mset (dead_letter_messages res))"
    unfolding list_all_iff by blast
  note H = fifo_handed_out [OF I(1) c fresh h] and F = fifo_takes_frame [OF c(1) fifo_inv_waiting(1) [OF I(1)]]
  have "mset (fifo_waiting q) = mset (successful res) + mset (dead_letter_messages res) + mset (fifo_waiting q1)" using F all by simp
  then have "mset (fifo_waiting q') + mset (inflight q') + mset (delayed q') + mset (dead_letter_messages res) =
      mset (fifo_waiting q) + mset (inflight q) + mset (delayed q)"
    unfolding H(4,6,7) by (cases "v = 0") (simp_all add: ac_simps)
  then show ?thesis using order by blast
qed

theorem fifo_receive_in_order_witness:
  "\<exists>res q' xs rest. fifo_receive demo_ext (\<lambda>i. demo_uid (0 + i)) 4 1 None None False fifo_q3 = (Inr res, q') \<and> successful res = [0] \<and>
     mset [0, 1 :: ref] = mset xs + mset rest \<and> subseq [0] xs"
proof (rule fifo_got_run)
  fix res assume r: "fifo_receive demo_ext (\<lambda>i. demo_uid (0 + i)) 4 1 None None False fifo_q3 = (Inr res, snd fifo_got)" "successful res = [0]"
  have g: "group_messages fifo_q3 (Some ''g'') = [0, 1]" by (simp add: group_messages_def fifo_q3_facts)
  obtain xs rest where "mset [0, 1] = mset xs + mset rest" "subseq (filter (\<lambda>r. group_of fifo_q3 r = Some ''g'') [0]) xs"
    using fifo_receive_in_order [OF fifo_q3_reachable [of False] demo_uids _ r(1), of "Some ''g''"] unfolding g r(2) by auto
  then show ?thesis using r fifo_got_facts(3) by (intro exI conjI) auto
qed

subsection \<open>Exclusive groups\<close>




subsection \<open>Deduplication\<close>

lemma init_attributes_group: "dict_get (init_attributes old d (Some g) seq) ''MessageGroupId'' = Some g"
proof -
  have sd: "dict_get (dict_setdefault k v dct) k' = Some g" if "dict_get dct k' = Some g" for k v dct k'
    using that by (simp add: dict_setdefault_def map_add_Some_iff)
  show ?thesis
    unfolding init_attributes_def Let_def
    by (rule sd) (auto simp: dict_update_Cons dict_get_update split: option.splits)
qed

lemma fifo_message_group [simp]: "truthy grp \<Longrightarrow> message_group_id (fifo_message now seq msg d grp v delay) = grp"
  by (cases grp) (simp_all add: fifo_message_def sqs_message_init_def message_group_id_def msg_attributes_def init_attributes_group truthy_def)











subsection \<open>Two runs that leave the contract\<close>







end
