(* ===== verification/Spec2Isabelle.thy ===== *)
theory Spec2Isabelle
  imports SqsStandardLife SqsRequestSpec StoresSpec SqsFifoSpec
begin

text \<open>
  Verification of LocalStack's SQS service and of the utilities it is built on.
\<close>

section \<open>Receipt handles\<close>

text \<open>
  C16: decoding the receipt handle of a queue gives back the identifier, the queue ARN, the message id
  and the time it was made from.
\<close>

theorem receipt_handle_decodes:
  assumes "handle_word uid" "handle_word arn" "handle_word msg_id" "handle_word recv" "parse_arn arn = Inr d"
  shows "extract_receipt_handle_info parse_arn (encode_receipt_handle uid arn msg_id recv) =
    Inr \<lparr>rh_identifier = uid, rh_queue_arn = arn, rh_message_id = msg_id, rh_last_received = recv\<rparr>"
  using assms by (rule receipt_handle_roundtrip)

theorem receipt_handle_decodes_witness:
  "extract_receipt_handle_info (\<lambda>_. Inr \<lparr>arn_partition = [], arn_service = [], arn_region = [], arn_account = [], arn_resource = []\<rparr>)
     (encode_receipt_handle ''u'' ''arn:aws:sqs:us-east-1:000000000000:q'' ''m'' ''1.5'') =
    Inr \<lparr>rh_identifier = ''u'', rh_queue_arn = ''arn:aws:sqs:us-east-1:000000000000:q'', rh_message_id = ''m'', rh_last_received = ''1.5''\<rparr>"
  by (rule receipt_handle_decodes) (simp_all add: handle_word_def is_ascii_def)

end
